(* ===== verification/Prelude.thy ===== *)
theory Prelude
  imports Main "HOL-Library.Word" "HOL-Library.Monad_Syntax" "HOL-Library.Multiset"
begin

text \<open>
  Shared vocabulary of the development: the machine types of the Go code, the reading of
  a Go panic, indexing and slicing as Go does them, loops over a state that may panic,
  and the lemmas on words, lists and options that every component uses.

  A Go function that may panic returns an \<open>option\<close>: \<open>None\<close> is the panic and \<open>Some\<close>
  a normal return. A Go \<open>error\<close> result is a value of a sum type, \<open>Inl\<close> the error.
  A \<open>uint64\<close> is a 64-bit word, so that \<open>+\<close> and \<open>-\<close> wrap around as they do in Go.
  Go's \<open>int\<close> is \<open>nat\<close> where the code keeps it non-negative (lengths, counters of a
  buffer) and \<open>int\<close> elsewhere.
\<close>

section \<open>Machine types and collections of facts\<close>

type_synonym u64 = "64 word"
type_synonym byte = "8 word"
type_synonym bytes = "8 word list"

abbreviation maxU64 :: u64 where
  "maxU64 \<equiv> 18446744073709551615"

named_theorems go_eval \<open>definitions unfolded when a closed instance is evaluated\<close>
named_theorems frame \<open>fields an operation leaves alone\<close>
named_theorems calls \<open>rules for a call inside a function, one per callee\<close>

section \<open>Panics, indexing and slicing\<close>

definition panicIf :: "bool \<Rightarrow> unit option" where
  "panicIf b = (if b then None else Some ())"

definition go_index :: "'a list \<Rightarrow> nat \<Rightarrow> 'a option" where
  "go_index xs i = (if i < length xs then Some (xs ! i) else None)"

definition go_slice :: "'a list \<Rightarrow> nat \<Rightarrow> nat \<Rightarrow> 'a list option" where
  "go_slice xs lo hi =
     (if lo \<le> hi \<and> hi \<le> length xs then Some (take (hi - lo) (drop lo xs)) else None)"

definition go_from :: "'a list \<Rightarrow> nat \<Rightarrow> 'a list option" where
  "go_from xs lo = (if lo \<le> length xs then Some (drop lo xs) else None)"

definition go_store :: "'a list \<Rightarrow> nat \<Rightarrow> 'a \<Rightarrow> 'a list option" where
  "go_store xs i v = (if i < length xs then Some (xs[i := v]) else None)"

text \<open>A loop over a list whose body updates a state and may panic.\<close>

fun foldO :: "('a \<Rightarrow> 's \<Rightarrow> 's option) \<Rightarrow> 'a list \<Rightarrow> 's \<Rightarrow> 's option" where
  "foldO f [] s = Some s"
| "foldO f (x # xs) s = Option.bind (f x s) (foldO f xs)"

text \<open>
  A Go function that returns an error and may panic as well gives \<open>('e + 'a) option\<close>.
  \<open>tryE\<close> is the early return on an error, \<open>firstErr\<close> a loop of checks that returns the
  first error it meets.
\<close>

definition tryE :: "('e + 'a) option \<Rightarrow> ('a \<Rightarrow> ('e + 'b) option) \<Rightarrow> ('e + 'b) option" where
  "tryE m f = Option.bind m (\<lambda>r. case r of Inl e \<Rightarrow> Some (Inl e) | Inr x \<Rightarrow> f x)"

fun firstErr :: "('a \<Rightarrow> 'e option) \<Rightarrow> 'a list \<Rightarrow> 'e option" where
  "firstErr f [] = None"
| "firstErr f (x # xs) = (case f x of None \<Rightarrow> firstErr f xs | Some e \<Rightarrow> Some e)"

text \<open>
  What holds of the result of a function unless it panics. The equations follow the
  control flow of a function; a call is handled by the rule of its callee.
\<close>

definition post :: "'a option \<Rightarrow> ('a \<Rightarrow> bool) \<Rightarrow> bool" where
  "post X P \<longleftrightarrow> (\<forall>x. X = Some x \<longrightarrow> P x)"

section \<open>Panics and loops: rules\<close>

lemma postI: "(\<And>x. X = Some x \<Longrightarrow> P x) \<Longrightarrow> post X P"
  by (simp add: post_def)

lemma postD: "post X P \<Longrightarrow> X = Some x \<Longrightarrow> P x"
  by (simp add: post_def)

lemma post_weaken: "post X Q \<Longrightarrow> (\<And>x. Q x \<Longrightarrow> P x) \<Longrightarrow> post X P"
  by (simp add: post_def)

lemma post_simps:
  "post None P1" "post (Some x1) P2 = P2 x1"
  "post (Option.bind X3 k3) P3 = post X3 (\<lambda>x. post (k3 x) P3)"
  "post (if b then X4 else Y4) P4 = ((b \<longrightarrow> post X4 P4) \<and> (\<not> b \<longrightarrow> post Y4 P4))"
  "post (panicIf b) P5 = (\<not> b \<longrightarrow> P5 ())"
  "post (map_option f6 X6) P6 = post X6 (\<lambda>x. P6 (f6 x))"
  by (auto simp: post_def panicIf_def bind_eq_Some_conv)

lemma post_case:
  "post (case p of (a, b) \<Rightarrow> f a b) P1 = (\<forall>a b. p = (a, b) \<longrightarrow> post (f a b) P1)"
  "post (case s of Inl e \<Rightarrow> g2 e | Inr x \<Rightarrow> h2 x) P2 =
     ((\<forall>e. s = Inl e \<longrightarrow> post (g2 e) P2) \<and> (\<forall>x. s = Inr x \<longrightarrow> post (h2 x) P2))"
  "post (case z of None \<Rightarrow> X3 | Some x \<Rightarrow> k3 x) P3 =
     ((z = None \<longrightarrow> post X3 P3) \<and> (\<forall>x. z = Some x \<longrightarrow> post (k3 x) P3))"
  by (auto split: prod.split sum.split option.split)

lemma tryE_simps [simp]:
  "tryE None f = None" "tryE (Some (Inl e)) f = Some (Inl e)" "tryE (Some (Inr x)) f = f x"
  by (simp_all add: tryE_def)

lemma tryE_eq_Inr [simp]: "tryE m f = Some (Inr y) \<longleftrightarrow> (\<exists>x. m = Some (Inr x) \<and> f x = Some (Inr y))"
  by (cases m; cases "the m") (auto simp: tryE_def)

lemma tryE_eq_Inl: "tryE m f = Some (Inl e) \<longleftrightarrow>
    m = Some (Inl e) \<or> (\<exists>x. m = Some (Inr x) \<and> f x = Some (Inl e))"
  by (cases m; cases "the m") (auto simp: tryE_def)

lemma firstErr_None [simp]: "firstErr f xs = None \<longleftrightarrow> (\<forall>x \<in> set xs. f x = None)"
  by (induction xs) (auto split: option.splits)

lemmas bind_SomeE = bind_eq_Some_conv [THEN iffD1, elim_format]

lemma panicIf_eq_Some [simp]: "panicIf b = Some u \<longleftrightarrow> \<not> b"
  by (simp add: panicIf_def)

lemma panicIf_eq_None [simp]: "panicIf b = None \<longleftrightarrow> b"
  by (simp add: panicIf_def)

lemma panicIf_simps [simp]: "panicIf False = Some ()" "panicIf True = None"
  by (simp_all add: panicIf_def)

lemma go_index_eq_Some [simp]: "go_index xs i = Some x \<longleftrightarrow> i < length xs \<and> x = xs ! i"
  by (auto simp: go_index_def)

lemma go_from_eq_Some [simp]: "go_from xs lo = Some ys \<longleftrightarrow> lo \<le> length xs \<and> ys = drop lo xs"
  by (auto simp: go_from_def)

lemma go_store_eq_Some [simp]: "go_store xs i v = Some ys \<longleftrightarrow> i < length xs \<and> ys = xs[i := v]"
  by (auto simp: go_store_def)

lemma go_slice_eq_Some:
  "go_slice xs lo hi = Some ys \<longleftrightarrow>
     lo \<le> hi \<and> hi \<le> length xs \<and> ys = take (hi - lo) (drop lo xs)"
  by (auto simp: go_slice_def)

lemma foldO_append: "foldO f (xs @ ys) s = Option.bind (foldO f xs s) (foldO f ys)"
proof (induction xs arbitrary: s)
  case (Cons x xs)
  then show ?case by (cases "f x s") auto
qed simp

lemma foldO_total:
  assumes "\<And>x s. x \<in> set xs \<Longrightarrow> P s \<Longrightarrow> \<exists>s'. f x s = Some s' \<and> P s'" and "P s"
  shows "\<exists>s'. foldO f xs s = Some s' \<and> P s'"
  using assms
proof (induction xs arbitrary: s)
  case (Cons x xs)
  from Cons.prems obtain s' where s': "f x s = Some s'" "P s'"
    by (meson list.set_intros(1))
  have "\<exists>t. foldO f xs s' = Some t \<and> P t"
    by (rule Cons.IH) (use Cons.prems s' in auto)
  with s' show ?case by auto
qed simp

lemma foldO_invariant:
  assumes "foldO f xs s = Some s'" and "P s"
    and "\<And>x s s'. x \<in> set xs \<Longrightarrow> P s \<Longrightarrow> f x s = Some s' \<Longrightarrow> P s'"
  shows "P s'"
  using assms
proof (induction xs arbitrary: s)
  case (Cons x xs)
  from Cons.prems(1) obtain t where t: "f x s = Some t" "foldO f xs t = Some s'"
    by (auto simp: bind_eq_Some_conv)
  have "P t" using Cons.prems t by (meson list.set_intros(1))
  with t Cons.prems(3) show ?case
    by (intro Cons.IH [of t]) auto
qed simp

text \<open>
  Many properties of the state machine are relations between the state before and after
  an operation. A reflexive and transitive relation that every operation respects is
  respected by sequences and loops of them.
\<close>

locale step_preorder =
  fixes R :: "'s \<Rightarrow> 's \<Rightarrow> bool"
  assumes step_refl [intro, simp]: "R s s"
    and step_trans [trans]: "R s t \<Longrightarrow> R t u \<Longrightarrow> R s u"
begin

lemma foldO_step:
  assumes "foldO f xs s = Some s'"
    and "\<And>x t t'. x \<in> set xs \<Longrightarrow> R s t \<Longrightarrow> f x t = Some t' \<Longrightarrow> R t t'"
  shows "R s s'"
  by (rule foldO_invariant [where P = "R s", OF assms(1) step_refl])
    (blast intro: step_trans assms(2))

lemma post_foldO:
  assumes "\<And>x t. x \<in> set xs \<Longrightarrow> R s t \<Longrightarrow> post (f x t) (R t)"
  shows "post (foldO f xs s) (R s)"
  using foldO_step [of f xs s] assms by (auto simp: post_def)

lemma call: "post X (R s) \<Longrightarrow> (\<And>t. R s t \<Longrightarrow> P t) \<Longrightarrow> post X P"
  by (rule post_weaken)

lemma call_pair: "post X (\<lambda>(a, t). R s t) \<Longrightarrow> (\<And>a t. R s t \<Longrightarrow> P (a, t)) \<Longrightarrow> post X P"
  by (auto simp: post_def)

end

section \<open>Words\<close>

lemma u64_le_one_numeral [simp]:
  "(numeral n \<le> (1 :: u64)) \<longleftrightarrow> unat (numeral n :: u64) \<le> 1"
  "((1 :: u64) \<le> numeral n) \<longleftrightarrow> 1 \<le> unat (numeral n :: u64)"
  "(numeral n < (1 :: u64)) \<longleftrightarrow> unat (numeral n :: u64) < 1"
  "((1 :: u64) < numeral n) \<longleftrightarrow> 1 < unat (numeral n :: u64)"
  by (simp_all add: word_le_nat_alt word_less_nat_alt)

lemma unat_u64_less: "unat (x :: u64) < 18446744073709551616"
  using unsigned_less [of x] by simp

lemma u64_max [simp]: "(x :: u64) \<le> maxU64"
  using unat_u64_less [of x] by (simp add: word_le_nat_alt)

lemma u64_less_max: "(x :: u64) \<noteq> maxU64 \<Longrightarrow> x < maxU64"
  by (simp add: order.not_eq_order_implies_strict)

lemma unat_add1: "(x :: u64) \<noteq> maxU64 \<Longrightarrow> unat (x + 1) = unat x + 1"
  using u64_less_max [of x] by (simp add: unat_plus_if' word_less_nat_alt)

lemma u64_less_add1: "(x :: u64) \<noteq> maxU64 \<Longrightarrow> x < x + 1"
  by (simp add: word_less_nat_alt unat_add1)

text \<open>Index arithmetic without wrap-around.\<close>

lemma unat_plus_nat:
  "unat (b :: u64) + n < 2 ^ 64 \<Longrightarrow> unat (b + of_nat n) = unat b + n"
  by (simp add: unat_word_ariths unat_of_nat)

lemma unat_plus_nat1:
  "unat (b :: u64) + n + 1 < 2 ^ 64 \<Longrightarrow> unat (b + of_nat n + 1) = unat b + n + 1"
  "unat (b :: u64) + n + 1 < 2 ^ 64 \<Longrightarrow> unat (b + 1 + of_nat n) = unat b + n + 1"
  using unat_plus_nat [of b "n + 1"] by (simp_all add: algebra_simps)

lemma sint_small: "unat (x :: u64) < 2 ^ 63 \<Longrightarrow> sint x = int (unat x)"
proof -
  assume "unat x < 2 ^ 63"
  then have "int (unat x) < int (2 ^ 63)" by (simp only: of_nat_less_iff)
  then have "uint x < 2 ^ 63" by (simp only: uint_nat of_nat_power of_nat_numeral)
  moreover have "- (2 ^ 63) \<le> uint x" by (rule order_trans [of _ 0]) simp_all
  ultimately have "signed_take_bit 63 (uint x) = uint x"
    by (rule signed_take_bit_int_eq_self [rotated])
  then show ?thesis by (simp add: sint_uint)
qed

lemma u64_eqI: "unat (x :: u64) = unat y \<Longrightarrow> x = y"
  by (simp add: word_unat_eq_iff)

lemma u64_neqD: "(x :: u64) \<noteq> y \<Longrightarrow> unat x \<noteq> unat y"
  by (simp add: word_unat_eq_iff)

lemmas u64_arith = word_le_nat_alt word_less_nat_alt

end
