(* ===== verification/RaftPb.thy ===== *)
theory RaftPb
  imports Prelude
begin

text \<open>
  Package \<open>raftpb\<close>: the wire types (\<open>raft.pb.go\<close>) and the hand-written helpers on
  configuration changes (\<open>confchange.go\<close>, \<open>confstate.go\<close>).

  The code reads optional scalar fields through their getters, which return the zero
  value for an absent field; the records hold what the getters return. Where the code
  tests a message pointer against nil (the snapshot of a message, a \<open>ConfState\<close>), the
  field is an \<open>option\<close>. \<open>Message\<close> carries every field but \<open>responses\<close>;
  \<open>StorageMessage\<close> adds it, because only the messages to the local storage threads
  carry responses and those responses carry none.

  The protobuf runtime is not part of this repository: encoded sizes and the encoding of
  configuration changes are fields of the record \<open>proto_lib\<close>, an argument of every
  definition that uses them.
\<close>

section \<open>Wire types\<close>

datatype EntryType = EntryNormal | EntryConfChange | EntryConfChangeV2

record Entry =
  e_Term :: u64
  e_Index :: u64
  e_Type :: EntryType
  e_Data :: bytes

definition emptyEntry :: Entry where
  "emptyEntry = \<lparr>e_Term = 0, e_Index = 0, e_Type = EntryNormal, e_Data = []\<rparr>"

record ConfState =
  cs_Voters :: "u64 list"
  cs_Learners :: "u64 list"
  cs_VotersOutgoing :: "u64 list"
  cs_LearnersNext :: "u64 list"
  cs_AutoLeave :: bool

definition emptyConfState :: ConfState where
  "emptyConfState = \<lparr>cs_Voters = [], cs_Learners = [], cs_VotersOutgoing = [],
     cs_LearnersNext = [], cs_AutoLeave = False\<rparr>"

record SnapshotMetadata =
  md_ConfState :: ConfState
  md_Index :: u64
  md_Term :: u64

record Snapshot =
  sn_Data :: bytes
  sn_Metadata :: SnapshotMetadata

definition emptySnapshot :: Snapshot where
  "emptySnapshot = \<lparr>sn_Data = [],
     sn_Metadata = \<lparr>md_ConfState = emptyConfState, md_Index = 0, md_Term = 0\<rparr>\<rparr>"

datatype MessageType =
    MsgHup | MsgBeat | MsgProp | MsgApp | MsgAppResp | MsgVote | MsgVoteResp | MsgSnap
  | MsgHeartbeat | MsgHeartbeatResp | MsgUnreachable | MsgSnapStatus | MsgCheckQuorum
  | MsgTransferLeader | MsgTimeoutNow | MsgReadIndex | MsgReadIndexResp | MsgPreVote
  | MsgPreVoteResp | MsgStorageAppend | MsgStorageAppendResp | MsgStorageApply
  | MsgStorageApplyResp | MsgForgetLeader

record Message =
  m_Type :: MessageType
  m_To :: u64
  m_From :: u64
  m_Term :: u64
  m_LogTerm :: u64
  m_Index :: u64
  m_Entries :: "Entry list"
  m_Commit :: u64
  m_Vote :: u64
  m_Snapshot :: "Snapshot option"
  m_Reject :: bool
  m_RejectHint :: u64
  m_Context :: bytes

record StorageMessage = Message +
  m_Responses :: "Message list"

definition emptyMessage :: Message where
  "emptyMessage = \<lparr>m_Type = MsgHup, m_To = 0, m_From = 0, m_Term = 0, m_LogTerm = 0,
     m_Index = 0, m_Entries = [], m_Commit = 0, m_Vote = 0, m_Snapshot = None,
     m_Reject = False, m_RejectHint = 0, m_Context = []\<rparr>"

definition noResponses :: "Message \<Rightarrow> StorageMessage" where
  "noResponses m = Message.extend m \<lparr>m_Responses = []\<rparr>"

record HardState =
  hs_Term :: u64
  hs_Vote :: u64
  hs_Commit :: u64

datatype ConfChangeTransition =
    ConfChangeTransitionAuto | ConfChangeTransitionJointImplicit
  | ConfChangeTransitionJointExplicit | ConfChangeTransitionOther int

datatype ConfChangeType =
    ConfChangeAddNode | ConfChangeRemoveNode | ConfChangeUpdateNode
  | ConfChangeAddLearnerNode | ConfChangeTypeOther int

record ConfChange =
  cc_Type :: ConfChangeType
  cc_NodeId :: u64
  cc_Context :: bytes
  cc_Id :: u64

record ConfChangeSingle =
  ccs_Type :: ConfChangeType
  ccs_NodeId :: u64

record ConfChangeV2 =
  cc2_Transition :: ConfChangeTransition
  cc2_Changes :: "ConfChangeSingle list"
  cc2_Context :: bytes

section \<open>The protobuf runtime\<close>

text \<open>
  \<open>proto.Size\<close>, \<open>proto.Marshal\<close> and \<open>proto.Unmarshal\<close>; an encoding or decoding
  error is \<open>None\<close>.
\<close>

record proto_lib =
  pb_Size :: "Entry \<Rightarrow> u64"
  pb_MarshalCC :: "ConfChange \<Rightarrow> bytes option"
  pb_MarshalCCV2 :: "ConfChangeV2 \<Rightarrow> bytes option"
  pb_UnmarshalCC :: "bytes \<Rightarrow> ConfChange option"
  pb_UnmarshalCCV2 :: "bytes \<Rightarrow> ConfChangeV2 option"

section \<open>Configuration changes, both versions\<close>

datatype ConfChangeI = CCV1 ConfChange | CCV2 ConfChangeV2

fun AsV2 :: "ConfChangeI \<Rightarrow> ConfChangeV2" where
  "AsV2 (CCV1 c) = \<lparr>cc2_Transition = ConfChangeTransitionAuto,
     cc2_Changes = [\<lparr>ccs_Type = cc_Type c, ccs_NodeId = cc_NodeId c\<rparr>],
     cc2_Context = cc_Context c\<rparr>"
| "AsV2 (CCV2 c) = c"

fun AsV1 :: "ConfChangeI \<Rightarrow> ConfChange option" where
  "AsV1 (CCV1 c) = Some c"
| "AsV1 (CCV2 c) = None"

text \<open>The outer \<open>option\<close> is the interface value: \<open>None\<close> is nil.\<close>

definition MarshalConfChange :: "proto_lib \<Rightarrow> ConfChangeI option \<Rightarrow> (EntryType \<times> bytes) option" where
  "MarshalConfChange E c =
     (case c of
        None \<Rightarrow> Some (EntryConfChangeV2, [])
      | Some c' \<Rightarrow>
          (case AsV1 c' of
             Some ccv1 \<Rightarrow> map_option (Pair EntryConfChange) (pb_MarshalCC E ccv1)
           | None \<Rightarrow> map_option (Pair EntryConfChangeV2) (pb_MarshalCCV2 E (AsV2 c'))))"

text \<open>\<open>(autoLeave, ok)\<close>; an unknown transition panics.\<close>

definition CC_EnterJoint :: "ConfChangeV2 \<Rightarrow> (bool \<times> bool) option" where
  "CC_EnterJoint c =
     (if cc2_Transition c \<noteq> ConfChangeTransitionAuto \<or> length (cc2_Changes c) > 1 then
        (case cc2_Transition c of
           ConfChangeTransitionAuto \<Rightarrow> Some (True, True)
         | ConfChangeTransitionJointImplicit \<Rightarrow> Some (True, True)
         | ConfChangeTransitionJointExplicit \<Rightarrow> Some (False, True)
         | ConfChangeTransitionOther _ \<Rightarrow> None)
      else Some (False, False))"

definition CC_LeaveJoint :: "ConfChangeV2 \<Rightarrow> bool" where
  "CC_LeaveJoint c \<longleftrightarrow>
     cc2_Transition c = ConfChangeTransitionAuto \<and> length (cc2_Changes c) = 0"

section \<open>Comparing configurations\<close>

text \<open>\<open>True\<close> is the nil error.\<close>

definition Equivalent :: "ConfState option \<Rightarrow> ConfState option \<Rightarrow> bool" where
  "Equivalent cs cs2 =
     (case (cs, cs2) of
        (Some c1, Some c2) \<Rightarrow>
          sort (cs_Voters c1) = sort (cs_Voters c2) \<and>
          sort (cs_Learners c1) = sort (cs_Learners c2) \<and>
          sort (cs_VotersOutgoing c1) = sort (cs_VotersOutgoing c2) \<and>
          sort (cs_LearnersNext c1) = sort (cs_LearnersNext c2) \<and>
          cs_AutoLeave c1 = cs_AutoLeave c2
      | _ \<Rightarrow> False)"

section \<open>Printing and parsing configuration changes\<close>

text \<open>
  The parts of \<open>strings\<close>, \<open>strconv\<close> and \<open>fmt\<close> that the two functions use:
  \<open>TrimSpace\<close> on ASCII text, \<open>Split\<close> on one character, \<open>ParseUint\<close> in base 10
  at 64 bits and the verb \<open>%d\<close>.
\<close>

definition isSpace :: "char \<Rightarrow> bool" where
  "isSpace c \<longleftrightarrow> (of_char c :: nat) \<in> {9, 10, 11, 12, 13, 32}"

definition TrimSpace :: "string \<Rightarrow> string" where
  "TrimSpace s = rev (dropWhile isSpace (rev (dropWhile isSpace s)))"

fun Split :: "char \<Rightarrow> string \<Rightarrow> string list" where
  "Split c [] = [[]]"
| "Split c (x # xs) =
     (if x = c then [] # Split c xs
      else (case Split c xs of [] \<Rightarrow> [[x]] | t # ts \<Rightarrow> (x # t) # ts))"

definition digitChar :: "nat \<Rightarrow> char" where
  "digitChar d = char_of (48 + d)"

fun fmtDec :: "nat \<Rightarrow> string" where
  "fmtDec n = (if n < 10 then [digitChar n] else fmtDec (n div 10) @ [digitChar (n mod 10)])"

declare fmtDec.simps [simp del]

datatype parse_error = ErrSyntax | ErrRange

fun parseDigits :: "nat \<Rightarrow> string \<Rightarrow> parse_error + nat" where
  "parseDigits n [] = Inr n"
| "parseDigits n (c # cs) =
     (let v = of_char c :: nat in
      if v < 48 \<or> 57 < v then Inl ErrSyntax
      else let n1 = 10 * n + (v - 48) in
        if n1 \<ge> 2 ^ 64 then Inl ErrRange else parseDigits n1 cs)"

definition ParseUint :: "string \<Rightarrow> parse_error + u64" where
  "ParseUint s =
     (if s = [] then Inl ErrSyntax
      else (case parseDigits 0 s of Inl e \<Rightarrow> Inl e | Inr n \<Rightarrow> Inr (of_nat n)))"

datatype cc_parse_error = UnknownToken string | UnknownInput string | BadNodeId parse_error

definition parseCC :: "string \<Rightarrow> cc_parse_error + ConfChangeSingle" where
  "parseCC tok =
     (if length tok < 2 then Inl (UnknownToken tok)
      else
        let typ = (if hd tok = CHR ''v'' then Some ConfChangeAddNode
                   else if hd tok = CHR ''l'' then Some ConfChangeAddLearnerNode
                   else if hd tok = CHR ''r'' then Some ConfChangeRemoveNode
                   else if hd tok = CHR ''u'' then Some ConfChangeUpdateNode
                   else None) in
        case typ of
          None \<Rightarrow> Inl (UnknownInput tok)
        | Some t \<Rightarrow>
            (case ParseUint (tl tok) of
               Inl e \<Rightarrow> Inl (BadNodeId e)
             | Inr i \<Rightarrow> Inr \<lparr>ccs_Type = t, ccs_NodeId = i\<rparr>))"

fun parseCCs :: "string list \<Rightarrow> cc_parse_error + ConfChangeSingle list" where
  "parseCCs [] = Inr []"
| "parseCCs (tok # toks) =
     (case parseCC tok of
        Inl e \<Rightarrow> Inl e
      | Inr cc \<Rightarrow> (case parseCCs toks of Inl e \<Rightarrow> Inl e | Inr ccs \<Rightarrow> Inr (cc # ccs)))"

definition ConfChangesFromString :: "string \<Rightarrow> cc_parse_error + ConfChangeSingle list" where
  "ConfChangesFromString s =
     (let toks = Split (CHR '' '') (TrimSpace s) in
      parseCCs (if hd toks = [] then [] else toks))"

definition ccString :: "ConfChangeSingle \<Rightarrow> string" where
  "ccString cc =
     (case ccs_Type cc of
        ConfChangeAddNode \<Rightarrow> ''v''
      | ConfChangeAddLearnerNode \<Rightarrow> ''l''
      | ConfChangeRemoveNode \<Rightarrow> ''r''
      | ConfChangeUpdateNode \<Rightarrow> ''u''
      | ConfChangeTypeOther _ \<Rightarrow> ''unknown'') @ fmtDec (unat (ccs_NodeId cc))"

fun ConfChangesToString :: "ConfChangeSingle list \<Rightarrow> string" where
  "ConfChangesToString [] = []"
| "ConfChangesToString [cc] = ccString cc"
| "ConfChangesToString (cc # ccs) = ccString cc @ CHR '' '' # ConfChangesToString ccs"

definition knownType :: "ConfChangeSingle \<Rightarrow> bool" where
  "knownType cc \<longleftrightarrow> (\<forall>n. ccs_Type cc \<noteq> ConfChangeTypeOther n)"

section \<open>Round trip of the textual form\<close>

lemma of_char_digitChar: "d < 10 \<Longrightarrow> (of_char (digitChar d) :: nat) = 48 + d"
  by (simp add: digitChar_def)

lemma fmtDec_digits: "set (fmtDec n) \<subseteq> digitChar ` {..<10}"
proof (induction n rule: fmtDec.induct)
  case (1 n)
  then show ?case by (subst fmtDec.simps) auto
qed

lemma fmtDec_not_Nil [simp]: "fmtDec n \<noteq> []"
  by (subst fmtDec.simps) simp

lemma fmtDec_notin:
  assumes "isSpace c" shows "c \<notin> set (fmtDec n)"
proof
  assume "c \<in> set (fmtDec n)"
  with fmtDec_digits [of n] obtain d where "d < 10" "c = digitChar d" by auto
  with assms show False by (auto simp: isSpace_def of_char_digitChar)
qed

lemma parseDigits_append:
  "parseDigits n (xs @ ys) =
     (case parseDigits n xs of Inl e \<Rightarrow> Inl e | Inr m \<Rightarrow> parseDigits m ys)"
  by (induction n xs rule: parseDigits.induct) (auto simp: Let_def)

lemma parseDigits_fmtDec: "n < 2 ^ 64 \<Longrightarrow> parseDigits 0 (fmtDec n) = Inr n"
proof (induction n rule: fmtDec.induct)
  case (1 n)
  show ?case
  proof (cases "n < 10")
    case True
    then show ?thesis by (subst fmtDec.simps) (simp add: of_char_digitChar)
  next
    case False
    with 1 have "parseDigits 0 (fmtDec (n div 10)) = Inr (n div 10)" by auto
    with False 1(2) show ?thesis
      by (subst fmtDec.simps) (simp add: parseDigits_append of_char_digitChar)
  qed
qed

lemma ParseUint_fmtDec: "ParseUint (fmtDec (unat (i :: u64))) = Inr i"
  using unat_u64_less [of i] by (simp add: ParseUint_def parseDigits_fmtDec)

lemma parseCC_ccString: "knownType cc \<Longrightarrow> parseCC (ccString cc) = Inr cc"
  by (cases cc; cases "ccs_Type cc")
    (auto simp: parseCC_def ccString_def knownType_def ParseUint_fmtDec Let_def
       Suc_le_eq numeral_2_eq_2 linorder_not_less)

lemma parseCCs_map: "list_all knownType ccs \<Longrightarrow> parseCCs (map ccString ccs) = Inr ccs"
  by (induction ccs) (auto simp: parseCC_ccString)

lemma ccString_noSpace: "knownType cc \<Longrightarrow> c \<in> set (ccString cc) \<Longrightarrow> \<not> isSpace c"
  using fmtDec_notin [of c "unat (ccs_NodeId cc)"]
  by (cases "ccs_Type cc") (auto simp: ccString_def knownType_def isSpace_def)

lemma ccString_not_Nil [simp]: "ccString cc \<noteq> []"
  by (simp add: ccString_def)

lemma Split_noSep: "c \<notin> set xs \<Longrightarrow> Split c xs = [xs]"
  by (induction xs) auto

lemma Split_sep: "c \<notin> set xs \<Longrightarrow> Split c (xs @ c # ys) = xs # Split c ys"
  by (induction xs) auto

lemma Split_ConfChangesToString:
  "ccs \<noteq> [] \<Longrightarrow> list_all knownType ccs \<Longrightarrow>
     Split (CHR '' '') (ConfChangesToString ccs) = map ccString ccs"
proof (induction ccs rule: ConfChangesToString.induct)
  case (2 cc)
  then have "CHR '' '' \<notin> set (ccString cc)"
    using ccString_noSpace [of cc "CHR '' ''"] by (auto simp: isSpace_def)
  then show ?case by (simp add: Split_noSep)
next
  case (3 cc cc' ccs)
  then have "CHR '' '' \<notin> set (ccString cc)"
    using ccString_noSpace [of cc "CHR '' ''"] by (auto simp: isSpace_def)
  with 3 show ?case by (simp add: Split_sep)
qed simp

lemma ConfChangesToString_not_Nil: "ccs \<noteq> [] \<Longrightarrow> ConfChangesToString ccs \<noteq> []"
  by (cases ccs rule: ConfChangesToString.cases) auto

lemma hd_ConfChangesToString: "hd (ConfChangesToString (cc # ccs)) = hd (ccString cc)"
  by (cases ccs) auto

lemma last_ConfChangesToString:
  "ccs \<noteq> [] \<Longrightarrow> last (ConfChangesToString ccs) = last (ccString (last ccs))"
  by (induction ccs rule: ConfChangesToString.induct) (auto simp: ConfChangesToString_not_Nil)

lemma TrimSpace_id:
  assumes "s \<noteq> []" "\<not> isSpace (hd s)" "\<not> isSpace (last s)"
  shows "TrimSpace s = s"
proof -
  from assms obtain x xs where "s = x # xs" "\<not> isSpace x" by (cases s) auto
  moreover from assms obtain ys y where "s = ys @ [y]" "\<not> isSpace y" by (cases s rule: rev_cases) auto
  ultimately show ?thesis by (simp add: TrimSpace_def) (metis dropWhile.simps(2) rev_eq_Cons_iff rev_rev_ident)
qed

lemma TrimSpace_ConfChangesToString:
  assumes "ccs \<noteq> []" "list_all knownType ccs"
  shows "TrimSpace (ConfChangesToString ccs) = ConfChangesToString ccs"
proof (rule TrimSpace_id)
  show "ConfChangesToString ccs \<noteq> []" using assms by (simp add: ConfChangesToString_not_Nil)
  show "\<not> isSpace (hd (ConfChangesToString ccs))"
    using assms ccString_noSpace [of "hd ccs" "hd (ccString (hd ccs))"]
    by (cases ccs) (auto simp: hd_ConfChangesToString)
  show "\<not> isSpace (last (ConfChangesToString ccs))"
    using assms ccString_noSpace [of "last ccs" "last (ccString (last ccs))"]
    by (auto simp: last_ConfChangesToString list_all_iff)
qed

text \<open>
  C31: \<open>ConfChangesFromString\<close> reads back what \<open>ConfChangesToString\<close> prints, for every
  list of changes whose types are the four named ones.
\<close>

theorem ConfChanges_roundtrip:
  assumes "list_all knownType ccs"
  shows "ConfChangesFromString (ConfChangesToString ccs) = Inr ccs"
proof (cases ccs)
  case Nil
  then show ?thesis by (simp add: ConfChangesFromString_def TrimSpace_def)
next
  case (Cons cc ccs')
  with assms show ?thesis
    by (simp add: ConfChangesFromString_def Let_def TrimSpace_ConfChangesToString
        Split_ConfChangesToString parseCCs_map del: parseCCs.simps list.map)
      (simp add: parseCC_ccString parseCCs_map)
qed

theorem ConfChanges_roundtrip_witness:
  "ConfChangesToString [\<lparr>ccs_Type = ConfChangeAddNode, ccs_NodeId = 12\<rparr>,
      \<lparr>ccs_Type = ConfChangeRemoveNode, ccs_NodeId = 3\<rparr>] = ''v12 r3'' \<and>
   ConfChangesFromString ''v12 r3'' =
     Inr [\<lparr>ccs_Type = ConfChangeAddNode, ccs_NodeId = 12\<rparr>,
      \<lparr>ccs_Type = ConfChangeRemoveNode, ccs_NodeId = 3\<rparr>]"
proof -
  let ?ccs = "[\<lparr>ccs_Type = ConfChangeAddNode, ccs_NodeId = 12\<rparr>,
      \<lparr>ccs_Type = ConfChangeRemoveNode, ccs_NodeId = 3\<rparr>]"
  have s: "ConfChangesToString ?ccs = ''v12 r3''"
    by code_simp
  have "list_all knownType ?ccs" by (simp add: knownType_def)
  from ConfChanges_roundtrip [OF this] s show ?thesis by simp
qed

end
