(* ===== verification/Quorum.thy ===== *)
theory Quorum
  imports Prelude
begin

text \<open>
  Package \<open>quorum\<close>: majority configurations (\<open>majority.go\<close>), joint configurations
  (\<open>joint.go\<close>) and vote results (\<open>quorum.go\<close>).

  A \<open>MajorityConfig\<close> is a Go map used as a set; \<open>None\<close> is the nil map, which reads as
  the empty set. An \<open>AckedIndexer\<close> is the function it implements. Go iterates over a map
  in no fixed order, so the two loops over a configuration take the order as a list; the
  methods use the ascending order and the lemmas show that any order gives the same.
\<close>

section \<open>Vote results\<close>

datatype VoteResult = VotePending | VoteLost | VoteWon

instantiation VoteResult :: linorder
begin

fun voteRank :: "VoteResult \<Rightarrow> nat" where
  "voteRank VoteLost = 0"
| "voteRank VotePending = 1"
| "voteRank VoteWon = 2"

definition less_eq_VoteResult :: "VoteResult \<Rightarrow> VoteResult \<Rightarrow> bool" where
  "less_eq_VoteResult a b \<longleftrightarrow> voteRank a \<le> voteRank b"

definition less_VoteResult :: "VoteResult \<Rightarrow> VoteResult \<Rightarrow> bool" where
  "less_VoteResult a b \<longleftrightarrow> voteRank a < voteRank b"

instance
proof
  fix a b :: VoteResult
  show "a \<le> b \<Longrightarrow> b \<le> a \<Longrightarrow> a = b"
    by (cases a; cases b) (simp_all add: less_eq_VoteResult_def)
qed (auto simp: less_eq_VoteResult_def less_VoteResult_def)

end

section \<open>Majority configurations\<close>

type_synonym MajorityConfig = "u64 set option"
type_synonym AckedIndexer = "u64 \<Rightarrow> u64 option"

definition mc_ids :: "MajorityConfig \<Rightarrow> u64 set" where
  "mc_ids c = (case c of None \<Rightarrow> {} | Some s \<Rightarrow> s)"

definition mc_Slice :: "MajorityConfig \<Rightarrow> u64 list" where
  "mc_Slice c = sorted_list_of_set (mc_ids c)"

text \<open>The loop that fills \<open>srt\<close> from the right; \<open>k\<close> slots are filled already.\<close>

fun fillAcked :: "AckedIndexer \<Rightarrow> u64 list \<Rightarrow> nat \<Rightarrow> u64 list \<Rightarrow> u64 list" where
  "fillAcked l [] k srt = srt"
| "fillAcked l (i # ids) k srt =
     (case l i of
        None \<Rightarrow> fillAcked l ids k srt
      | Some idx \<Rightarrow> fillAcked l ids (Suc k) (srt[length srt - 1 - k := idx]))"

definition committedIndexIn :: "u64 list \<Rightarrow> AckedIndexer \<Rightarrow> u64" where
  "committedIndexIn ids l =
     (let n = length ids in
      if n = 0 then maxU64
      else
        let srt = sort (fillAcked l ids 0 (replicate n 0));
            pos = n - (n div 2 + 1)
        in srt ! pos)"

definition mc_CommittedIndex :: "MajorityConfig \<Rightarrow> AckedIndexer \<Rightarrow> u64" where
  "mc_CommittedIndex c l = committedIndexIn (mc_Slice c) l"

text \<open>The loop that counts votes: \<open>(votedCnt, missing)\<close>.\<close>

fun countVotes :: "(u64 \<Rightarrow> bool option) \<Rightarrow> u64 list \<Rightarrow> nat \<times> nat \<Rightarrow> nat \<times> nat" where
  "countVotes votes [] acc = acc"
| "countVotes votes (i # ids) (votedCnt, missing) =
     (case votes i of
        None \<Rightarrow> countVotes votes ids (votedCnt, missing + 1)
      | Some v \<Rightarrow> countVotes votes ids (if v then votedCnt + 1 else votedCnt, missing))"

definition voteResultIn :: "u64 list \<Rightarrow> (u64 \<Rightarrow> bool option) \<Rightarrow> VoteResult" where
  "voteResultIn ids votes =
     (if length ids = 0 then VoteWon
      else
        let (votedCnt, missing) = countVotes votes ids (0, 0);
            q = length ids div 2 + 1
        in if votedCnt \<ge> q then VoteWon
           else if votedCnt + missing \<ge> q then VotePending
           else VoteLost)"

definition mc_VoteResult :: "MajorityConfig \<Rightarrow> (u64 \<Rightarrow> bool option) \<Rightarrow> VoteResult" where
  "mc_VoteResult c votes = voteResultIn (mc_Slice c) votes"

section \<open>Joint configurations\<close>

type_synonym JointConfig = "MajorityConfig \<times> MajorityConfig"

definition jc_IDs :: "JointConfig \<Rightarrow> u64 set" where
  "jc_IDs c = mc_ids (fst c) \<union> mc_ids (snd c)"

definition jc_CommittedIndex :: "JointConfig \<Rightarrow> AckedIndexer \<Rightarrow> u64" where
  "jc_CommittedIndex c l =
     (let idx0 = mc_CommittedIndex (fst c) l;
          idx1 = mc_CommittedIndex (snd c) l
      in if idx0 < idx1 then idx0 else idx1)"

definition jc_VoteResult :: "JointConfig \<Rightarrow> (u64 \<Rightarrow> bool option) \<Rightarrow> VoteResult" where
  "jc_VoteResult c votes =
     (let r1 = mc_VoteResult (fst c) votes;
          r2 = mc_VoteResult (snd c) votes
      in if r1 = r2 then r1
         else if r1 = VoteLost \<or> r2 = VoteLost then VoteLost
         else VotePending)"

section \<open>The specification: quorums\<close>

definition majorityOf :: "MajorityConfig \<Rightarrow> u64 set \<Rightarrow> bool" where
  "majorityOf c S \<longleftrightarrow> mc_ids c = {} \<or> card (mc_ids c) div 2 + 1 \<le> card (S \<inter> mc_ids c)"

definition jointMajorityOf :: "JointConfig \<Rightarrow> u64 set \<Rightarrow> bool" where
  "jointMajorityOf c S \<longleftrightarrow> majorityOf (fst c) S \<and> majorityOf (snd c) S"

definition ackedAtLeast :: "AckedIndexer \<Rightarrow> u64 \<Rightarrow> u64 set" where
  "ackedAtLeast l x = {i. \<exists>idx. l i = Some idx \<and> x \<le> idx}"

definition votedYes :: "(u64 \<Rightarrow> bool option) \<Rightarrow> u64 set" where
  "votedYes votes = {i. votes i = Some True}"

definition notVotedNo :: "(u64 \<Rightarrow> bool option) \<Rightarrow> u64 set" where
  "notVotedNo votes = {i. votes i \<noteq> Some False}"

text \<open>
  What a consensus algorithm asks of a quorum system, and what the two questions the code
  asks of a configuration mean in terms of it.
\<close>

locale quorum_system =
  fixes quorum :: "'cfg \<Rightarrow> u64 set \<Rightarrow> bool"
    and proper :: "'cfg \<Rightarrow> bool"
  assumes quorum_mono: "quorum c S \<Longrightarrow> S \<subseteq> T \<Longrightarrow> quorum c T"
    and quorum_UNIV: "quorum c UNIV"
    and quorum_meet: "proper c \<Longrightarrow> quorum c S \<Longrightarrow> quorum c T \<Longrightarrow> S \<inter> T \<noteq> {}"

locale voting_scheme = quorum_system +
  fixes committed :: "'a \<Rightarrow> AckedIndexer \<Rightarrow> u64"
    and vote :: "'a \<Rightarrow> (u64 \<Rightarrow> bool option) \<Rightarrow> VoteResult"
  assumes committed_quorum: "x \<le> committed c l \<longleftrightarrow> x = 0 \<or> quorum c (ackedAtLeast l x)"
    and vote_won: "vote c votes = VoteWon \<longleftrightarrow> quorum c (votedYes votes)"
    and vote_lost: "vote c votes = VoteLost \<longleftrightarrow> \<not> quorum c (notVotedNo votes)"
begin

lemma winners_share_voter:
  assumes "proper c" "vote c v = VoteWon" "vote c w = VoteWon"
  shows "\<exists>i. v i = Some True \<and> w i = Some True"
  using quorum_meet [OF assms(1), of "votedYes v" "votedYes w"] assms(2,3)
  by (auto simp: vote_won votedYes_def)

lemma winner_saw_committed:
  assumes "proper c" "vote c v = VoteWon" "0 < x" "x \<le> committed c l"
  shows "\<exists>i idx. v i = Some True \<and> l i = Some idx \<and> x \<le> idx"
  using quorum_meet [OF assms(1), of "votedYes v" "ackedAtLeast l x"] assms(2-)
  by (auto simp: vote_won committed_quorum votedYes_def ackedAtLeast_def)

lemma committed_mono:
  assumes "\<And>i idx. l i = Some idx \<Longrightarrow> \<exists>idx'. l' i = Some idx' \<and> idx \<le> idx'"
  shows "committed c l \<le> committed c l'"
proof -
  have "ackedAtLeast l x \<subseteq> ackedAtLeast l' x" for x
    using assms by (force simp: ackedAtLeast_def)
  with quorum_mono have "x \<le> committed c l \<Longrightarrow> x \<le> committed c l'" for x
    by (auto simp: committed_quorum)
  then show ?thesis by blast
qed

lemma won_stays_won:
  assumes "vote c v = VoteWon" "v \<subseteq>\<^sub>m w" shows "vote c w = VoteWon"
proof -
  from assms(2) have "votedYes v \<subseteq> votedYes w"
    by (auto simp: votedYes_def map_le_def dom_def)
  with assms(1) quorum_mono show ?thesis by (auto simp: vote_won)
qed

lemma lost_stays_lost:
  assumes "vote c v = VoteLost" "v \<subseteq>\<^sub>m w" shows "vote c w = VoteLost"
proof -
  from assms(2) have "notVotedNo w \<subseteq> notVotedNo v"
    by (auto simp: notVotedNo_def map_le_def dom_def)
  with assms(1) quorum_mono show ?thesis by (auto simp: vote_lost)
qed

text \<open>A pending vote can still go both ways.\<close>

lemma pending_open:
  assumes "vote c v = VotePending"
  shows "\<exists>w. v \<subseteq>\<^sub>m w \<and> vote c w = VoteWon"
proof -
  let ?w = "\<lambda>i. case v i of None \<Rightarrow> Some True | Some b \<Rightarrow> Some b"
  have "votedYes ?w = notVotedNo v"
    by (auto simp: votedYes_def notVotedNo_def split: option.splits)
  moreover have "v \<subseteq>\<^sub>m ?w" by (auto simp: map_le_def)
  moreover have "quorum c (notVotedNo v)" using assms vote_lost [of c v] by auto
  ultimately show ?thesis by (intro exI [of _ ?w]) (simp add: vote_won)
qed

lemma committed_as_vote:
  assumes "0 < x"
  shows "x \<le> committed c l \<longleftrightarrow> vote c (\<lambda>i. map_option ((\<le>) x) (l i)) = VoteWon"
proof -
  have "votedYes (\<lambda>i. map_option ((\<le>) x) (l i)) = ackedAtLeast l x"
    by (auto simp: votedYes_def ackedAtLeast_def)
  with assms show ?thesis by (auto simp: committed_quorum vote_won)
qed

end

section \<open>Sorting: how many elements are at least the one at a position\<close>

lemma sorted_nth_ge_iff:
  assumes "sorted xs" "pos < length xs"
  shows "x \<le> xs ! pos \<longleftrightarrow> length xs - pos \<le> length (filter ((\<le>) x) xs)"
proof
  assume x: "x \<le> xs ! pos"
  have "x \<le> xs ! (pos + i)" if "pos + i < length xs" for i
    using x sorted_nth_mono [OF assms(1) le_add1 that] by (rule order_trans)
  then have "\<forall>y \<in> set (drop pos xs). x \<le> y"
    by (auto simp: in_set_conv_nth)
  then have "filter ((\<le>) x) (drop pos xs) = drop pos xs" by simp
  then have "length xs - pos = length (filter ((\<le>) x) (drop pos xs))" by simp
  also have "\<dots> \<le> length (filter ((\<le>) x) (take pos xs @ drop pos xs))"
    by (simp only: filter_append length_append)
  finally show "length xs - pos \<le> length (filter ((\<le>) x) xs)" by simp
next
  assume le: "length xs - pos \<le> length (filter ((\<le>) x) xs)"
  show "x \<le> xs ! pos"
  proof (rule ccontr)
    assume "\<not> x \<le> xs ! pos"
    moreover have "xs ! i \<le> xs ! pos" if "i < Suc pos" for i
      using assms that by (intro sorted_nth_mono) auto
    ultimately have "\<forall>y \<in> set (take (Suc pos) xs). \<not> x \<le> y"
      by (fastforce simp: in_set_conv_nth dest: order_trans)
    then have "filter ((\<le>) x) (take (Suc pos) xs) = []" by (simp add: filter_empty_conv)
    then have "filter ((\<le>) x) xs = filter ((\<le>) x) (drop (Suc pos) xs)"
      by (metis append_Nil append_take_drop_id filter_append)
    also have "length \<dots> \<le> length xs - Suc pos"
      by (metis length_drop length_filter_le)
    finally show False using le assms(2) by simp
  qed
qed

section \<open>The loops compute with quorums\<close>

lemma fillAcked_eq:
  "length fs = k \<Longrightarrow> k + length ids \<le> n \<Longrightarrow>
   fillAcked l ids k (replicate (n - k) 0 @ fs) =
     replicate (n - k - length (List.map_filter l ids)) 0 @ rev (List.map_filter l ids) @ fs"
proof (induction ids arbitrary: k fs)
  case Nil
  then show ?case by (simp add: List.map_filter_def)
next
  case (Cons i ids)
  show ?case
  proof (cases "l i")
    case None
    with Cons.prems Cons.IH [of fs k] show ?thesis by (simp add: map_filter_simps)
  next
    case (Some idx)
    have "(replicate (n - k) 0 @ fs)[n - 1 - k := idx] = replicate (n - Suc k) 0 @ idx # fs"
      using Cons.prems
      by (simp add: list_update_append list_eq_iff_nth_eq nth_append nth_list_update)
        (auto simp: nth_Cons' nth_append)
    with Some Cons.prems Cons.IH [of "idx # fs" "Suc k"] show ?thesis
      by (simp add: map_filter_simps)
  qed
qed

lemma count_map_filter:
  "length (filter P (List.map_filter l ids)) =
     length (filter (\<lambda>i. \<exists>y. l i = Some y \<and> P y) ids)"
  by (induction ids) (auto simp: map_filter_simps split: option.splits)

lemma length_filter_card: "distinct ids \<Longrightarrow> length (filter P ids) = card {i \<in> set ids. P i}"
  by (metis distinct_card distinct_filter set_filter)

lemma countVotes_eq:
  "countVotes votes ids (a, b) =
     (a + length (filter (\<lambda>i. votes i = Some True) ids),
      b + length (filter (\<lambda>i. votes i = None) ids))"
  by (induction ids arbitrary: a b) (auto split: option.splits)

lemma committedIndexIn_ge:
  assumes "distinct ids" "ids \<noteq> []"
  shows "x \<le> committedIndexIn ids l \<longleftrightarrow>
     x = 0 \<or> length ids div 2 + 1 \<le> card (ackedAtLeast l x \<inter> set ids)"
proof -
  define n where "n = length ids"
  define srt where "srt = fillAcked l ids 0 (replicate n 0)"
  define pos where "pos = n - (n div 2 + 1)"
  have n: "0 < n" using assms(2) by (simp add: n_def)
  then have pos: "pos < n" "n - pos = n div 2 + 1" unfolding pos_def by arith+
  have srt: "srt = replicate (n - length (List.map_filter l ids)) 0 @ rev (List.map_filter l ids)"
    using fillAcked_eq [of "[]" 0 ids n l] by (simp add: srt_def n_def)
  have len: "length (List.map_filter l ids) \<le> n"
    by (simp add: List.map_filter_def n_def)
  have count: "length (filter ((\<le>) x) srt) = card (ackedAtLeast l x \<inter> set ids)" if "x \<noteq> 0"
  proof -
    have "\<not> x \<le> 0" using that by (simp add: word_le_nat_alt unat_eq_zero)
    then have "length (filter ((\<le>) x) srt) = length (filter ((\<le>) x) (List.map_filter l ids))"
      by (simp add: srt rev_filter [symmetric])
    also have "\<dots> = card {i \<in> set ids. \<exists>y. l i = Some y \<and> x \<le> y}"
      by (simp add: count_map_filter length_filter_card assms(1))
    also have "{i \<in> set ids. \<exists>y. l i = Some y \<and> x \<le> y} = ackedAtLeast l x \<inter> set ids"
      by (auto simp: ackedAtLeast_def)
    finally show ?thesis .
  qed
  have "committedIndexIn ids l = sort srt ! pos"
    using n by (simp add: committedIndexIn_def srt_def n_def pos_def Let_def)
  moreover have "length srt = n" using len by (simp add: srt)
  then have "x \<le> sort srt ! pos \<longleftrightarrow> n div 2 + 1 \<le> length (filter ((\<le>) x) srt)"
    using sorted_nth_ge_iff [of "sort srt" pos x] pos by (simp add: filter_sort)
  ultimately show ?thesis using count by (cases "x = 0") (auto simp: n_def)
qed

lemma voteResultIn_won:
  assumes "distinct ids" "ids \<noteq> []"
  shows "voteResultIn ids v = VoteWon \<longleftrightarrow> length ids div 2 + 1 \<le> card (votedYes v \<inter> set ids)"
proof -
  have "card {i \<in> set ids. v i = Some True} = card (votedYes v \<inter> set ids)"
    by (rule arg_cong [where f = card]) (auto simp: votedYes_def)
  with assms show ?thesis
    by (auto simp: voteResultIn_def countVotes_eq length_filter_card Let_def)
qed

lemma voteResultIn_lost:
  assumes "distinct ids" "ids \<noteq> []"
  shows "voteResultIn ids v = VoteLost \<longleftrightarrow> \<not> length ids div 2 + 1 \<le> card (notVotedNo v \<inter> set ids)"
proof -
  have "notVotedNo v \<inter> set ids = {i \<in> set ids. v i = Some True} \<union> {i \<in> set ids. v i = None}"
    by (auto simp: notVotedNo_def)
  then have "card (notVotedNo v \<inter> set ids) =
      card {i \<in> set ids. v i = Some True} + card {i \<in> set ids. v i = None}"
    by (simp add: card_Un_disjoint disjoint_iff)
  with assms show ?thesis
    by (auto simp: voteResultIn_def countVotes_eq length_filter_card Let_def)
qed

lemma mc_Slice_simps [simp]:
  "set (mc_Slice c) = mc_ids c" "distinct (mc_Slice c)" "sorted (mc_Slice c)"
  "length (mc_Slice c) = card (mc_ids c)" "mc_Slice c = [] \<longleftrightarrow> mc_ids c = {}"
  by (simp_all add: mc_Slice_def)

lemma mc_committed:
  "x \<le> mc_CommittedIndex c l \<longleftrightarrow> x = 0 \<or> majorityOf c (ackedAtLeast l x)"
proof (cases "mc_ids c = {}")
  case True
  then show ?thesis by (simp add: mc_CommittedIndex_def committedIndexIn_def majorityOf_def mc_Slice_def)
next
  case False
  then show ?thesis
    by (simp add: mc_CommittedIndex_def committedIndexIn_ge majorityOf_def)
qed

lemma mc_won: "mc_VoteResult c v = VoteWon \<longleftrightarrow> majorityOf c (votedYes v)"
proof (cases "mc_ids c = {}")
  case True
  then show ?thesis by (simp add: mc_VoteResult_def voteResultIn_def majorityOf_def)
next
  case False
  then show ?thesis by (simp add: mc_VoteResult_def voteResultIn_won majorityOf_def)
qed

lemma mc_lost: "mc_VoteResult c v = VoteLost \<longleftrightarrow> \<not> majorityOf c (notVotedNo v)"
proof (cases "mc_ids c = {}")
  case True
  then show ?thesis by (simp add: mc_VoteResult_def voteResultIn_def majorityOf_def)
next
  case False
  then show ?thesis by (simp add: mc_VoteResult_def voteResultIn_lost majorityOf_def)
qed

lemma majorityOf_mono: "majorityOf c S \<Longrightarrow> S \<subseteq> T \<Longrightarrow> majorityOf c T"
  using card_mono [OF _ Int_mono [OF _ order_refl], of T "mc_ids c" S]
  by (auto simp: majorityOf_def)

lemma majorityOf_UNIV: "majorityOf c UNIV"
proof (cases "mc_ids c = {}")
  case False
  then have "0 < card (mc_ids c)" by (simp add: card_gt_0_iff)
  then have "card (mc_ids c) div 2 + 1 \<le> card (mc_ids c)" by arith
  then show ?thesis by (simp add: majorityOf_def)
qed (simp add: majorityOf_def)

lemma majorities_meet:
  assumes "finite A" "card A < card (S \<inter> A) + card (T \<inter> A)"
  shows "S \<inter> T \<noteq> {}"
proof
  assume "S \<inter> T = {}"
  then have "card (S \<inter> A) + card (T \<inter> A) = card ((S \<inter> A) \<union> (T \<inter> A))"
    using assms(1) by (subst card_Un_disjoint) auto
  also have "\<dots> \<le> card A" using assms(1) by (intro card_mono) auto
  finally show False using assms(2) by simp
qed

lemma majorityOf_meet:
  "mc_ids c \<noteq> {} \<Longrightarrow> majorityOf c S \<Longrightarrow> majorityOf c T \<Longrightarrow> S \<inter> T \<noteq> {}"
  by (rule majorities_meet [of "mc_ids c"]) (auto simp: majorityOf_def)

interpretation majority: voting_scheme majorityOf "\<lambda>c. mc_ids c \<noteq> {}" mc_CommittedIndex mc_VoteResult
  by unfold_locales
    (auto simp: mc_committed mc_won mc_lost majorityOf_UNIV majorityOf_meet intro: majorityOf_mono
      dest: majorityOf_meet)

lemma jc_VoteResult_min: "jc_VoteResult c v = min (mc_VoteResult (fst c) v) (mc_VoteResult (snd c) v)"
  by (cases "mc_VoteResult (fst c) v"; cases "mc_VoteResult (snd c) v")
    (simp_all add: jc_VoteResult_def min_def less_eq_VoteResult_def)

interpretation joint: voting_scheme jointMajorityOf "\<lambda>c. jc_IDs c \<noteq> {}" jc_CommittedIndex jc_VoteResult
proof unfold_locales
  fix c :: JointConfig and S T :: "u64 set" and x l v
  show "jointMajorityOf c S \<Longrightarrow> S \<subseteq> T \<Longrightarrow> jointMajorityOf c T"
    by (auto simp: jointMajorityOf_def intro: majorityOf_mono)
  show "jointMajorityOf c UNIV"
    by (simp add: jointMajorityOf_def majorityOf_UNIV)
  show "S \<inter> T \<noteq> {}" if "jc_IDs c \<noteq> {}" "jointMajorityOf c S" "jointMajorityOf c T"
  proof (cases "mc_ids (fst c) = {}")
    case True
    with that show ?thesis
      using majorityOf_meet [of "snd c" S T] by (simp add: jointMajorityOf_def jc_IDs_def)
  next
    case False
    with that show ?thesis
      using majorityOf_meet [of "fst c" S T] by (simp add: jointMajorityOf_def)
  qed
  have "x \<le> jc_CommittedIndex c l \<longleftrightarrow>
      x \<le> mc_CommittedIndex (fst c) l \<and> x \<le> mc_CommittedIndex (snd c) l"
    by (auto simp: jc_CommittedIndex_def Let_def)
  then show "x \<le> jc_CommittedIndex c l \<longleftrightarrow> x = 0 \<or> jointMajorityOf c (ackedAtLeast l x)"
    by (auto simp: mc_committed jointMajorityOf_def)
  show "jc_VoteResult c v = VoteWon \<longleftrightarrow> jointMajorityOf c (votedYes v)"
    by (auto simp: jc_VoteResult_def Let_def jointMajorityOf_def mc_won [symmetric])
  show "jc_VoteResult c v = VoteLost \<longleftrightarrow> \<not> jointMajorityOf c (notVotedNo v)"
    by (auto simp: jc_VoteResult_def Let_def jointMajorityOf_def mc_lost [symmetric])
qed

section \<open>Properties\<close>

text \<open>
  C16: \<open>MajorityConfig.CommittedIndex\<close> is the largest index that a majority of the
  configuration has acknowledged: it is acknowledged by a majority (or is zero, the index
  every log starts with), and no larger index is.
\<close>

theorem CommittedIndex_is_largest_majority_index:
  assumes "mc_ids c \<noteq> {}"
  shows "(mc_CommittedIndex c l = 0 \<or>
          card (mc_ids c) < 2 * card {i \<in> mc_ids c. \<exists>a. l i = Some a \<and> mc_CommittedIndex c l \<le> a}) \<and>
         (\<forall>x > mc_CommittedIndex c l.
          2 * card {i \<in> mc_ids c. \<exists>a. l i = Some a \<and> x \<le> a} \<le> card (mc_ids c))"
proof -
  have S: "ackedAtLeast l x \<inter> mc_ids c = {i \<in> mc_ids c. \<exists>a. l i = Some a \<and> x \<le> a}" for x
    by (auto simp: ackedAtLeast_def)
  have *: "x \<le> mc_CommittedIndex c l \<longleftrightarrow> x = 0 \<or>
      card (mc_ids c) < 2 * card {i \<in> mc_ids c. \<exists>a. l i = Some a \<and> x \<le> a}" for x
    using assms by (auto simp: mc_committed majorityOf_def S)
  show ?thesis
  proof (intro conjI allI impI)
    show "mc_CommittedIndex c l = 0 \<or>
        card (mc_ids c) < 2 * card {i \<in> mc_ids c. \<exists>a. l i = Some a \<and> mc_CommittedIndex c l \<le> a}"
      using * [of "mc_CommittedIndex c l"] by simp
    show "2 * card {i \<in> mc_ids c. \<exists>a. l i = Some a \<and> x \<le> a} \<le> card (mc_ids c)"
      if "mc_CommittedIndex c l < x" for x
      using * [of x] that by (auto simp: not_less [symmetric])
  qed
qed

theorem CommittedIndex_is_largest_majority_index_witness:
  "mc_CommittedIndex (Some {1, 2, 3}) [1 \<mapsto> 7, 2 \<mapsto> 4] = 4 \<and>
   card {i \<in> {1, 2, 3 :: u64}. \<exists>a. [1 \<mapsto> 7, 2 \<mapsto> (4::u64)] i = Some a \<and> 5 \<le> a} \<le> 1"
proof -
  let ?c = "Some {1, 2, 3 :: u64}" and ?l = "[1 \<mapsto> 7, 2 \<mapsto> (4::u64)] :: u64 \<Rightarrow> u64 option"
  have v: "mc_CommittedIndex ?c ?l = 4"
    by code_simp
  have ids: "mc_ids ?c = {1, 2, 3}" by (simp add: mc_ids_def)
  have "2 * card {i \<in> mc_ids ?c. \<exists>a. ?l i = Some a \<and> 5 \<le> a} \<le> card (mc_ids ?c)"
    by (rule CommittedIndex_is_largest_majority_index
          [of ?c ?l, THEN conjunct2, THEN spec, of 5, THEN mp])
      (simp_all only: ids v, simp_all)
  then have "card {i \<in> {1, 2, 3 :: u64}. \<exists>a. ?l i = Some a \<and> 5 \<le> a} \<le> 1"
    unfolding ids by (simp del: fun_upd_apply)
  with v show ?thesis by simp
qed

text \<open>
  C17: the result of \<open>CommittedIndex\<close> and of \<open>VoteResult\<close> does not depend on the order
  in which Go iterates over the configuration map.
\<close>

theorem quorum_order_irrelevant:
  assumes "distinct ids" "set ids = mc_ids c"
  shows "committedIndexIn ids l = mc_CommittedIndex c l \<and> voteResultIn ids v = mc_VoteResult c v"
proof (cases "ids = []")
  case True
  with assms show ?thesis
    by (simp add: mc_CommittedIndex_def mc_VoteResult_def mc_Slice_def)
next
  case False
  have len: "length ids = card (mc_ids c)" using assms by (metis distinct_card)
  have ne: "mc_ids c \<noteq> {}" using assms False by auto
  have "x \<le> committedIndexIn ids l \<longleftrightarrow> x \<le> mc_CommittedIndex c l" for x
    using assms False ne by (simp add: committedIndexIn_ge mc_committed majorityOf_def len)
  then have "committedIndexIn ids l = mc_CommittedIndex c l" by (meson order.antisym order_refl)
  moreover have "voteResultIn ids v = VoteWon \<longleftrightarrow> mc_VoteResult c v = VoteWon"
    "voteResultIn ids v = VoteLost \<longleftrightarrow> mc_VoteResult c v = VoteLost"
    using assms False ne
    by (simp_all add: voteResultIn_won voteResultIn_lost mc_won mc_lost majorityOf_def len)
  then have "voteResultIn ids v = mc_VoteResult c v" by (metis VoteResult.exhaust)
  ultimately show ?thesis ..
qed

theorem quorum_order_irrelevant_witness:
  "committedIndexIn [3, 1, 2] [2 \<mapsto> 9] = mc_CommittedIndex (Some {1, 2, 3}) [2 \<mapsto> 9] \<and>
   voteResultIn [3, 1, 2] [2 \<mapsto> True] = mc_VoteResult (Some {1, 2, 3}) [2 \<mapsto> True]"
  by (rule quorum_order_irrelevant) (auto simp: mc_ids_def)

text \<open>
  C18: two elections that are both won under the same configuration, joint or not, share a
  voter that voted yes in both. With one vote per voter and term this is what makes two
  leaders of one term impossible.
\<close>

theorem won_elections_share_voter:
  assumes "jc_IDs c \<noteq> {}" "jc_VoteResult c v = VoteWon" "jc_VoteResult c w = VoteWon"
  shows "\<exists>i \<in> jc_IDs c. v i = Some True \<and> w i = Some True"
proof -
  let ?r = "\<lambda>v. v |` jc_IDs c"
  have maj: "majorityOf m (votedYes (v |` jc_IDs c)) \<longleftrightarrow> majorityOf m (votedYes v)"
    if "mc_ids m \<subseteq> jc_IDs c" for m v
  proof -
    have "votedYes (v |` jc_IDs c) \<inter> mc_ids m = votedYes v \<inter> mc_ids m"
      using that by (auto simp: votedYes_def restrict_map_def)
    then show ?thesis by (simp add: majorityOf_def)
  qed
  have "jc_VoteResult c (?r u) = VoteWon" if "jc_VoteResult c u = VoteWon" for u
    using that maj by (auto simp: joint.vote_won jointMajorityOf_def jc_IDs_def)
  with joint.winners_share_voter [of c "?r v" "?r w"] assms obtain i where
    "?r v i = Some True" "?r w i = Some True" by blast
  then show ?thesis by (auto simp: restrict_map_def split: if_splits)
qed

theorem won_elections_share_voter_witness:
  "\<exists>i \<in> jc_IDs (Some {1, 2, 3}, Some {3, 4}).
     [1 \<mapsto> True, 3 \<mapsto> True, 4 \<mapsto> True] i = Some True \<and>
     [2 \<mapsto> True, 3 \<mapsto> True, 4 \<mapsto> True, 1 \<mapsto> False] i = Some True"
  by (rule won_elections_share_voter) code_simp+

text \<open>
  C2: an index that the configuration considers committed was acknowledged by one of the
  voters of every election won under that configuration, so a newly elected leader has
  heard of it from a voter.
\<close>

theorem election_quorum_meets_commit_quorum:
  assumes "jc_IDs c \<noteq> {}" "jc_VoteResult c v = VoteWon" "0 < x" "x \<le> jc_CommittedIndex c l"
  shows "\<exists>i a. v i = Some True \<and> l i = Some a \<and> x \<le> a"
  using assms by (rule joint.winner_saw_committed)

theorem election_quorum_meets_commit_quorum_witness:
  "\<exists>i a. [2 \<mapsto> True, 3 \<mapsto> True] i = Some True \<and>
     [1 \<mapsto> 5, 2 \<mapsto> (5::u64)] (i :: u64) = Some a \<and> 5 \<le> a"
  by (rule election_quorum_meets_commit_quorum [of "(Some {1, 2, 3}, None)"]) code_simp+

text \<open>
  C19: a decided vote stays decided whatever further votes arrive, and a pending one can
  still be won; \<open>VoteLost\<close> is therefore never premature and \<open>VoteWon\<close> never revoked.
\<close>

theorem VoteResult_decided_is_final:
  "(jc_VoteResult c v = VoteWon \<longrightarrow> (\<forall>w. v \<subseteq>\<^sub>m w \<longrightarrow> jc_VoteResult c w = VoteWon)) \<and>
   (jc_VoteResult c v = VoteLost \<longleftrightarrow> (\<forall>w. v \<subseteq>\<^sub>m w \<longrightarrow> jc_VoteResult c w \<noteq> VoteWon))"
proof -
  have "\<exists>w. v \<subseteq>\<^sub>m w \<and> jc_VoteResult c w = VoteWon" if "jc_VoteResult c v \<noteq> VoteLost"
  proof (cases "jc_VoteResult c v")
    case VoteWon
    then show ?thesis by (auto intro: map_le_refl)
  qed (use that joint.pending_open [of c v] in auto)
  with joint.won_stays_won [of c v] joint.lost_stays_lost [of c v] show ?thesis by fastforce
qed

theorem VoteResult_decided_is_final_witness:
  "jc_VoteResult (Some {1, 2, 3}, None) [1 \<mapsto> False, 2 \<mapsto> False] = VoteLost \<and>
   jc_VoteResult (Some {1, 2, 3}, None) [1 \<mapsto> False, 2 \<mapsto> False, 3 \<mapsto> True] \<noteq> VoteWon"
proof -
  let ?c = "(Some {1, 2, 3 :: u64}, None :: MajorityConfig)" 
    and ?v = "[1 \<mapsto> False, 2 \<mapsto> False] :: u64 \<Rightarrow> bool option"
  have "jc_VoteResult ?c ?v = VoteLost"
    by code_simp
  moreover have "?v \<subseteq>\<^sub>m [1 \<mapsto> False, 2 \<mapsto> False, 3 \<mapsto> True]" by (auto simp: map_le_def)
  ultimately show ?thesis using VoteResult_decided_is_final [of ?c ?v] by blast
qed

text \<open>
  C20: the two questions agree: an index is committed exactly when the vote in which each
  voter says whether it has acknowledged that index is won. The code relies on this when it
  reuses \<open>CommittedIndex\<close> to confirm reads.
\<close>

theorem CommittedIndex_iff_vote_won:
  assumes "0 < x"
  shows "x \<le> jc_CommittedIndex c l \<longleftrightarrow>
     jc_VoteResult c (\<lambda>i. map_option (\<lambda>a. x \<le> a) (l i)) = VoteWon"
  using assms by (rule joint.committed_as_vote)

theorem CommittedIndex_iff_vote_won_witness:
  "3 \<le> jc_CommittedIndex (Some {1, 2}, Some {2, 3}) [1 \<mapsto> 3, 2 \<mapsto> 4, 3 \<mapsto> 5] \<longleftrightarrow>
     jc_VoteResult (Some {1, 2}, Some {2, 3})
       (\<lambda>i. map_option (\<lambda>a. 3 \<le> a) ([1 \<mapsto> 3, 2 \<mapsto> 4, 3 \<mapsto> (5::u64)] i)) = VoteWon"
  by (rule CommittedIndex_iff_vote_won) simp

end
