(* ===== verification/Inflights.thy ===== *)
theory Inflights
  imports Prelude
begin

text \<open>
  \<open>tracker/inflights.go\<close>: the sliding window of unacknowledged appends, a ring buffer
  that grows on demand up to \<open>size\<close> slots. The record has the fields of the struct; an
  access outside the allocated buffer is a panic. The specification is a list of the
  messages in flight, oldest first, with the byte count as a wrapping sum.
\<close>

section \<open>The ring buffer\<close>

datatype inflight = Inflight (if_index: u64) (if_bytes: u64)

record Inflights =
  in_start :: nat
  in_count :: nat
  in_bytes :: u64
  in_size :: nat
  in_maxBytes :: u64
  in_buffer :: "inflight list"

definition NewInflights :: "nat \<Rightarrow> u64 \<Rightarrow> Inflights" where
  "NewInflights sz maxBytes = \<lparr>in_start = 0, in_count = 0, in_bytes = 0,
     in_size = sz, in_maxBytes = maxBytes, in_buffer = []\<rparr>"

definition in_Full :: "Inflights \<Rightarrow> bool" where
  "in_Full ins \<longleftrightarrow> in_count ins = in_size ins \<or>
     in_maxBytes ins \<noteq> 0 \<and> in_bytes ins \<ge> in_maxBytes ins"

definition in_grow :: "Inflights \<Rightarrow> Inflights" where
  "in_grow ins =
     (let newSize0 = length (in_buffer ins) * 2;
          newSize = (if newSize0 = 0 then 1 else if newSize0 > in_size ins then in_size ins
                     else newSize0)
      in ins\<lparr>in_buffer := take newSize (in_buffer ins) @
           replicate (newSize - length (in_buffer ins)) (Inflight 0 0)\<rparr>)"

definition in_Add :: "u64 \<Rightarrow> u64 \<Rightarrow> Inflights \<Rightarrow> Inflights option" where
  "in_Add index bytes ins = do {
     panicIf (in_Full ins);
     let next0 = in_start ins + in_count ins;
     let sz = in_size ins;
     let next = (if next0 \<ge> sz then next0 - sz else next0);
     let ins1 = (if next \<ge> length (in_buffer ins) then in_grow ins else ins);
     buf \<leftarrow> go_store (in_buffer ins1) next (Inflight index bytes);
     Some (ins1\<lparr>in_buffer := buf, in_count := in_count ins + 1, in_bytes := in_bytes ins + bytes\<rparr>)
   }"

text \<open>
  The loop of \<open>FreeLE\<close>, with \<open>n\<close> iterations left: \<open>(i, idx, bytes)\<close>, the number of
  freed messages, the position after them and their bytes.
\<close>

fun in_freeLoop :: "Inflights \<Rightarrow> u64 \<Rightarrow> nat \<Rightarrow> nat \<times> nat \<times> u64 \<Rightarrow> (nat \<times> nat \<times> u64) option" where
  "in_freeLoop ins to 0 (i, idx, bytes) = Some (i, idx, bytes)"
| "in_freeLoop ins to (Suc n) (i, idx, bytes) = do {
     b \<leftarrow> go_index (in_buffer ins) idx;
     if to < if_index b then Some (i, idx, bytes)
     else in_freeLoop ins to n
       (i + 1, if idx + 1 \<ge> in_size ins then idx + 1 - in_size ins else idx + 1,
        bytes + if_bytes b)
   }"

definition in_FreeLE :: "u64 \<Rightarrow> Inflights \<Rightarrow> Inflights option" where
  "in_FreeLE to ins =
     (if in_count ins = 0 then Some ins
      else do {
        b \<leftarrow> go_index (in_buffer ins) (in_start ins);
        if to < if_index b then Some ins
        else do {
          (i, idx, bytes) \<leftarrow> in_freeLoop ins to (in_count ins) (0, in_start ins, 0);
          let count = in_count ins - i;
          Some (ins\<lparr>in_count := count, in_bytes := in_bytes ins - bytes,
                    in_start := if count = 0 then 0 else idx\<rparr>)
        }
      })"

definition in_Count :: "Inflights \<Rightarrow> nat" where
  "in_Count ins = in_count ins"

definition in_reset :: "Inflights \<Rightarrow> Inflights" where
  "in_reset ins = ins\<lparr>in_start := 0, in_count := 0, in_bytes := 0\<rparr>"

definition in_Clone :: "Inflights \<Rightarrow> Inflights" where
  "in_Clone ins = ins\<lparr>in_buffer := in_buffer ins\<rparr>"

section \<open>Specification\<close>

definition ringPos :: "Inflights \<Rightarrow> nat \<Rightarrow> nat" where
  "ringPos ins k = (if in_start ins + k \<ge> in_size ins then in_start ins + k - in_size ins
                    else in_start ins + k)"

definition in_list :: "Inflights \<Rightarrow> inflight list" where
  "in_list ins = map (\<lambda>k. in_buffer ins ! ringPos ins k) [0..<in_count ins]"

definition in_inv :: "Inflights \<Rightarrow> bool" where
  "in_inv ins \<longleftrightarrow>
     0 < in_size ins \<and> in_count ins \<le> in_size ins \<and> in_start ins < in_size ins \<and>
     length (in_buffer ins) \<le> in_size ins \<and>
     (in_start ins + in_count ins \<le> length (in_buffer ins) \<or>
      length (in_buffer ins) = in_size ins) \<and>
     in_bytes ins = sum_list (map if_bytes (in_list ins))"

text \<open>Sequences of calls, on the ring buffer and on the list it stands for.\<close>

datatype window_call = CallAdd u64 u64 | CallFreeLE u64 | CallReset

fun runRing :: "window_call list \<Rightarrow> Inflights \<Rightarrow> Inflights option" where
  "runRing [] ins = Some ins"
| "runRing (CallAdd i b # cs) ins = Option.bind (in_Add i b ins) (runRing cs)"
| "runRing (CallFreeLE t # cs) ins = Option.bind (in_FreeLE t ins) (runRing cs)"
| "runRing (CallReset # cs) ins = runRing cs (in_reset ins)"

definition windowFull :: "nat \<Rightarrow> u64 \<Rightarrow> inflight list \<Rightarrow> bool" where
  "windowFull sz maxBytes xs \<longleftrightarrow>
     length xs = sz \<or> maxBytes \<noteq> 0 \<and> sum_list (map if_bytes xs) \<ge> maxBytes"

fun runWindow :: "nat \<Rightarrow> u64 \<Rightarrow> window_call list \<Rightarrow> inflight list \<Rightarrow> inflight list option" where
  "runWindow sz mb [] xs = Some xs"
| "runWindow sz mb (CallAdd i b # cs) xs =
     (if windowFull sz mb xs then None else runWindow sz mb cs (xs @ [Inflight i b]))"
| "runWindow sz mb (CallFreeLE t # cs) xs =
     runWindow sz mb cs (dropWhile (\<lambda>x. if_index x \<le> t) xs)"
| "runWindow sz mb (CallReset # cs) xs = runWindow sz mb cs []"

text \<open>
  The contract the progress tracker relies on: a bounded queue of \<open>(index, bytes)\<close> pairs
  that drops the acknowledged prefix.
\<close>

locale append_window =
  fixes new :: "nat \<Rightarrow> u64 \<Rightarrow> 'w"
    and add :: "u64 \<Rightarrow> u64 \<Rightarrow> 'w \<Rightarrow> 'w option"
    and free :: "u64 \<Rightarrow> 'w \<Rightarrow> 'w option"
    and reset :: "'w \<Rightarrow> 'w"
    and full :: "'w \<Rightarrow> bool"
    and contents :: "'w \<Rightarrow> inflight list"
    and capacity :: "'w \<Rightarrow> nat"
    and invar :: "'w \<Rightarrow> bool"
  assumes new_invar: "0 < n \<Longrightarrow> invar (new n b) \<and> contents (new n b) = [] \<and> capacity (new n b) = n"
    and add_contents: "invar w \<Longrightarrow> \<not> full w \<Longrightarrow> \<exists>w'. add i b w = Some w' \<and> invar w' \<and>
       contents w' = contents w @ [Inflight i b] \<and> capacity w' = capacity w"
    and add_full: "full w \<Longrightarrow> add i b w = None"
    and free_contents: "invar w \<Longrightarrow> \<exists>w'. free t w = Some w' \<and> invar w' \<and>
       contents w' = dropWhile (\<lambda>x. if_index x \<le> t) (contents w) \<and> capacity w' = capacity w"
    and reset_contents: "invar w \<Longrightarrow> invar (reset w) \<and> contents (reset w) = [] \<and>
       capacity (reset w) = capacity w"
    and contents_bound: "invar w \<Longrightarrow> length (contents w) \<le> capacity w"
    and full_at_capacity: "invar w \<Longrightarrow> length (contents w) = capacity w \<Longrightarrow> full w"
begin

text \<open>Indexes are added in increasing order; freeing keeps exactly the later ones.\<close>

lemma free_sorted:
  assumes "invar w" "sorted (map if_index (contents w))"
  shows "\<exists>w'. free t w = Some w' \<and> contents w' = filter (\<lambda>x. t < if_index x) (contents w)"
proof -
  have "sorted (map if_index xs) \<Longrightarrow>
      dropWhile (\<lambda>x. if_index x \<le> t) xs = filter (\<lambda>x. t < if_index x) xs" for xs
  proof (induction xs)
    case (Cons x xs)
    show ?case
    proof (cases "if_index x \<le> t")
      case True
      with Cons show ?thesis by simp
    next
      case False
      with Cons.prems have "\<forall>y \<in> set (x # xs). t < if_index y" by auto
      with False show ?thesis by (simp only: filter_True dropWhile.simps if_False)
    qed
  qed simp
  with free_contents [OF assms(1), of t] assms(2) show ?thesis by auto
qed

end

section \<open>The ring buffer is such a window\<close>

lemma length_in_list [simp]: "length (in_list ins) = in_count ins"
  by (simp add: in_list_def)

lemma ringPos_cong: "in_start a = in_start b \<Longrightarrow> in_size a = in_size b \<Longrightarrow> ringPos a = ringPos b"
  by (simp add: fun_eq_iff ringPos_def)

lemma ringPos_update [simp]:
  "ringPos (ins\<lparr>in_buffer := buf\<rparr>) = ringPos ins" "ringPos (ins\<lparr>in_count := c\<rparr>) = ringPos ins"
  "ringPos (ins\<lparr>in_bytes := b\<rparr>) = ringPos ins"
  by (simp_all add: fun_eq_iff ringPos_def)

lemma in_list_cong:
  assumes "in_count a = in_count b" "in_start a = in_start b" "in_size a = in_size b"
    and "\<And>k. k < in_count b \<Longrightarrow> in_buffer a ! ringPos b k = in_buffer b ! ringPos b k"
  shows "in_list a = in_list b"
  using assms(1,4) ringPos_cong [OF assms(2,3)] by (simp add: in_list_def)

lemma ringPos_less:
  assumes "in_inv ins" "k < in_count ins"
  shows "ringPos ins k < length (in_buffer ins)"
  using assms by (auto simp: in_inv_def ringPos_def)

lemma length_in_grow:
  assumes "length (in_buffer ins) < in_size ins"
  shows "length (in_buffer (in_grow ins)) = (if in_buffer ins = [] then 1
           else min (in_size ins) (2 * length (in_buffer ins)))"
    and "\<And>k. k < length (in_buffer ins) \<Longrightarrow> in_buffer (in_grow ins) ! k = in_buffer ins ! k"
  using assms by (auto simp: in_grow_def Let_def nth_append min_def)

lemma in_grow_frame [simp]:
  "in_start (in_grow ins) = in_start ins" "in_count (in_grow ins) = in_count ins"
  "in_size (in_grow ins) = in_size ins" "in_bytes (in_grow ins) = in_bytes ins"
  "in_maxBytes (in_grow ins) = in_maxBytes ins"
  by (simp_all add: in_grow_def Let_def)

lemma in_grow_inv:
  assumes "in_inv ins" "length (in_buffer ins) < in_size ins"
  shows "in_inv (in_grow ins)" "in_list (in_grow ins) = in_list ins"
    "length (in_buffer ins) < length (in_buffer (in_grow ins))"
proof -
  have pos: "ringPos ins k < length (in_buffer ins)" if "k < in_count ins" for k
    using ringPos_less [OF assms(1) that] .
  show l: "in_list (in_grow ins) = in_list ins"
    by (rule in_list_cong) (simp_all add: length_in_grow(2) [OF assms(2)] pos)
  show len: "length (in_buffer ins) < length (in_buffer (in_grow ins))"
    using assms(2) by (auto simp: length_in_grow(1) [OF assms(2)])
  have "length (in_buffer (in_grow ins)) \<le> in_size ins"
    using assms by (auto simp: length_in_grow(1) [OF assms(2)] in_inv_def)
  then show "in_inv (in_grow ins)"
    using assms len by (auto simp: in_inv_def l)
qed

lemma ringPos_inj:
  assumes "in_start ins < in_size ins" "j < in_size ins" "k < in_size ins" "j \<noteq> k"
  shows "ringPos ins j \<noteq> ringPos ins k"
  using assms by (auto simp: ringPos_def)

lemma in_list_store:
  assumes "in_inv ins" "in_count ins < in_size ins"
    and "ringPos ins (in_count ins) < length (in_buffer ins)"
  shows "in_list (ins\<lparr>in_buffer := (in_buffer ins)[ringPos ins (in_count ins) := x],
           in_count := in_count ins + 1, in_bytes := b\<rparr>) = in_list ins @ [x]"
proof -
  let ?p = "ringPos ins (in_count ins)"
  have "in_buffer ins ! ringPos ins k = (in_buffer ins)[?p := x] ! ringPos ins k"
    if "k < in_count ins" for k
    using that assms ringPos_inj [of ins k "in_count ins"] by (auto simp: in_inv_def)
  with assms(3) show ?thesis by (simp add: in_list_def)
qed

lemma in_Add_spec:
  assumes inv: "in_inv ins" and nf: "\<not> in_Full ins"
  shows "\<exists>ins'. in_Add index bytes ins = Some ins' \<and> in_inv ins' \<and>
     in_list ins' = in_list ins @ [Inflight index bytes] \<and> in_size ins' = in_size ins \<and>
     in_maxBytes ins' = in_maxBytes ins"
proof -
  let ?p = "ringPos ins (in_count ins)"
  define ins1 where "ins1 = (if ?p \<ge> length (in_buffer ins) then in_grow ins else ins)"
  have cnt: "in_count ins < in_size ins"
    using inv nf by (auto simp: in_inv_def in_Full_def)
  have short: "length (in_buffer ins) < in_size ins" if "?p \<ge> length (in_buffer ins)"
    using that inv cnt by (auto simp: in_inv_def ringPos_def split: if_splits)
  have eqs: "in_start ins1 = in_start ins" "in_count ins1 = in_count ins"
    "in_size ins1 = in_size ins" "in_bytes ins1 = in_bytes ins"
    "in_maxBytes ins1 = in_maxBytes ins"
    by (simp_all add: ins1_def)
  have inv1: "in_inv ins1" "in_list ins1 = in_list ins"
    using inv short by (auto simp: ins1_def in_grow_inv)
  have p: "?p < length (in_buffer ins1)"
    using inv short in_grow_inv(3) [OF inv]
    by (auto simp: ins1_def ringPos_def in_inv_def split: if_splits)
  have rp: "ringPos ins1 (in_count ins1) = ?p" by (simp add: ringPos_def eqs)
  let ?r = "ins1\<lparr>in_buffer := (in_buffer ins1)[?p := Inflight index bytes],
     in_count := in_count ins1 + 1, in_bytes := in_bytes ins1 + bytes\<rparr>"
  have add: "in_Add index bytes ins = Some ?r"
    using nf p by (simp add: in_Add_def Let_def ins1_def [unfolded ringPos_def, symmetric]
        ringPos_def eqs go_store_def)
  have list: "in_list ?r = in_list ins @ [Inflight index bytes]"
    using in_list_store [where ins = ins1] inv1 p rp cnt eqs
    by simp
  have "in_inv ?r"
    using inv1 p cnt list by (auto simp: in_inv_def eqs ringPos_def split: if_splits)
  with add list show ?thesis by (simp add: eqs)
qed

lemma in_freeLoop_spec:
  assumes inv: "in_inv ins" and i: "i \<le> in_count ins"
  shows "let m = length (takeWhile (\<lambda>x. if_index x \<le> to) (drop i (in_list ins))) in
     in_freeLoop ins to (in_count ins - i) (i, ringPos ins i, b) =
       Some (i + m, ringPos ins (i + m), b + sum_list (map if_bytes (take m (drop i (in_list ins)))))"
  using i
proof (induction "in_count ins - i" arbitrary: i b)
  case 0
  then show ?case by simp
next
  case (Suc n)
  then have lt: "i < in_count ins" by simp
  let ?x = "in_buffer ins ! ringPos ins i"
  have d: "drop i (in_list ins) = ?x # drop (Suc i) (in_list ins)"
    using lt by (simp add: Cons_nth_drop_Suc [symmetric]) (simp add: in_list_def)
  have next_pos: "(if ringPos ins i + 1 \<ge> in_size ins then ringPos ins i + 1 - in_size ins
      else ringPos ins i + 1) = ringPos ins (Suc i)"
    using inv lt by (auto simp: ringPos_def in_inv_def)
  have n: "in_count ins - i = Suc (in_count ins - Suc i)" using lt by simp
  show ?case
  proof (cases "to < if_index ?x")
    case True
    then show ?thesis
      using ringPos_less [OF inv lt] by (simp add: n d go_index_def Let_def not_le)
  next
    case False
    have "in_freeLoop ins to (in_count ins - i) (i, ringPos ins i, b) =
        in_freeLoop ins to (in_count ins - Suc i) (Suc i, ringPos ins (Suc i), b + if_bytes ?x)"
      using False ringPos_less [OF inv lt] next_pos by (simp add: n go_index_def)
    also have "\<dots> = (let m = length (takeWhile (\<lambda>x. if_index x \<le> to) (drop (Suc i) (in_list ins))) in
       Some (Suc i + m, ringPos ins (Suc i + m),
         b + if_bytes ?x + sum_list (map if_bytes (take m (drop (Suc i) (in_list ins))))))"
      using Suc.hyps(1) [of "Suc i" "b + if_bytes ?x"] Suc.hyps(2) lt by (simp add: Let_def)
    finally show ?thesis
      using False by (simp add: d Let_def not_less add.assoc)
  qed
qed

lemma takeWhile_length_drop: "drop (length (takeWhile P xs)) xs = dropWhile P xs"
  by (simp add: dropWhile_eq_drop)

lemma in_FreeLE_spec:
  assumes inv: "in_inv ins"
  shows "\<exists>ins'. in_FreeLE to ins = Some ins' \<and> in_inv ins' \<and>
     in_list ins' = dropWhile (\<lambda>x. if_index x \<le> to) (in_list ins) \<and> in_size ins' = in_size ins \<and>
     in_maxBytes ins' = in_maxBytes ins"
proof (cases "in_count ins = 0")
  case True
  then show ?thesis using inv by (simp add: in_FreeLE_def in_list_def)
next
  case False
  define m where "m = length (takeWhile (\<lambda>x. if_index x \<le> to) (in_list ins))"
  let ?x = "in_buffer ins ! in_start ins"
  have p0: "ringPos ins 0 = in_start ins" using inv by (simp add: ringPos_def in_inv_def)
  have lt: "in_start ins < length (in_buffer ins)"
    using ringPos_less [OF inv, of 0] False p0 by simp
  have hd: "in_list ins = ?x # tl (in_list ins)"
    using False by (simp add: in_list_def upt_conv_Cons p0)
  have mle: "m \<le> in_count ins"
    using length_takeWhile_le [of _ "in_list ins"] by (simp add: m_def)
  have loop: "in_freeLoop ins to (in_count ins) (0, in_start ins, 0) =
      Some (m, ringPos ins m, sum_list (map if_bytes (take m (in_list ins))))"
    using in_freeLoop_spec [OF inv, of 0 to 0] by (simp add: p0 m_def Let_def)
  show ?thesis
  proof (cases "to < if_index ?x")
    case True
    then have "dropWhile (\<lambda>x. if_index x \<le> to) (in_list ins) = in_list ins"
      by (subst (1 2) hd) (simp add: not_le)
    with True False lt inv show ?thesis by (simp add: in_FreeLE_def go_index_def)
  next
    case ge: False
    let ?r = "ins\<lparr>in_count := in_count ins - m,
      in_bytes := in_bytes ins - sum_list (map if_bytes (take m (in_list ins))),
      in_start := if in_count ins - m = 0 then 0 else ringPos ins m\<rparr>"
    have run: "in_FreeLE to ins = Some ?r"
      using False ge lt loop by (simp add: in_FreeLE_def go_index_def Let_def)
    have rp: "ringPos ?r k = ringPos ins (m + k)" if "k < in_count ins - m" for k
      using that inv by (auto simp: ringPos_def in_inv_def)
    have list: "in_list ?r = drop m (in_list ins)"
      using rp by (auto simp: in_list_def list_eq_iff_nth_eq)
    have "sum_list (map if_bytes (in_list ins)) =
        sum_list (map if_bytes (take m (in_list ins))) + sum_list (map if_bytes (drop m (in_list ins)))"
      by (metis append_take_drop_id map_append sum_list_append)
    then have "in_bytes ?r = sum_list (map if_bytes (in_list ?r))"
      unfolding list using inv by (simp add: in_inv_def)
    then have "in_inv ?r"
      using inv mle by (auto simp: in_inv_def ringPos_def)
    with run list show ?thesis by (simp add: m_def takeWhile_length_drop)
  qed
qed

interpretation inflights: append_window NewInflights in_Add in_FreeLE in_reset in_Full in_list in_size in_inv
proof unfold_locales
  fix w :: Inflights and n i b t
  show "0 < n \<Longrightarrow> in_inv (NewInflights n b) \<and> in_list (NewInflights n b) = [] \<and>
      in_size (NewInflights n b) = n"
    by (simp add: in_inv_def NewInflights_def in_list_def)
  show "in_Full w \<Longrightarrow> in_Add i b w = None"
    by (simp add: in_Add_def)
  show "in_inv w \<Longrightarrow> in_inv (in_reset w) \<and> in_list (in_reset w) = [] \<and>
      in_size (in_reset w) = in_size w"
    by (auto simp: in_inv_def in_reset_def in_list_def)
  show "in_inv w \<Longrightarrow> length (in_list w) \<le> in_size w"
    by (simp add: in_inv_def)
  show "in_inv w \<Longrightarrow> length (in_list w) = in_size w \<Longrightarrow> in_Full w"
    by (simp add: in_Full_def)
qed (use in_Add_spec in_FreeLE_spec in blast)+

lemma in_Full_window:
  "in_inv ins \<Longrightarrow> in_Full ins \<longleftrightarrow> windowFull (in_size ins) (in_maxBytes ins) (in_list ins)"
  by (simp add: in_Full_def windowFull_def in_inv_def)

lemma in_reset_maxBytes [simp]: "in_maxBytes (in_reset ins) = in_maxBytes ins"
  by (simp add: in_reset_def)

lemma runRing_refines:
  "in_inv ins \<Longrightarrow>
   map_option in_list (runRing cs ins) = runWindow (in_size ins) (in_maxBytes ins) cs (in_list ins)"
proof (induction cs ins rule: runRing.induct)
  case (2 i b cs ins)
  show ?case
  proof (cases "in_Full ins")
    case True
    with 2(2) show ?thesis by (simp add: inflights.add_full in_Full_window)
  next
    case False
    with 2(2) in_Add_spec [of ins i b] obtain ins' where
      ins': "in_Add i b ins = Some ins'" "in_inv ins'" "in_list ins' = in_list ins @ [Inflight i b]"
      "in_size ins' = in_size ins" "in_maxBytes ins' = in_maxBytes ins" by blast
    with False 2(2) 2(1) [of ins'] show ?thesis by (simp add: in_Full_window)
  qed
next
  case (3 t cs ins)
  from in_FreeLE_spec [OF 3(2), of t] obtain ins' where
    ins': "in_FreeLE t ins = Some ins'" "in_inv ins'"
    "in_list ins' = dropWhile (\<lambda>x. if_index x \<le> t) (in_list ins)"
    "in_size ins' = in_size ins" "in_maxBytes ins' = in_maxBytes ins" by blast
  with 3(1) [of ins'] show ?case by simp
next
  case (4 cs ins)
  then show ?case using inflights.reset_contents [of ins] by simp
qed simp

text \<open>
  C26: the ring buffer of \<open>Inflights\<close> behaves as a bounded first-in first-out window. Every
  sequence of \<open>Add\<close>, \<open>FreeLE\<close> and \<open>reset\<close> calls leaves in it the messages the list
  specification keeps; growing, wrapping around and resetting the start never lose or reorder
  a message or read outside the buffer, and the only panic is an \<open>Add\<close> on a full window.
\<close>

theorem Inflights_refines_window:
  assumes "0 < sz"
  shows "map_option in_list (runRing cs (NewInflights sz mb)) = runWindow sz mb cs []"
proof -
  from assms have "in_inv (NewInflights sz mb)" "in_list (NewInflights sz mb) = []"
    by (simp_all add: inflights.new_invar)
  with runRing_refines [of "NewInflights sz mb" cs] show ?thesis
    by (simp add: NewInflights_def)
qed

theorem Inflights_refines_window_witness:
  "map_option in_list (runRing
     [CallAdd 1 10, CallAdd 2 10, CallFreeLE 1, CallAdd 3 5, CallAdd 4 5] (NewInflights 3 0)) =
   Some [Inflight 2 10, Inflight 3 5, Inflight 4 5]"
  using Inflights_refines_window [of 3
    "[CallAdd 1 10, CallAdd 2 10, CallFreeLE 1, CallAdd 3 5, CallAdd 4 5]" 0]
  by (simp add: windowFull_def)

text \<open>
  C27: when messages were added in increasing index order, as the leader does, \<open>FreeLE\<close>
  releases exactly the messages up to the acknowledged index, never panics, and leaves the
  byte counter equal to the total size of the messages that remain in flight.
\<close>

theorem FreeLE_releases_acknowledged:
  assumes "in_inv ins" "sorted (map if_index (in_list ins))"
  shows "\<exists>ins'. in_FreeLE to ins = Some ins' \<and> in_inv ins' \<and>
     in_list ins' = filter (\<lambda>x. to < if_index x) (in_list ins) \<and>
     in_bytes ins' = sum_list (map if_bytes (filter (\<lambda>x. to < if_index x) (in_list ins)))"
proof -
  from inflights.free_sorted [OF assms] obtain ins' where
    ins': "in_FreeLE to ins = Some ins'" "in_list ins' = filter (\<lambda>x. to < if_index x) (in_list ins)"
    by blast
  moreover from inflights.free_contents [OF assms(1), of to] ins' have "in_inv ins'" by simp
  ultimately show ?thesis by (simp add: in_inv_def)
qed

theorem FreeLE_releases_acknowledged_witness:
  "\<exists>ins'. in_FreeLE 2 \<lparr>in_start = 2, in_count = 2, in_bytes = 9, in_size = 3, in_maxBytes = 0,
       in_buffer = [Inflight 3 4, Inflight 0 0, Inflight 2 5]\<rparr> = Some ins' \<and> in_inv ins' \<and>
     in_list ins' = [Inflight 3 4]"
proof -
  let ?i = "\<lparr>in_start = 2, in_count = 2, in_bytes = 9, in_size = 3, in_maxBytes = 0,
       in_buffer = [Inflight 3 4, Inflight 0 0, Inflight 2 5]\<rparr>"
  have l: "in_list ?i = [Inflight 2 5, Inflight 3 4]" by code_simp
  have "in_inv ?i" unfolding in_inv_def l by simp
  from FreeLE_releases_acknowledged [OF this, of 2] show ?thesis unfolding l by simp blast
qed

end
