(* ===== verification/Progress.thy ===== *)
theory Progress
  imports Inflights
begin

text \<open>
  \<open>tracker/progress.go\<close> and \<open>tracker/state.go\<close>: what the leader knows about one
  follower and the probe / replicate / snapshot state machine on it. One definition per
  method; a method that may panic returns an \<open>option\<close>. The inductive relation
  \<open>progress_step\<close> collects the methods with the conditions under which \<open>raft.go\<close>
  calls them, and the invariant of the struct comment is proved along it.
\<close>

section \<open>The struct and its methods\<close>

datatype StateType = StateProbe | StateReplicate | StateSnapshot

record Progress =
  pr_Match :: u64
  pr_Next :: u64
  pr_sentCommit :: u64
  pr_State :: StateType
  pr_PendingSnapshot :: u64
  pr_RecentActive :: bool
  pr_MsgAppFlowPaused :: bool
  pr_Inflights :: Inflights
  pr_IsLearner :: bool

definition ResetState :: "StateType \<Rightarrow> Progress \<Rightarrow> Progress" where
  "ResetState state pr = pr\<lparr>pr_MsgAppFlowPaused := False, pr_PendingSnapshot := 0,
     pr_State := state, pr_Inflights := in_reset (pr_Inflights pr)\<rparr>"

definition BecomeProbe :: "Progress \<Rightarrow> Progress" where
  "BecomeProbe pr =
     (let pr1 =
        (if pr_State pr = StateSnapshot then
           let pendingSnapshot = pr_PendingSnapshot pr;
               pr0 = ResetState StateProbe pr
           in pr0\<lparr>pr_Next := max (pr_Match pr0 + 1) (pendingSnapshot + 1)\<rparr>
         else
           let pr0 = ResetState StateProbe pr
           in pr0\<lparr>pr_Next := pr_Match pr0 + 1\<rparr>)
      in pr1\<lparr>pr_sentCommit := min (pr_sentCommit pr1) (pr_Next pr1 - 1)\<rparr>)"

definition BecomeReplicate :: "Progress \<Rightarrow> Progress" where
  "BecomeReplicate pr =
     (let pr0 = ResetState StateReplicate pr in pr0\<lparr>pr_Next := pr_Match pr0 + 1\<rparr>)"

definition BecomeSnapshot :: "u64 \<Rightarrow> Progress \<Rightarrow> Progress" where
  "BecomeSnapshot snapshoti pr = (ResetState StateSnapshot pr)
     \<lparr>pr_PendingSnapshot := snapshoti, pr_Next := snapshoti + 1, pr_sentCommit := snapshoti\<rparr>"

definition SentEntries :: "nat \<Rightarrow> u64 \<Rightarrow> Progress \<Rightarrow> Progress option" where
  "SentEntries entries bytes pr =
     (case pr_State pr of
        StateReplicate \<Rightarrow> do {
          pr1 \<leftarrow> (if entries > 0 then do {
                    let next = pr_Next pr + of_nat entries;
                    ins \<leftarrow> in_Add (next - 1) bytes (pr_Inflights pr);
                    Some (pr\<lparr>pr_Next := next, pr_Inflights := ins\<rparr>)
                  } else Some pr);
          Some (pr1\<lparr>pr_MsgAppFlowPaused := in_Full (pr_Inflights pr1)\<rparr>)
        }
      | StateProbe \<Rightarrow>
          Some (if entries > 0 then pr\<lparr>pr_MsgAppFlowPaused := True\<rparr> else pr)
      | StateSnapshot \<Rightarrow> None)"

definition CanBumpCommit :: "u64 \<Rightarrow> Progress \<Rightarrow> bool" where
  "CanBumpCommit index pr \<longleftrightarrow> index > pr_sentCommit pr \<and> pr_sentCommit pr < pr_Next pr - 1"

definition SentCommit :: "u64 \<Rightarrow> Progress \<Rightarrow> Progress" where
  "SentCommit commit pr = pr\<lparr>pr_sentCommit := commit\<rparr>"

definition MaybeUpdate :: "u64 \<Rightarrow> Progress \<Rightarrow> bool \<times> Progress" where
  "MaybeUpdate n pr =
     (if n \<le> pr_Match pr then (False, pr)
      else (True, pr\<lparr>pr_Match := n, pr_Next := max (pr_Next pr) (n + 1),
                     pr_MsgAppFlowPaused := False\<rparr>))"

definition MaybeDecrTo :: "u64 \<Rightarrow> u64 \<Rightarrow> Progress \<Rightarrow> bool \<times> Progress" where
  "MaybeDecrTo rejected matchHint pr =
     (if pr_State pr = StateReplicate then
        if rejected \<le> pr_Match pr then (False, pr)
        else let next = pr_Match pr + 1 in
          (True, pr\<lparr>pr_Next := next, pr_sentCommit := min (pr_sentCommit pr) (next - 1)\<rparr>)
      else if pr_Next pr - 1 \<noteq> rejected then (False, pr)
      else let next = max (min rejected (matchHint + 1)) (pr_Match pr + 1) in
        (True, pr\<lparr>pr_Next := next, pr_sentCommit := min (pr_sentCommit pr) (next - 1),
                  pr_MsgAppFlowPaused := False\<rparr>))"

definition IsPaused :: "Progress \<Rightarrow> bool" where
  "IsPaused pr =
     (case pr_State pr of
        StateProbe \<Rightarrow> pr_MsgAppFlowPaused pr
      | StateReplicate \<Rightarrow> pr_MsgAppFlowPaused pr
      | StateSnapshot \<Rightarrow> True)"

section \<open>The state machine\<close>

text \<open>
  A window that is empty outside \<open>StateReplicate\<close> and ordered and below \<open>Next\<close> inside it.
  \<open>pr_inv\<close> is the documented invariant \<open>Match < Next\<close> together with a sound window.
\<close>

definition windowOrdered :: "Progress \<Rightarrow> bool" where
  "windowOrdered pr \<longleftrightarrow>
     sorted (map if_index (in_list (pr_Inflights pr))) \<and>
     (\<forall>x \<in> set (in_list (pr_Inflights pr)). if_index x < pr_Next pr) \<and>
     (pr_State pr \<noteq> StateReplicate \<longrightarrow> in_list (pr_Inflights pr) = [])"

definition pr_inv :: "Progress \<Rightarrow> bool" where
  "pr_inv pr \<longleftrightarrow> pr_Match pr < pr_Next pr \<and> in_inv (pr_Inflights pr) \<and> windowOrdered pr"

definition newProgress :: "u64 \<Rightarrow> nat \<Rightarrow> u64 \<Rightarrow> bool \<Rightarrow> Progress" where
  "newProgress next maxInflight maxBytes isLearner =
     \<lparr>pr_Match = 0, pr_Next = next, pr_sentCommit = 0, pr_State = StateProbe,
      pr_PendingSnapshot = 0, pr_RecentActive = True, pr_MsgAppFlowPaused = False,
      pr_Inflights = NewInflights maxInflight maxBytes, pr_IsLearner = isLearner\<rparr>"

text \<open>
  The transitions \<open>raft.go\<close> makes: an acknowledgement (with the release of the window),
  a rejection (which leaves \<open>StateReplicate\<close>), a sent append, a sent snapshot, the
  commit index sent along, and the changes of state on heartbeat and snapshot reports.
\<close>

inductive progress_step :: "Progress \<Rightarrow> Progress \<Rightarrow> bool" where
  ack: "n \<noteq> maxU64 \<Longrightarrow> MaybeUpdate n pr = (b, pr1) \<Longrightarrow>
    in_FreeLE n (pr_Inflights pr1) = Some ins \<Longrightarrow>
    progress_step pr (pr1\<lparr>pr_Inflights := ins\<rparr>)"
| reject: "MaybeDecrTo rejected hint pr = (b, pr1) \<Longrightarrow>
    progress_step pr (if b \<and> pr_State pr1 = StateReplicate then BecomeProbe pr1 else pr1)"
| sent: "unat (pr_Next pr) + n < 2 ^ 64 \<Longrightarrow> SentEntries n bytes pr = Some pr1 \<Longrightarrow>
    progress_step pr pr1"
| commit: "progress_step pr (SentCommit c pr)"
| probe: "progress_step pr (BecomeProbe pr)"
| replicate: "progress_step pr (BecomeReplicate pr)"
| snap: "pr_Match pr \<le> s \<Longrightarrow> s \<noteq> maxU64 \<Longrightarrow> progress_step pr (BecomeSnapshot s pr)"
| active: "progress_step pr (pr\<lparr>pr_RecentActive := b\<rparr>)"
| pause: "progress_step pr (pr\<lparr>pr_MsgAppFlowPaused := b\<rparr>)"

lemmas progress_defs = ResetState_def BecomeProbe_def BecomeReplicate_def BecomeSnapshot_def
  SentCommit_def MaybeUpdate_def MaybeDecrTo_def Let_def

section \<open>The invariant\<close>

lemma in_reset_inv [simp]: "in_inv ins \<Longrightarrow> in_inv (in_reset ins)"
  and in_list_reset [simp]: "in_list (in_reset ins) = []"
  using inflights.reset_contents [of ins] by (auto simp: in_list_def in_reset_def)

lemma less_Next_not_max: "(m :: u64) < n \<Longrightarrow> m < m + 1"
  by (rule u64_less_add1) (use u64_max [of n] in \<open>auto simp: linorder_not_le [symmetric]\<close>)

lemma pr_inv_BecomeProbe:
  "pr_Match pr < maxU64 \<Longrightarrow> in_inv (pr_Inflights pr) \<Longrightarrow> pr_inv (BecomeProbe pr)"
  using less_Next_not_max [of "pr_Match pr" maxU64]
  by (auto simp: pr_inv_def windowOrdered_def progress_defs less_max_iff_disj)

lemma pr_inv_BecomeReplicate:
  "pr_Match pr < maxU64 \<Longrightarrow> in_inv (pr_Inflights pr) \<Longrightarrow> pr_inv (BecomeReplicate pr)"
  using less_Next_not_max [of "pr_Match pr" maxU64]
  by (auto simp: pr_inv_def windowOrdered_def progress_defs)

lemma pr_inv_BecomeSnapshot:
  assumes "pr_Match pr \<le> s" "s \<noteq> maxU64" "in_inv (pr_Inflights pr)"
  shows "pr_inv (BecomeSnapshot s pr)"
  using assms u64_less_add1 [OF assms(2)]
  by (auto simp: pr_inv_def windowOrdered_def progress_defs)

lemma pr_inv_not_max: "pr_inv pr \<Longrightarrow> pr_Match pr < maxU64"
  unfolding pr_inv_def using u64_max less_le_trans by blast

lemma pr_inv_MaybeDecrTo:
  assumes "pr_inv pr" "MaybeDecrTo rejected hint pr = (b, pr1)"
  shows "pr_inv (if b \<and> pr_State pr1 = StateReplicate then BecomeProbe pr1 else pr1)"
proof (cases "pr_State pr = StateReplicate")
  case True
  have "b \<Longrightarrow> pr_inv (BecomeProbe pr1)"
    by (rule pr_inv_BecomeProbe)
      (use assms pr_inv_not_max [OF assms(1)] True in
        \<open>auto simp: MaybeDecrTo_def pr_inv_def Let_def split: if_splits\<close>)
  with assms True show ?thesis
    by (auto simp: MaybeDecrTo_def Let_def split: if_splits)
next
  case False
  with assms less_Next_not_max [of "pr_Match pr" maxU64] pr_inv_not_max [OF assms(1)] show ?thesis
    by (auto simp: MaybeDecrTo_def Let_def pr_inv_def windowOrdered_def less_max_iff_disj
      split: if_splits)
qed

lemma in_FreeLE_keeps:
  assumes "in_inv ins" "in_FreeLE t ins = Some ins'"
  shows "in_inv ins' \<and> in_list ins' = dropWhile (\<lambda>x. if_index x \<le> t) (in_list ins)"
  using inflights.free_contents [OF assms(1), of t] assms(2) by auto

lemma in_Add_keeps:
  assumes "in_inv ins" "in_Add i b ins = Some ins'"
  shows "in_inv ins' \<and> in_list ins' = in_list ins @ [Inflight i b]"
proof -
  have "\<not> in_Full ins" using assms(2) inflights.add_full [of ins i b] by auto
  with inflights.add_contents [OF assms(1), of i b] assms(2) show ?thesis by auto
qed

lemma pr_inv_ack:
  assumes "pr_inv pr" "n \<noteq> maxU64" "MaybeUpdate n pr = (b, pr1)"
    "in_FreeLE n (pr_Inflights pr1) = Some ins"
  shows "pr_inv (pr1\<lparr>pr_Inflights := ins\<rparr>)"
proof -
  have same: "pr_Inflights pr1 = pr_Inflights pr" "pr_State pr1 = pr_State pr"
    and nxt: "pr_Match pr1 < pr_Next pr1" "pr_Next pr \<le> pr_Next pr1"
    using assms(1,3) u64_less_add1 [OF assms(2)]
    by (auto simp: MaybeUpdate_def pr_inv_def less_max_iff_disj split: if_splits)
  have ins: "in_inv ins" "in_list ins = dropWhile (\<lambda>x. if_index x \<le> n) (in_list (pr_Inflights pr))"
    using in_FreeLE_keeps [OF _ assms(4)] assms(1) same by (auto simp: pr_inv_def)
  have "sorted (map if_index (in_list (pr_Inflights pr)))"
    using assms(1) by (simp add: pr_inv_def windowOrdered_def)
  then have "sorted (map if_index (in_list ins))"
    unfolding ins(2) by (simp add: dropWhile_eq_drop sorted_wrt_drop flip: drop_map)
  moreover have "\<forall>x \<in> set (in_list ins). if_index x < pr_Next pr1"
    using assms(1) nxt(2) unfolding ins(2) pr_inv_def windowOrdered_def
    by (auto dest!: set_dropWhileD intro: less_le_trans)
  ultimately show ?thesis
    using assms(1) same nxt ins by (simp add: pr_inv_def windowOrdered_def)
qed

lemma pr_inv_SentEntries:
  assumes "pr_inv pr" "unat (pr_Next pr) + n < 2 ^ 64" "SentEntries n bytes pr = Some pr1"
  shows "pr_inv pr1"
proof (cases "pr_State pr = StateReplicate \<and> n > 0")
  case True
  let ?next = "pr_Next pr + of_nat n"
  have u: "unat ?next = unat (pr_Next pr) + n"
    using assms(2) by (simp add: unat_word_ariths unat_of_nat)
  then have bounds: "pr_Next pr \<le> ?next - 1" "?next - 1 < ?next" "pr_Next pr < ?next"
    using True by (auto simp: word_le_nat_alt word_less_nat_alt unat_sub_if_size word_size)
  from True assms(3) obtain ins where
    ins: "in_Add (?next - 1) bytes (pr_Inflights pr) = Some ins"
    and pr1: "pr1 = pr\<lparr>pr_Next := ?next, pr_Inflights := ins, pr_MsgAppFlowPaused := in_Full ins\<rparr>"
    by (auto simp: SentEntries_def bind_eq_Some_conv Let_def)
  from assms(1) have old: "pr_Match pr < pr_Next pr" "in_inv (pr_Inflights pr)"
    "sorted (map if_index (in_list (pr_Inflights pr)))"
    "\<And>x. x \<in> set (in_list (pr_Inflights pr)) \<Longrightarrow> if_index x < pr_Next pr"
    by (auto simp: pr_inv_def windowOrdered_def)
  note k = in_Add_keeps [OF old(2) ins]
  have "if_index x \<le> ?next - 1 \<and> if_index x < ?next" if "x \<in> set (in_list (pr_Inflights pr))" for x
    using old(4) [OF that] bounds(1,3) by (meson less_imp_le order.trans order.strict_trans)
  with k old(3) bounds(2) have "windowOrdered pr1"
    unfolding windowOrdered_def pr1 using True by (simp add: sorted_append)
  moreover have "pr_Match pr < ?next" using old(1) bounds(3) by (rule order.strict_trans)
  ultimately show ?thesis using k by (simp add: pr_inv_def pr1)
next
  case False
  with assms show ?thesis
    by (auto simp: SentEntries_def pr_inv_def windowOrdered_def split: StateType.splits)
qed

lemma pr_inv_step: "progress_step pr pr' \<Longrightarrow> pr_inv pr \<Longrightarrow> pr_inv pr'"
proof (induction rule: progress_step.induct)
  case (ack n pr b pr1 ins) show ?case by (rule pr_inv_ack [OF ack(4) ack(1-3)])
next
  case (reject rejected hint pr b pr1) show ?case by (rule pr_inv_MaybeDecrTo [OF reject(2,1)])
next
  case (sent pr n bytes pr1) show ?case by (rule pr_inv_SentEntries [OF sent(3,1,2)])
next
  case (probe pr)
  then show ?case by (intro pr_inv_BecomeProbe pr_inv_not_max) (simp_all add: pr_inv_def)
next
  case (replicate pr)
  then show ?case by (intro pr_inv_BecomeReplicate pr_inv_not_max) (simp_all add: pr_inv_def)
next
  case (snap pr s)
  then show ?case by (intro pr_inv_BecomeSnapshot) (simp_all add: pr_inv_def)
qed (simp_all add: pr_inv_def windowOrdered_def SentCommit_def)

lemma pr_inv_new: "0 < n \<Longrightarrow> 0 < next \<Longrightarrow> pr_inv (newProgress next n mb l)"
  using inflights.new_invar [of n mb] by (simp add: pr_inv_def windowOrdered_def newProgress_def)

section \<open>Properties\<close>

text \<open>
  C24: the documented invariant of \<open>Progress\<close>. From the progress of a newly added peer,
  through every sequence of acknowledgements, rejections, appends, snapshots and state
  changes the leader makes, \<open>Match < Next\<close> holds, the in-flight window is sound and
  ordered with every index below \<open>Next\<close>, and it is empty outside \<open>StateReplicate\<close>.
\<close>

theorem Progress_invariant:
  assumes "progress_step\<^sup>*\<^sup>* (newProgress next n mb l) pr" "0 < n" "0 < next"
  shows "pr_Match pr < pr_Next pr \<and> in_inv (pr_Inflights pr) \<and> windowOrdered pr"
  using assms(1)
proof (induction rule: rtranclp_induct)
  case base
  from pr_inv_new [OF assms(2,3)] show ?case by (simp add: pr_inv_def)
next
  case (step y z)
  with pr_inv_step [of y z] show ?case by (simp add: pr_inv_def)
qed

theorem Progress_invariant_witness:
  "\<exists>pr. progress_step\<^sup>*\<^sup>* (newProgress 5 3 0 False) pr \<and> in_list (pr_Inflights pr) = [Inflight 2 100] \<and>
     pr_Match pr < pr_Next pr \<and> windowOrdered pr"
proof -
  let ?p = "newProgress 5 3 0 False" and ?q = "BecomeReplicate (newProgress 5 3 0 False)"
  have inv: "pr_inv ?q" by (rule pr_inv_step [OF progress_step.replicate pr_inv_new]) simp_all
  have full: "\<not> in_Full (pr_Inflights ?q)"
    by (simp add: BecomeReplicate_def ResetState_def newProgress_def in_Full_def in_reset_def NewInflights_def Let_def)
  have q: "pr_State ?q = StateReplicate" "pr_Next ?q = 1" "in_list (pr_Inflights ?q) = []" "in_inv (pr_Inflights ?q)"
    using inv by (simp_all add: progress_defs newProgress_def pr_inv_def)
  obtain ins where ins: "in_Add 2 100 (pr_Inflights ?q) = Some ins" "in_list ins = [Inflight 2 100]"
    using inflights.add_contents [OF q(4) full, of 2 100] q(3) by auto
  let ?r = "?q\<lparr>pr_Next := 3, pr_Inflights := ins, pr_MsgAppFlowPaused := in_Full ins\<rparr>"
  have "SentEntries 2 100 ?q = Some ?r" using q ins(1) by (simp add: SentEntries_def)
  then have sent: "progress_step ?q ?r" by (rule progress_step.sent [rotated]) (simp add: q)
  have "progress_step\<^sup>*\<^sup>* ?p ?q" by (rule r_into_rtranclp) (rule progress_step.replicate)
  then have run: "progress_step\<^sup>*\<^sup>* ?p ?r" using sent by (rule rtranclp.rtrancl_into_rtrancl)
  then show ?thesis using Progress_invariant [OF run] ins(2) by (intro exI [of _ ?r]) simp
qed

text \<open>
  C25: acknowledgements and rejections move \<open>Progress\<close> the way the comments on
  \<open>MaybeUpdate\<close> and \<open>MaybeDecrTo\<close> say. An acknowledgement (below the largest integer) is stale exactly when it
  is not above \<open>Match\<close>, and then nothing changes; otherwise it becomes \<open>Match\<close>, \<open>Next\<close> does not go back
  and is above it, the flow is resumed, and the state, the window and the commit index sent
  stay as they are. A rejection is genuine exactly when it is above \<open>Match\<close> in
  \<open>StateReplicate\<close>, or of the probed index \<open>Next - 1\<close> in the other states, and a stale one
  changes nothing. A genuine one keeps \<open>Match\<close>, leaves \<open>Next\<close> above it and the commit index
  sent below \<open>Next\<close>; in \<open>StateReplicate\<close> it restarts at \<open>Match + 1\<close>, and otherwise it
  resumes the flow with \<open>Next\<close> at most the hint plus one or \<open>Match + 1\<close>, and strictly lower than
  before unless it was \<open>Match + 1\<close> already, so that probing ends.
\<close>

theorem MaybeUpdate_MaybeDecrTo_progress:
  assumes "pr_inv pr" "n \<noteq> maxU64" "MaybeUpdate n pr = (b, pr1)" "MaybeDecrTo rejected hint pr = (d, pr2)"
  shows "(b \<longleftrightarrow> pr_Match pr < n) \<and> (\<not> b \<longrightarrow> pr1 = pr) \<and>
    (b \<longrightarrow> pr_Match pr1 = n \<and> n < pr_Next pr1 \<and> pr_Next pr \<le> pr_Next pr1 \<and> \<not> pr_MsgAppFlowPaused pr1 \<and>
       pr_State pr1 = pr_State pr \<and> pr_Inflights pr1 = pr_Inflights pr \<and> pr_sentCommit pr1 = pr_sentCommit pr) \<and>
    (d \<longleftrightarrow> (if pr_State pr = StateReplicate then pr_Match pr < rejected else rejected + 1 = pr_Next pr)) \<and>
    (\<not> d \<longrightarrow> pr2 = pr) \<and>
    (d \<longrightarrow> pr_Match pr2 = pr_Match pr \<and> pr_Match pr < pr_Next pr2 \<and> pr_sentCommit pr2 < pr_Next pr2 \<and>
       (if pr_State pr = StateReplicate then pr_Next pr2 = pr_Match pr + 1
        else \<not> pr_MsgAppFlowPaused pr2 \<and> pr_Next pr2 \<le> max (hint + 1) (pr_Match pr + 1) \<and>
          (pr_Next pr2 < pr_Next pr \<or> pr_Next pr2 = pr_Next pr \<and> pr_Next pr = pr_Match pr + 1)))"
    (is "?a \<and> ?b \<and> ?c \<and> ?d \<and> ?e \<and> (d \<longrightarrow> ?f)")
proof -
  have lt: "pr_Match pr < pr_Next pr" using assms(1) by (simp add: pr_inv_def)
  have inc: "pr_Match pr < pr_Match pr + 1" by (rule less_Next_not_max [OF lt])
  have ack: ?a ?b ?c
    using assms(3) u64_less_add1 [OF assms(2)]
    by (auto simp: MaybeUpdate_def less_max_iff_disj split: if_splits)
  have "rejected + 1 = pr_Next pr \<longleftrightarrow> pr_Next pr - 1 = rejected" by (metis add_diff_cancel_right' diff_add_cancel)
  then have rej: ?d ?e using assms(4) by (auto simp: MaybeDecrTo_def Let_def split: if_splits)
  have ?f if d: d
  proof -
    define nxt where "nxt = (if pr_State pr = StateReplicate then pr_Match pr + 1
      else max (min rejected (hint + 1)) (pr_Match pr + 1))"
    have pr2: "pr_Next pr2 = nxt" "pr_Match pr2 = pr_Match pr" "pr_sentCommit pr2 = min (pr_sentCommit pr) (nxt - 1)"
      "pr_State pr \<noteq> StateReplicate \<Longrightarrow> \<not> pr_MsgAppFlowPaused pr2"
      using assms(4) d by (auto simp: MaybeDecrTo_def Let_def nxt_def split: if_splits)
    have m: "pr_Match pr < nxt" using inc by (simp add: nxt_def less_max_iff_disj)
    then have dec: "nxt - 1 < nxt" by (simp add: word_less_nat_alt unat_sub_if_size)
    have "nxt < pr_Next pr \<or> nxt = pr_Next pr \<and> pr_Next pr = pr_Match pr + 1" if p: "pr_State pr \<noteq> StateReplicate"
    proof -
      have "rejected + 1 = pr_Next pr" using rej(1) d p by simp
      then have r: "rejected = pr_Next pr - 1" by (simp add: eq_diff_eq)
      have "pr_Next pr - 1 < pr_Next pr" using lt by (simp add: word_less_nat_alt unat_sub_if_size)
      moreover have "pr_Match pr + 1 \<le> pr_Next pr" using lt by (rule inc_le)
      ultimately show ?thesis using p by (auto simp: nxt_def r min_def max_def)
    qed
    moreover have "nxt \<le> max (hint + 1) (pr_Match pr + 1)" if "pr_State pr \<noteq> StateReplicate"
      using that unfolding nxt_def by (simp add: max.coboundedI1)
    moreover have "nxt = pr_Match pr + 1" if "pr_State pr = StateReplicate" using that by (simp add: nxt_def)
    ultimately show ?f using pr2 m dec by (simp add: min_less_iff_disj)
  qed
  with ack rej show ?thesis by blast
qed

theorem MaybeUpdate_MaybeDecrTo_progress_witness:
  "(case (MaybeUpdate 3 (newProgress 5 3 0 False), MaybeDecrTo 4 2 (newProgress 5 3 0 False)) of
      ((b, pr1), (d, pr2)) \<Rightarrow> b \<and> 3 < pr_Next pr1 \<and> d \<and> pr_Next pr2 < 5) \<and>
   (case (MaybeUpdate 0 (newProgress 5 3 0 False), MaybeDecrTo 7 2 (newProgress 5 3 0 False)) of
      ((b, pr1), (d, pr2)) \<Rightarrow> pr1 = newProgress 5 3 0 False \<and> pr2 = newProgress 5 3 0 False)"
proof -
  let ?p = "newProgress 5 3 0 False"
  have inv: "pr_inv ?p" by (rule pr_inv_new) simp_all
  have p: "pr_Match ?p = 0" "pr_Next ?p = 5" "pr_State ?p = StateProbe" by (simp_all add: newProgress_def)
  obtain b pr1 d pr2 where e: "MaybeUpdate 3 ?p = (b, pr1)" "MaybeDecrTo 4 2 ?p = (d, pr2)" by (metis surj_pair)
  obtain b' pr1' d' pr2' where e': "MaybeUpdate 0 ?p = (b', pr1')" "MaybeDecrTo 7 2 ?p = (d', pr2')" by (metis surj_pair)
  have "b \<and> 3 < pr_Next pr1 \<and> d \<and> pr_Next pr2 < 5"
    using MaybeUpdate_MaybeDecrTo_progress [OF inv _ e] by (simp add: p)
  moreover have "pr1' = ?p \<and> pr2' = ?p"
    using MaybeUpdate_MaybeDecrTo_progress [OF inv _ e'] by (simp add: p)
  ultimately show ?thesis by (simp add: e e')
qed

end
