(* ===== verification/Tracker.thy ===== *)
theory Tracker
  imports Progress Quorum RaftPb
begin

text \<open>
  \<open>tracker/tracker.go\<close>: the active configuration, the progress of every peer in it and
  the votes of the current campaign. A Go set is \<open>u64 set option\<close> with \<open>None\<close> the nil
  map. \<open>Visit\<close> passes over the progress map in ascending order of the identifiers, as
  the code does after sorting them; its body looks the progress up again.
\<close>

section \<open>Configurations\<close>

record Config =
  c_Voters :: JointConfig
  c_AutoLeave :: bool
  c_Learners :: MajorityConfig
  c_LearnersNext :: MajorityConfig

definition Config_Clone :: "Config \<Rightarrow> Config" where
  "Config_Clone c = \<lparr>c_Voters = (fst (c_Voters c), snd (c_Voters c)), c_AutoLeave = False,
     c_Learners = c_Learners c, c_LearnersNext = c_LearnersNext c\<rparr>"

definition emptyConfig :: Config where
  "emptyConfig = \<lparr>c_Voters = (Some {}, None), c_AutoLeave = False,
     c_Learners = None, c_LearnersNext = None\<rparr>"

section \<open>The tracker\<close>

type_synonym ProgressMap = "u64 \<rightharpoonup> Progress"

record ProgressTracker =
  t_Config :: Config
  t_Progress :: ProgressMap
  t_Votes :: "u64 \<rightharpoonup> bool"
  t_MaxInflight :: nat
  t_MaxInflightBytes :: u64

definition MakeProgressTracker :: "nat \<Rightarrow> u64 \<Rightarrow> ProgressTracker" where
  "MakeProgressTracker maxInflight maxBytes =
     \<lparr>t_Config = emptyConfig, t_Progress = Map.empty, t_Votes = Map.empty,
      t_MaxInflight = maxInflight, t_MaxInflightBytes = maxBytes\<rparr>"

definition trk_ConfState :: "ProgressTracker \<Rightarrow> ConfState" where
  "trk_ConfState p =
     \<lparr>cs_Voters = mc_Slice (fst (c_Voters (t_Config p))),
      cs_Learners = mc_Slice (c_Learners (t_Config p)),
      cs_VotersOutgoing = mc_Slice (snd (c_Voters (t_Config p))),
      cs_LearnersNext = mc_Slice (c_LearnersNext (t_Config p)),
      cs_AutoLeave = c_AutoLeave (t_Config p)\<rparr>"

definition IsSingleton :: "ProgressTracker \<Rightarrow> bool" where
  "IsSingleton p \<longleftrightarrow> card (mc_ids (fst (c_Voters (t_Config p)))) = 1 \<and>
     card (mc_ids (snd (c_Voters (t_Config p)))) = 0"

definition AckedIndex :: "ProgressMap \<Rightarrow> AckedIndexer" where
  "AckedIndex l i = (case l i of None \<Rightarrow> None | Some pr \<Rightarrow> Some (pr_Match pr))"

definition Committed :: "ProgressTracker \<Rightarrow> u64" where
  "Committed p = jc_CommittedIndex (c_Voters (t_Config p)) (AckedIndex (t_Progress p))"

definition trk_ids :: "ProgressTracker \<Rightarrow> u64 list" where
  "trk_ids p = sorted_list_of_set (dom (t_Progress p))"

definition Visit :: "(u64 \<Rightarrow> 's \<Rightarrow> 's option) \<Rightarrow> ProgressTracker \<Rightarrow> 's \<Rightarrow> 's option" where
  "Visit f p s = foldO f (trk_ids p) s"

definition activeVotes :: "ProgressTracker \<Rightarrow> (u64 \<rightharpoonup> bool) option" where
  "activeVotes p = Visit (\<lambda>id votes. do {
       pr \<leftarrow> t_Progress p id;
       Some (if pr_IsLearner pr then votes else votes(id \<mapsto> pr_RecentActive pr))
     }) p Map.empty"

definition QuorumActive :: "ProgressTracker \<Rightarrow> bool option" where
  "QuorumActive p = do {
     votes \<leftarrow> activeVotes p;
     Some (jc_VoteResult (c_Voters (t_Config p)) votes = VoteWon)
   }"

definition VoterNodes :: "ProgressTracker \<Rightarrow> u64 list" where
  "VoterNodes p = sorted_list_of_set (jc_IDs (c_Voters (t_Config p)))"

definition LearnerNodes :: "ProgressTracker \<Rightarrow> u64 list" where
  "LearnerNodes p =
     (if card (mc_ids (c_Learners (t_Config p))) = 0 then []
      else sorted_list_of_set (mc_ids (c_Learners (t_Config p))))"

definition ResetVotes :: "ProgressTracker \<Rightarrow> ProgressTracker" where
  "ResetVotes p = p\<lparr>t_Votes := Map.empty\<rparr>"

definition RecordVote :: "u64 \<Rightarrow> bool \<Rightarrow> ProgressTracker \<Rightarrow> ProgressTracker" where
  "RecordVote i v p =
     (if t_Votes p i = None then p\<lparr>t_Votes := (t_Votes p)(i \<mapsto> v)\<rparr> else p)"

definition tallyOne :: "ProgressTracker \<Rightarrow> u64 \<Rightarrow> nat \<times> nat \<Rightarrow> nat \<times> nat" where
  "tallyOne p i gr =
     (case t_Progress p i of
        None \<Rightarrow> gr
      | Some pr \<Rightarrow>
          if pr_IsLearner pr then gr
          else (case t_Votes p i of
                  None \<Rightarrow> gr
                | Some v \<Rightarrow> if v then (fst gr + 1, snd gr) else (fst gr, snd gr + 1)))"

definition TallyVotes :: "ProgressTracker \<Rightarrow> nat \<times> nat \<times> VoteResult" where
  "TallyVotes p =
     (let gr = fold (tallyOne p) (trk_ids p) (0, 0)
      in (fst gr, snd gr, jc_VoteResult (c_Voters (t_Config p)) (t_Votes p)))"

section \<open>Lemmas\<close>

lemma trk_ids_set [simp]: "set (trk_ids p) = dom (t_Progress p)" "distinct (trk_ids p)"
  "sorted (trk_ids p)"
  by (simp_all add: trk_ids_def)

lemma activeVotes_eq:
  "activeVotes p = Some (\<lambda>id. case t_Progress p id of None \<Rightarrow> None
     | Some pr \<Rightarrow> if pr_IsLearner pr then None else Some (pr_RecentActive pr))"
    (is "_ = Some ?votes")
proof -
  let ?f = "\<lambda>id votes. do {
       pr \<leftarrow> t_Progress p id;
       Some (if pr_IsLearner pr then votes else votes(id \<mapsto> pr_RecentActive pr))
     }"
  have "foldO ?f ids acc = Some (\<lambda>i. if i \<in> set ids \<and> ?votes i \<noteq> None then ?votes i else acc i)"
    if "set ids \<subseteq> dom (t_Progress p)" for ids acc
    using that
  proof (induction ids arbitrary: acc)
    case (Cons i ids)
    then obtain pr where "t_Progress p i = Some pr" by auto
    with Cons show ?case by (auto simp: fun_eq_iff)
  qed simp
  from this [of "trk_ids p" Map.empty] show ?thesis
    by (auto simp: activeVotes_def Visit_def fun_eq_iff split: option.splits)
qed

lemma tally_counts:
  "distinct ids \<Longrightarrow> fold (tallyOne p) ids (g, r) =
     (g + card {i \<in> set ids. \<exists>pr. t_Progress p i = Some pr \<and> \<not> pr_IsLearner pr \<and> t_Votes p i = Some True},
      r + card {i \<in> set ids. \<exists>pr. t_Progress p i = Some pr \<and> \<not> pr_IsLearner pr \<and> t_Votes p i = Some False})"
proof (induction ids arbitrary: g r)
  case (Cons i ids)
  let ?S = "\<lambda>b ids. {i \<in> set ids. \<exists>pr. t_Progress p i = Some pr \<and> \<not> pr_IsLearner pr \<and> t_Votes p i = Some b}"
  have S: "?S b (i # ids) = (if \<exists>pr. t_Progress p i = Some pr \<and> \<not> pr_IsLearner pr \<and> t_Votes p i = Some b
      then insert i (?S b ids) else ?S b ids)" for b by auto
  have "i \<notin> ?S b ids" for b using Cons.prems by simp
  with Cons show ?case unfolding S
    by (auto simp: tallyOne_def split: option.splits)
qed simp

section \<open>Properties\<close>

text \<open>
  C21: \<open>Committed\<close>, the index the leader may commit, is the largest index that a joint
  majority of the voters has acknowledged: for every positive index it is at least that
  index exactly when the peers whose \<open>Match\<close> reaches it form a majority of both halves of
  the configuration. Learners do not count.
\<close>

theorem Committed_iff_replicated:
  "0 < x \<Longrightarrow> x \<le> Committed p \<longleftrightarrow>
     jointMajorityOf (c_Voters (t_Config p))
       {i. \<exists>pr. t_Progress p i = Some pr \<and> x \<le> pr_Match pr}"
proof -
  have "ackedAtLeast (AckedIndex (t_Progress p)) x = {i. \<exists>pr. t_Progress p i = Some pr \<and> x \<le> pr_Match pr}"
    by (auto simp: ackedAtLeast_def AckedIndex_def split: option.splits)
  moreover assume "0 < x"
  ultimately show ?thesis by (auto simp: Committed_def joint.committed_quorum)
qed

theorem Committed_iff_replicated_witness:
  "\<not> 4 \<le> Committed (MakeProgressTracker 1 0
      \<lparr>t_Config := emptyConfig\<lparr>c_Voters := (Some {1, 2, 3}, None)\<rparr>,
       t_Progress := [1 \<mapsto> (newProgress 9 1 0 False)\<lparr>pr_Match := 5\<rparr>,
                      2 \<mapsto> (newProgress 9 1 0 False)\<lparr>pr_Match := 3\<rparr>,
                      3 \<mapsto> newProgress 9 1 0 False]\<rparr>)"
proof -
  have "{i. \<exists>pr. ([1 \<mapsto> (newProgress 9 1 0 False)\<lparr>pr_Match := 5\<rparr>,
                      2 \<mapsto> (newProgress 9 1 0 False)\<lparr>pr_Match := 3\<rparr>,
                      3 \<mapsto> newProgress 9 1 0 False] :: ProgressMap) i = Some pr \<and> 4 \<le> pr_Match pr} = {1}"
    by (auto simp: newProgress_def split: if_splits)
  moreover have "\<not> jointMajorityOf (Some {1, 2, 3}, None) {1}"
    by (simp add: jointMajorityOf_def majorityOf_def mc_ids_def)
  ultimately show ?thesis
    by (subst Committed_iff_replicated) (simp_all add: MakeProgressTracker_def)
qed

text \<open>
  C22: vote counting. The first vote of a peer counts and later ones are ignored, the
  election is won exactly when a joint majority granted its vote and lost exactly when the
  peers that have not refused are no longer a joint majority, and the two counters are the
  numbers of granting and refusing voters among the tracked peers.
\<close>

theorem TallyVotes_correct:
  "t_Votes (RecordVote n v p) = (if n \<in> dom (t_Votes p) then t_Votes p else (t_Votes p)(n \<mapsto> v)) \<and>
   (case TallyVotes p of (granted, rejected, res) \<Rightarrow>
      granted = card {i. \<exists>pr. t_Progress p i = Some pr \<and> \<not> pr_IsLearner pr \<and> t_Votes p i = Some True} \<and>
      rejected = card {i. \<exists>pr. t_Progress p i = Some pr \<and> \<not> pr_IsLearner pr \<and> t_Votes p i = Some False} \<and>
      (res = VoteWon \<longleftrightarrow> jointMajorityOf (c_Voters (t_Config p)) {i. t_Votes p i = Some True}) \<and>
      (res = VoteLost \<longleftrightarrow> \<not> jointMajorityOf (c_Voters (t_Config p)) {i. t_Votes p i \<noteq> Some False}))"
proof -
  have "{i \<in> set (trk_ids p). \<exists>pr. t_Progress p i = Some pr \<and> Q i pr} =
      {i. \<exists>pr. t_Progress p i = Some pr \<and> Q i pr}" for Q by auto
  then show ?thesis
    by (auto simp: RecordVote_def TallyVotes_def tally_counts joint.vote_won joint.vote_lost
      votedYes_def notVotedNo_def)
qed

text \<open>
  C23: the check-quorum test. \<open>QuorumActive\<close> never panics and holds exactly when the
  peers that are not learners and were recently active form a joint majority.
\<close>

theorem QuorumActive_iff:
  "QuorumActive p = Some (jointMajorityOf (c_Voters (t_Config p))
     {i. \<exists>pr. t_Progress p i = Some pr \<and> \<not> pr_IsLearner pr \<and> pr_RecentActive pr})"
proof -
  have "votedYes (\<lambda>id. case t_Progress p id of None \<Rightarrow> None
     | Some pr \<Rightarrow> if pr_IsLearner pr then None else Some (pr_RecentActive pr)) =
     {i. \<exists>pr. t_Progress p i = Some pr \<and> \<not> pr_IsLearner pr \<and> pr_RecentActive pr}"
    by (auto simp: votedYes_def split: option.splits if_splits)
  then show ?thesis
    by (simp add: QuorumActive_def activeVotes_eq joint.vote_won)
qed

end
