(* ===== verification/ConfChange.thy ===== *)
theory ConfChange
  imports Tracker
begin

text \<open>
  \<open>confchange/confchange.go\<close>: the \<open>Changer\<close>, which computes the configuration and the
  progress map after a simple or a joint change without touching the tracker it was given.
  The code works on copies through pointers; here each helper takes the pair of
  configuration and progress map and returns the new pair. A write to a nil voter map and
  a use of a missing progress are panics (\<open>None\<close>); a refused change is \<open>Inl\<close> of the error.
\<close>

section \<open>Model\<close>

datatype cc_error =
    NoProgress u64 | NextNotOutgoing u64 | NextIsLearner u64 | LearnerInOutgoing u64
  | LearnerInIncoming u64 | LearnerNotMarked u64 | OutgoingNotNil | NextNotNil
  | AutoLeaveNotJoint | AlreadyJoint | ZeroVoterJoint | NotJoint | SimpleInJoint
  | RemovedAllVoters | UnexpectedType ConfChangeType | MoreThanOneVoter

record Changer =
  ch_Tracker :: ProgressTracker
  ch_LastIndex :: u64

type_synonym cfg_trk = "Config \<times> ProgressMap"

abbreviation incoming :: "Config \<Rightarrow> MajorityConfig" where
  "incoming cfg \<equiv> fst (c_Voters cfg)"

abbreviation outgoing :: "Config \<Rightarrow> MajorityConfig" where
  "outgoing cfg \<equiv> snd (c_Voters cfg)"

definition is_joint :: "Config \<Rightarrow> bool" where
  "is_joint cfg \<longleftrightarrow> card (mc_ids (outgoing cfg)) > 0"

definition nilAwareAdd :: "u64 \<Rightarrow> MajorityConfig \<Rightarrow> MajorityConfig" where
  "nilAwareAdd i m = (case m of None \<Rightarrow> Some {i} | Some s \<Rightarrow> Some (insert i s))"

definition nilAwareDelete :: "u64 \<Rightarrow> MajorityConfig \<Rightarrow> MajorityConfig" where
  "nilAwareDelete i m =
     (case m of
        None \<Rightarrow> None
      | Some s \<Rightarrow> let s' = s - {i} in if card s' = 0 then None else Some s')"

definition symdiff :: "MajorityConfig \<Rightarrow> MajorityConfig \<Rightarrow> nat" where
  "symdiff l r = card (mc_ids l - mc_ids r) + card (mc_ids r - mc_ids l)"

definition addIncoming :: "u64 \<Rightarrow> Config \<Rightarrow> Config option" where
  "addIncoming i cfg =
     (case incoming cfg of
        None \<Rightarrow> None
      | Some s \<Rightarrow> Some (cfg\<lparr>c_Voters := (Some (insert i s), outgoing cfg)\<rparr>))"

definition initProgress :: "Changer \<Rightarrow> u64 \<Rightarrow> bool \<Rightarrow> cfg_trk \<Rightarrow> cfg_trk option" where
  "initProgress c i isLearner ct = do {
     let (cfg, trk) = ct;
     cfg1 \<leftarrow> (if \<not> isLearner then addIncoming i cfg
             else Some (cfg\<lparr>c_Learners := nilAwareAdd i (c_Learners cfg)\<rparr>));
     Some (cfg1, trk(i \<mapsto> \<lparr>pr_Match = 0, pr_Next = max (ch_LastIndex c) 1, pr_sentCommit = 0,
        pr_State = StateProbe, pr_PendingSnapshot = 0, pr_RecentActive = True,
        pr_MsgAppFlowPaused = False,
        pr_Inflights = NewInflights (t_MaxInflight (ch_Tracker c)) (t_MaxInflightBytes (ch_Tracker c)),
        pr_IsLearner = isLearner\<rparr>))
   }"

definition makeVoter :: "Changer \<Rightarrow> u64 \<Rightarrow> cfg_trk \<Rightarrow> cfg_trk option" where
  "makeVoter c i ct =
     (case snd ct i of
        None \<Rightarrow> initProgress c i False ct
      | Some pr \<Rightarrow> do {
          let cfg = (fst ct)\<lparr>c_Learners := nilAwareDelete i (c_Learners (fst ct)),
                             c_LearnersNext := nilAwareDelete i (c_LearnersNext (fst ct))\<rparr>;
          cfg1 \<leftarrow> addIncoming i cfg;
          Some (cfg1, (snd ct)(i \<mapsto> pr\<lparr>pr_IsLearner := False\<rparr>))
        })"

definition cc_remove :: "u64 \<Rightarrow> cfg_trk \<Rightarrow> cfg_trk" where
  "cc_remove i ct =
     (let (cfg, trk) = ct in
      if trk i = None then ct
      else
        let cfg1 = cfg\<lparr>c_Voters := (map_option (\<lambda>s. s - {i}) (incoming cfg), outgoing cfg),
                       c_Learners := nilAwareDelete i (c_Learners cfg),
                       c_LearnersNext := nilAwareDelete i (c_LearnersNext cfg)\<rparr>
        in (cfg1, if i \<in> mc_ids (outgoing cfg1) then trk else trk(i := None)))"

definition makeLearner :: "Changer \<Rightarrow> u64 \<Rightarrow> cfg_trk \<Rightarrow> cfg_trk option" where
  "makeLearner c i ct =
     (case snd ct i of
        None \<Rightarrow> initProgress c i True ct
      | Some pr \<Rightarrow>
          if pr_IsLearner pr then Some ct
          else
            let (cfg, trk) = cc_remove i ct;
                trk1 = trk(i \<mapsto> pr)
            in if i \<in> mc_ids (outgoing cfg) then
                 Some (cfg\<lparr>c_LearnersNext := nilAwareAdd i (c_LearnersNext cfg)\<rparr>, trk1)
               else
                 Some (cfg\<lparr>c_Learners := nilAwareAdd i (c_Learners cfg)\<rparr>,
                       trk1(i \<mapsto> pr\<lparr>pr_IsLearner := True\<rparr>)))"

fun applyLoop :: "Changer \<Rightarrow> ConfChangeSingle list \<Rightarrow> cfg_trk \<Rightarrow> (cc_error + cfg_trk) option" where
  "applyLoop c [] ct = Some (Inr ct)"
| "applyLoop c (cc # ccs) ct =
     (if ccs_NodeId cc = 0 then applyLoop c ccs ct
      else case ccs_Type cc of
        ConfChangeAddNode \<Rightarrow> Option.bind (makeVoter c (ccs_NodeId cc) ct) (applyLoop c ccs)
      | ConfChangeAddLearnerNode \<Rightarrow> Option.bind (makeLearner c (ccs_NodeId cc) ct) (applyLoop c ccs)
      | ConfChangeRemoveNode \<Rightarrow> applyLoop c ccs (cc_remove (ccs_NodeId cc) ct)
      | ConfChangeUpdateNode \<Rightarrow> applyLoop c ccs ct
      | ConfChangeTypeOther n \<Rightarrow> Some (Inl (UnexpectedType (ccs_Type cc))))"

definition cc_apply :: "Changer \<Rightarrow> ConfChangeSingle list \<Rightarrow> cfg_trk \<Rightarrow> (cc_error + cfg_trk) option" where
  "cc_apply c ccs ct = tryE (applyLoop c ccs ct) (\<lambda>(cfg, trk).
     if card (mc_ids (incoming cfg)) = 0 then Some (Inl RemovedAllVoters)
     else Some (Inr (cfg, trk)))"

text \<open>
  The checks return at the first error. The flag \<open>IsLearner\<close> is only read after the first
  loop has found a progress for every peer.
\<close>

definition isMarkedLearner :: "ProgressMap \<Rightarrow> u64 \<Rightarrow> bool" where
  "isMarkedLearner trk i \<longleftrightarrow> (case trk i of None \<Rightarrow> False | Some pr \<Rightarrow> pr_IsLearner pr)"

definition checkInvariants :: "Config \<Rightarrow> ProgressMap \<Rightarrow> cc_error option" where
  "checkInvariants cfg trk = firstErr (\<lambda>e. e)
     [firstErr (firstErr (\<lambda>i. if trk i = None then Some (NoProgress i) else None))
        [sorted_list_of_set (jc_IDs (c_Voters cfg)), mc_Slice (c_Learners cfg),
         mc_Slice (c_LearnersNext cfg)],
      firstErr (\<lambda>i.
          if i \<notin> mc_ids (outgoing cfg) then Some (NextNotOutgoing i)
          else if isMarkedLearner trk i then Some (NextIsLearner i)
          else None)
        (mc_Slice (c_LearnersNext cfg)),
      firstErr (\<lambda>i.
          if i \<in> mc_ids (outgoing cfg) then Some (LearnerInOutgoing i)
          else if i \<in> mc_ids (incoming cfg) then Some (LearnerInIncoming i)
          else if \<not> isMarkedLearner trk i then Some (LearnerNotMarked i)
          else None)
        (mc_Slice (c_Learners cfg)),
      if is_joint cfg then None
      else if outgoing cfg \<noteq> None then Some OutgoingNotNil
      else if c_LearnersNext cfg \<noteq> None then Some NextNotNil
      else if c_AutoLeave cfg then Some AutoLeaveNotJoint
      else None]"

definition checkAndReturn :: "Config \<Rightarrow> ProgressMap \<Rightarrow> cc_error + cfg_trk" where
  "checkAndReturn cfg trk =
     (case checkInvariants cfg trk of Some err \<Rightarrow> Inl err | None \<Rightarrow> Inr (cfg, trk))"

definition checkAndCopy :: "Changer \<Rightarrow> cc_error + cfg_trk" where
  "checkAndCopy c =
     checkAndReturn (Config_Clone (t_Config (ch_Tracker c))) (t_Progress (ch_Tracker c))"

definition EnterJoint :: "Changer \<Rightarrow> bool \<Rightarrow> ConfChangeSingle list \<Rightarrow> (cc_error + cfg_trk) option" where
  "EnterJoint c autoLeave ccs = tryE (Some (checkAndCopy c)) (\<lambda>(cfg, trk).
     if is_joint cfg then Some (Inl AlreadyJoint)
     else if card (mc_ids (incoming cfg)) = 0 then Some (Inl ZeroVoterJoint)
     else
       let cfg1 = cfg\<lparr>c_Voters := (incoming cfg, Some (mc_ids (incoming cfg)))\<rparr> in
       tryE (cc_apply c ccs (cfg1, trk)) (\<lambda>(cfg2, trk2).
         Some (checkAndReturn (cfg2\<lparr>c_AutoLeave := autoLeave\<rparr>) trk2)))"

definition promoteLearner :: "u64 \<Rightarrow> cfg_trk \<Rightarrow> cfg_trk option" where
  "promoteLearner i ct = do {
     let cfg = (fst ct)\<lparr>c_Learners := nilAwareAdd i (c_Learners (fst ct))\<rparr>;
     pr \<leftarrow> snd ct i;
     Some (cfg, (snd ct)(i \<mapsto> pr\<lparr>pr_IsLearner := True\<rparr>))
   }"

definition dropOutgoing :: "Config \<Rightarrow> u64 \<Rightarrow> ProgressMap \<Rightarrow> ProgressMap" where
  "dropOutgoing cfg i trk =
     (if i \<notin> mc_ids (incoming cfg) \<and> i \<notin> mc_ids (c_Learners cfg) then trk(i := None) else trk)"

definition LeaveJoint :: "Changer \<Rightarrow> (cc_error + cfg_trk) option" where
  "LeaveJoint c = tryE (Some (checkAndCopy c)) (\<lambda>(cfg, trk).
     if \<not> is_joint cfg then Some (Inl NotJoint)
     else do {
       (cfg1, trk1) \<leftarrow> foldO promoteLearner (mc_Slice (c_LearnersNext cfg)) (cfg, trk);
       let cfg2 = cfg1\<lparr>c_LearnersNext := None\<rparr>;
       let trk2 = fold (dropOutgoing cfg2) (mc_Slice (outgoing cfg2)) trk1;
       Some (checkAndReturn
         (cfg2\<lparr>c_Voters := (incoming cfg2, None), c_AutoLeave := False\<rparr>) trk2)
     })"

definition Simple :: "Changer \<Rightarrow> ConfChangeSingle list \<Rightarrow> (cc_error + cfg_trk) option" where
  "Simple c ccs = tryE (Some (checkAndCopy c)) (\<lambda>(cfg, trk).
     if is_joint cfg then Some (Inl SimpleInJoint)
     else tryE (cc_apply c ccs (cfg, trk)) (\<lambda>(cfg1, trk1).
       if symdiff (incoming (t_Config (ch_Tracker c))) (incoming cfg1) > 1
       then Some (Inl MoreThanOneVoter)
       else Some (checkAndReturn cfg1 trk1)))"

section \<open>Specification\<close>

text \<open>
  The invariant behind \<open>checkInvariants\<close>. It is stronger: every tracked peer is in the
  configuration, a peer is marked a learner exactly when it is one, and empty learner sets
  are nil.
\<close>

definition cfg_ok :: "Config \<Rightarrow> ProgressMap \<Rightarrow> bool" where
  "cfg_ok cfg trk \<longleftrightarrow>
     incoming cfg \<noteq> None \<and>
     dom trk = jc_IDs (c_Voters cfg) \<union> mc_ids (c_Learners cfg) \<union> mc_ids (c_LearnersNext cfg) \<and>
     mc_ids (c_LearnersNext cfg) \<subseteq> mc_ids (outgoing cfg) - mc_ids (incoming cfg) \<and>
     mc_ids (c_Learners cfg) \<inter> jc_IDs (c_Voters cfg) = {} \<and>
     (\<forall>i pr. trk i = Some pr \<longrightarrow> pr_IsLearner pr = (i \<in> mc_ids (c_Learners cfg))) \<and>
     c_Learners cfg \<noteq> Some {} \<and> c_LearnersNext cfg \<noteq> Some {} \<and>
     (mc_ids (outgoing cfg) = {} \<longrightarrow> outgoing cfg = None \<and> \<not> c_AutoLeave cfg)"

definition tracker_ok :: "ProgressTracker \<Rightarrow> bool" where
  "tracker_ok p \<longleftrightarrow> cfg_ok (t_Config p) (t_Progress p)"

text \<open>
  What one change means on the sets of voters, learners and staged learners, with the
  outgoing voters \<open>out\<close> fixed.
\<close>

type_synonym cfg_sets = "u64 set \<times> u64 set \<times> u64 set"

fun changeSpec :: "u64 set \<Rightarrow> ConfChangeSingle \<Rightarrow> cfg_sets \<Rightarrow> cfg_sets" where
  "changeSpec out cc (v, l, n) =
     (let i = ccs_NodeId cc in
      if i = 0 then (v, l, n)
      else case ccs_Type cc of
        ConfChangeAddNode \<Rightarrow> (insert i v, l - {i}, n - {i})
      | ConfChangeAddLearnerNode \<Rightarrow>
          if i \<in> out then (v - {i}, l, insert i n) else (v - {i}, insert i l, n)
      | ConfChangeRemoveNode \<Rightarrow> (v - {i}, l - {i}, n - {i})
      | _ \<Rightarrow> (v, l, n))"

definition cfgSets :: "Config \<Rightarrow> cfg_sets" where
  "cfgSets cfg = (mc_ids (incoming cfg), mc_ids (c_Learners cfg), mc_ids (c_LearnersNext cfg))"

text \<open>
  Where the progress of a peer comes from: kept, with only the learner flag changed, or new.
\<close>

definition trkFrom :: "Changer \<Rightarrow> ProgressMap \<Rightarrow> ProgressMap \<Rightarrow> bool" where
  "trkFrom c trk trk' \<longleftrightarrow>
     (\<forall>i pr'. trk' i = Some pr' \<longrightarrow>
        (\<exists>pr b. trk i = Some pr \<and> pr' = pr\<lparr>pr_IsLearner := b\<rparr>) \<or>
        (\<exists>b. pr' = newProgress (max (ch_LastIndex c) 1) (t_MaxInflight (ch_Tracker c))
               (t_MaxInflightBytes (ch_Tracker c)) b))"

text \<open>
  The progress map after a change, for every peer: the members of the new configuration are
  tracked and no others. A member that was tracked and that no change has dropped keeps its
  progress, every other one starts with the initial progress, and the learner flag is set
  for the learners. A removal drops a peer unless it is an outgoing voter \<open>out\<close>.
\<close>

definition members :: "Config \<Rightarrow> u64 set" where
  "members cfg = jc_IDs (c_Voters cfg) \<union> mc_ids (c_Learners cfg) \<union> mc_ids (c_LearnersNext cfg)"

definition droppedBy :: "u64 set \<Rightarrow> ConfChangeSingle list \<Rightarrow> u64 set" where
  "droppedBy out ccs = {ccs_NodeId cc | cc. cc \<in> set ccs \<and> ccs_Type cc = ConfChangeRemoveNode} - out - {0}"

definition origin :: "Changer \<Rightarrow> u64 set \<Rightarrow> ProgressMap \<Rightarrow> u64 \<Rightarrow> Progress" where
  "origin c D trk i =
     (case trk i of
        Some pr \<Rightarrow> if i \<in> D then newProgress (max (ch_LastIndex c) 1) (t_MaxInflight (ch_Tracker c))
          (t_MaxInflightBytes (ch_Tracker c)) False else pr
      | None \<Rightarrow> newProgress (max (ch_LastIndex c) 1) (t_MaxInflight (ch_Tracker c))
          (t_MaxInflightBytes (ch_Tracker c)) False)"

definition progressSpec :: "Changer \<Rightarrow> u64 set \<Rightarrow> Config \<Rightarrow> ProgressMap" where
  "progressSpec c D cfg i =
     (if i \<in> members cfg
      then Some ((origin c D (t_Progress (ch_Tracker c)) i)\<lparr>pr_IsLearner := i \<in> mc_ids (c_Learners cfg)\<rparr>)
      else None)"

definition trkVia :: "Changer \<Rightarrow> u64 set \<Rightarrow> ProgressMap \<Rightarrow> ProgressMap \<Rightarrow> bool" where
  "trkVia c D trk trk' \<longleftrightarrow>
     (\<forall>i pr'. trk' i = Some pr' \<longrightarrow> pr' = (origin c D trk i)\<lparr>pr_IsLearner := pr_IsLearner pr'\<rparr>) \<and>
     (\<forall>i. trk i \<noteq> None \<longrightarrow> i \<notin> D \<longrightarrow> trk' i \<noteq> None)"

text \<open>The contract of every step of \<open>apply\<close>.\<close>

definition stepOk :: "Changer \<Rightarrow> cfg_sets \<Rightarrow> cfg_trk \<Rightarrow> cfg_trk \<Rightarrow> bool" where
  "stepOk c sets ct ct' \<longleftrightarrow>
     cfg_ok (fst ct') (snd ct') \<and> cfgSets (fst ct') = sets \<and>
     outgoing (fst ct') = outgoing (fst ct) \<and> c_AutoLeave (fst ct') = c_AutoLeave (fst ct) \<and>
     trkFrom c (snd ct) (snd ct')"

definition badChange :: "ConfChangeSingle \<Rightarrow> bool" where
  "badChange cc \<longleftrightarrow> ccs_NodeId cc \<noteq> 0 \<and>
     (case ccs_Type cc of ConfChangeTypeOther _ \<Rightarrow> True | _ \<Rightarrow> False)"

text \<open>The sets of the configuration after a list of changes.\<close>

definition changesSpec :: "u64 set \<Rightarrow> ConfChangeSingle list \<Rightarrow> cfg_sets \<Rightarrow> cfg_sets" where
  "changesSpec out ccs sets = fold (changeSpec out) ccs sets"

definition sampleJoint :: Changer where
  "sampleJoint = \<lparr>ch_Tracker = (MakeProgressTracker 4 0)
     \<lparr>t_Config := emptyConfig\<lparr>c_Voters := (Some {1, 2}, Some {1, 3, 4}), c_LearnersNext := Some {3}\<rparr>,
      t_Progress := [1 \<mapsto> newProgress 7 4 0 False, 2 \<mapsto> newProgress 8 4 0 False,
        3 \<mapsto> newProgress 9 4 0 False, 4 \<mapsto> newProgress 10 4 0 False]\<rparr>, ch_LastIndex = 3\<rparr>"

section \<open>The helpers keep the invariant and refine the sets\<close>

lemma card_u64_0 [simp]: "card (S :: u64 set) = 0 \<longleftrightarrow> S = {}"
  by simp

lemma nilAware_ids [simp]:
  "mc_ids (nilAwareAdd i m) = insert i (mc_ids m)"
  "mc_ids (nilAwareDelete i m) = mc_ids m - {i}"
  by (auto simp: nilAwareAdd_def nilAwareDelete_def mc_ids_def Let_def split: option.splits)

lemma nilAware_not_empty [simp]:
  "nilAwareAdd i m \<noteq> Some {}"
  "m \<noteq> Some {} \<Longrightarrow> nilAwareDelete i m \<noteq> Some {}"
  by (auto simp: nilAwareAdd_def nilAwareDelete_def Let_def split: option.splits)

lemma mc_ids_Some [simp]: "mc_ids (Some s) = s" "mc_ids None = {}"
  by (simp_all add: mc_ids_def)

lemma mc_ids_map_option [simp]: "mc_ids (map_option (\<lambda>s. s - {i}) m) = mc_ids m - {i}"
  by (cases m) simp_all

lemma is_joint_iff: "is_joint cfg \<longleftrightarrow> mc_ids (outgoing cfg) \<noteq> {}"
  by (simp add: is_joint_def card_gt_0_iff)

lemma initProgress_eq:
  "initProgress c i b (cfg, trk) =
     map_option (\<lambda>cfg'. (cfg', trk(i \<mapsto> newProgress (max (ch_LastIndex c) 1)
         (t_MaxInflight (ch_Tracker c)) (t_MaxInflightBytes (ch_Tracker c)) b)))
       (if \<not> b then addIncoming i cfg else Some (cfg\<lparr>c_Learners := nilAwareAdd i (c_Learners cfg)\<rparr>))"
  by (cases "addIncoming i cfg") (simp_all add: initProgress_def newProgress_def)

lemma trkFrom_refl [simp]: "trkFrom c trk trk"
proof -
  have "pr = pr\<lparr>pr_IsLearner := pr_IsLearner pr\<rparr>" for pr :: Progress by simp
  then show ?thesis unfolding trkFrom_def by blast
qed

lemma trkFrom_trans: "trkFrom c t1 t2 \<Longrightarrow> trkFrom c t2 t3 \<Longrightarrow> trkFrom c t1 t3"
  unfolding trkFrom_def newProgress_def by (fastforce)

lemma trkFrom_upd:
  "trkFrom c trk (trk(i := None))"
  "trk i = Some pr \<Longrightarrow> trkFrom c trk (trk(i \<mapsto> pr))"
  "trk i = Some pr \<Longrightarrow> trkFrom c trk (trk(i \<mapsto> pr\<lparr>pr_IsLearner := b\<rparr>))"
  "trkFrom c trk (trk(i \<mapsto> newProgress (max (ch_LastIndex c) 1) (t_MaxInflight (ch_Tracker c))
               (t_MaxInflightBytes (ch_Tracker c)) b))"
  using trkFrom_refl [of c trk] unfolding trkFrom_def by (auto simp: fun_upd_idem)

lemma makeVoter_ok:
  assumes ok: "cfg_ok cfg trk" and sets: "cfgSets cfg = (v, l, n)"
  shows "\<exists>ct'. makeVoter c i (cfg, trk) = Some ct' \<and>
     stepOk c (insert i v, l - {i}, n - {i}) (cfg, trk) ct'"
proof -
  from ok obtain s where s: "incoming cfg = Some s" by (auto simp: cfg_ok_def)
  show ?thesis
  proof (cases "trk i")
    case None
    then have "i \<notin> dom trk" by auto
    with ok s sets None show ?thesis
      by (auto simp: makeVoter_def initProgress_eq addIncoming_def stepOk_def cfg_ok_def jc_IDs_def
        cfgSets_def trkFrom_upd) (auto simp: newProgress_def split: if_splits)
  next
    case (Some pr)
    then have "i \<in> dom trk" by auto
    with ok s sets Some show ?thesis
      by (auto simp: makeVoter_def addIncoming_def stepOk_def cfg_ok_def jc_IDs_def
        cfgSets_def trkFrom_upd)
  qed
qed

lemma cc_remove_ok:
  assumes ok: "cfg_ok cfg trk" and sets: "cfgSets cfg = (v, l, n)"
  shows "stepOk c (v - {i}, l - {i}, n - {i}) (cfg, trk) (cc_remove i (cfg, trk))"
proof (cases "trk i")
  case None
  then have "i \<notin> dom trk" by auto
  with ok sets None show ?thesis
    by (auto simp: cc_remove_def stepOk_def cfg_ok_def jc_IDs_def cfgSets_def)
next
  case (Some pr)
  then have "i \<in> dom trk" by auto
  with ok sets Some show ?thesis
    by (auto simp: cc_remove_def stepOk_def cfg_ok_def jc_IDs_def cfgSets_def trkFrom_upd Let_def
      split: if_splits)
qed

lemma makeLearner_ok:
  assumes ok: "cfg_ok cfg trk" and sets: "cfgSets cfg = (v, l, n)"
  shows "\<exists>ct'. makeLearner c i (cfg, trk) = Some ct' \<and>
     stepOk c (if i \<in> mc_ids (outgoing cfg) then (v - {i}, l, insert i n) else (v - {i}, insert i l, n))
       (cfg, trk) ct'"
proof (cases "trk i")
  case None
  then have "i \<notin> dom trk" by auto
  with ok sets None show ?thesis
    by (auto simp: makeLearner_def initProgress_eq stepOk_def cfg_ok_def jc_IDs_def
      cfgSets_def trkFrom_upd) (auto simp: newProgress_def split: if_splits)
next
  case (Some pr)
  then have dom: "i \<in> dom trk" by auto
  show ?thesis
  proof (cases "pr_IsLearner pr")
    case True
    with ok Some have "i \<in> mc_ids (c_Learners cfg)" by (auto simp: cfg_ok_def)
    with ok sets Some True show ?thesis
      by (auto simp: makeLearner_def stepOk_def cfg_ok_def jc_IDs_def cfgSets_def)
  next
    case False
    with ok Some have "i \<notin> mc_ids (c_Learners cfg)" by (auto simp: cfg_ok_def)
    with ok sets Some dom False show ?thesis
      by (auto simp: makeLearner_def cc_remove_def stepOk_def cfg_ok_def jc_IDs_def cfgSets_def
        Let_def trkFrom_upd)
  qed
qed

lemma stepOk_refl: "cfg_ok (fst ct) (snd ct) \<Longrightarrow> cfgSets (fst ct) = sets \<Longrightarrow> stepOk c sets ct ct"
  by (simp add: stepOk_def)

lemma stepOk_trans:
  "stepOk c s1 ct ct1 \<Longrightarrow> stepOk c s2 ct1 ct2 \<Longrightarrow> stepOk c s2 ct ct2"
  by (auto simp: stepOk_def intro: trkFrom_trans)

lemma applyLoop_Cons:
  assumes ok: "cfg_ok cfg trk"
  shows "badChange cc \<Longrightarrow> \<exists>e. applyLoop c (cc # ccs) (cfg, trk) = Some (Inl (UnexpectedType e))"
    and "\<not> badChange cc \<Longrightarrow> \<exists>ct1. applyLoop c (cc # ccs) (cfg, trk) = applyLoop c ccs ct1 \<and>
       stepOk c (changeSpec (mc_ids (outgoing cfg)) cc (cfgSets cfg)) (cfg, trk) ct1"
proof -
  obtain v l n where sets: "cfgSets cfg = (v, l, n)" by (cases "cfgSets cfg")
  note ok' = stepOk_refl [of "(cfg, trk)" "(v, l, n)" c]
  show "badChange cc \<Longrightarrow> \<exists>e. applyLoop c (cc # ccs) (cfg, trk) = Some (Inl (UnexpectedType e))"
    by (auto simp: badChange_def split: ConfChangeType.splits)
  assume "\<not> badChange cc"
  then show "\<exists>ct1. applyLoop c (cc # ccs) (cfg, trk) = applyLoop c ccs ct1 \<and>
       stepOk c (changeSpec (mc_ids (outgoing cfg)) cc (cfgSets cfg)) (cfg, trk) ct1"
    using makeVoter_ok [OF ok sets, of c "ccs_NodeId cc"] ok' ok
      makeLearner_ok [OF ok sets, of c "ccs_NodeId cc"]
      cc_remove_ok [OF ok sets, of c "ccs_NodeId cc"]
    by (cases "ccs_Type cc")
      (auto simp: badChange_def sets Let_def simp del: split_paired_Ex split: if_splits)
qed

lemma applyLoop_ok:
  assumes "cfg_ok (fst ct) (snd ct)"
  shows "if list_ex badChange ccs then \<exists>e. applyLoop c ccs ct = Some (Inl (UnexpectedType e))
     else \<exists>ct'. applyLoop c ccs ct = Some (Inr ct') \<and>
       stepOk c (changesSpec (mc_ids (outgoing (fst ct))) ccs (cfgSets (fst ct))) ct ct'"
  using assms
proof (induction ccs arbitrary: ct)
  case Nil
  then show ?case by (simp add: stepOk_refl changesSpec_def)
next
  case (Cons cc ccs)
  obtain cfg trk where ct: "ct = (cfg, trk)" by (cases ct)
  show ?case
  proof (cases "badChange cc")
    case True
    with applyLoop_Cons(1) Cons.prems ct show ?thesis by (simp del: applyLoop.simps)
  next
    case False
    with applyLoop_Cons(2) Cons.prems ct obtain ct1 where
      l: "applyLoop c (cc # ccs) ct = applyLoop c ccs ct1" and
      s: "stepOk c (changeSpec (mc_ids (outgoing cfg)) cc (cfgSets cfg)) ct ct1"
      by (metis fst_conv snd_conv)
    from s have ok1: "cfg_ok (fst ct1) (snd ct1)" "outgoing (fst ct1) = outgoing cfg"
      "cfgSets (fst ct1) = changeSpec (mc_ids (outgoing cfg)) cc (cfgSets cfg)"
      by (auto simp: stepOk_def ct)
    have "changesSpec (mc_ids (outgoing (fst ct1))) ccs (cfgSets (fst ct1)) =
        changesSpec (mc_ids (outgoing (fst ct))) (cc # ccs) (cfgSets (fst ct))"
      using ok1 ct by (simp add: changesSpec_def)
    with Cons.IH [OF ok1(1)] False show ?thesis
      unfolding l using stepOk_trans [OF s] by (simp del: split_paired_Ex split: if_splits) blast
  qed
qed

lemma checkInvariants_ok: "cfg_ok cfg trk \<Longrightarrow> checkInvariants cfg trk = None"
proof -
  assume ok: "cfg_ok cfg trk"
  let ?O = "mc_ids (outgoing cfg)" and ?V = "mc_ids (incoming cfg)"
  let ?L = "mc_ids (c_Learners cfg)" and ?N = "mc_ids (c_LearnersNext cfg)"
  from ok have d: "\<And>i. trk i \<noteq> None \<longleftrightarrow> i \<in> ?V \<union> ?O \<union> ?L \<union> ?N"
    and n: "?N \<subseteq> ?O - ?V" and l: "?L \<inter> (?V \<union> ?O) = {}"
    and m: "\<And>i pr. trk i = Some pr \<Longrightarrow> pr_IsLearner pr = (i \<in> ?L)"
    and out: "?O = {} \<Longrightarrow> outgoing cfg = None \<and> \<not> c_AutoLeave cfg"
    and next_nil: "?N = {} \<Longrightarrow> c_LearnersNext cfg = None"
  proof -
    fix i
    from ok have "dom trk = ?V \<union> ?O \<union> ?L \<union> ?N" by (simp add: cfg_ok_def jc_IDs_def)
    then show "trk i \<noteq> None \<longleftrightarrow> i \<in> ?V \<union> ?O \<union> ?L \<union> ?N" by (metis domIff)
    assume "?N = {}"
    then show "c_LearnersNext cfg = None"
      using ok by (cases "c_LearnersNext cfg") (simp_all add: cfg_ok_def)
  qed (use ok in \<open>simp_all add: cfg_ok_def jc_IDs_def\<close>)
  have mark: "isMarkedLearner trk i \<longleftrightarrow> i \<in> ?L" for i
    using d [of i] m [of i] by (auto simp: isMarkedLearner_def split: option.splits)
  have "is_joint cfg \<or> outgoing cfg = None \<and> c_LearnersNext cfg = None \<and> \<not> c_AutoLeave cfg"
    using out next_nil n by (auto simp: is_joint_iff)
  moreover have "trk i \<noteq> None" if "i \<in> ?V \<union> ?O \<union> ?L \<union> ?N" for i
    using d that by blast
  ultimately show ?thesis
    using n l unfolding checkInvariants_def
    by (auto simp: mark jc_IDs_def simp del: firstErr.simps)
qed

section \<open>The three operations\<close>

lemma checkAndCopy_ok:
  "tracker_ok (ch_Tracker c) \<Longrightarrow> checkAndCopy c =
     Inr (Config_Clone (t_Config (ch_Tracker c)), t_Progress (ch_Tracker c))"
  by (simp add: checkAndCopy_def checkAndReturn_def tracker_ok_def checkInvariants_ok
    cfg_ok_def Config_Clone_def)

lemma cfg_ok_Clone: "cfg_ok cfg trk \<Longrightarrow> cfg_ok (Config_Clone cfg) trk"
  by (simp add: cfg_ok_def Config_Clone_def)

lemma Clone_simps [simp]:
  "c_Voters (Config_Clone cfg) = c_Voters cfg" "c_Learners (Config_Clone cfg) = c_Learners cfg"
  "c_LearnersNext (Config_Clone cfg) = c_LearnersNext cfg" "cfgSets (Config_Clone cfg) = cfgSets cfg"
  "is_joint (Config_Clone cfg) = is_joint cfg"
  by (simp_all add: Config_Clone_def cfgSets_def is_joint_def)

lemma incoming_sets: "mc_ids (incoming cfg) = fst (cfgSets cfg)"
  by (simp add: cfgSets_def)

lemma cc_apply_ok:
  assumes ok: "cfg_ok (fst ct) (snd ct)"
    and sets: "sets = changesSpec (mc_ids (outgoing (fst ct))) ccs (cfgSets (fst ct))"
  shows "if list_ex badChange ccs then \<exists>e. cc_apply c ccs ct = Some (Inl (UnexpectedType e))
     else if fst sets = {} then cc_apply c ccs ct = Some (Inl RemovedAllVoters)
     else \<exists>ct'. cc_apply c ccs ct = Some (Inr ct') \<and> stepOk c sets ct ct'"
  using applyLoop_ok [OF ok, of ccs c]
  by (auto simp: cc_apply_def tryE_def stepOk_def incoming_sets sets simp del: split_paired_Ex
      split: if_splits)

text \<open>What \<open>Simple\<close> does, on every branch.\<close>

lemma Simple_eq:
  fixes c ccs
  defines "cfg \<equiv> t_Config (ch_Tracker c)" and "trk \<equiv> t_Progress (ch_Tracker c)"
  defines "sets \<equiv> changesSpec {} ccs (cfgSets cfg)"
  assumes ok: "tracker_ok (ch_Tracker c)"
  shows "if is_joint cfg then Simple c ccs = Some (Inl SimpleInJoint)
    else if list_ex badChange ccs then \<exists>e. Simple c ccs = Some (Inl (UnexpectedType e))
    else if fst sets = {} then Simple c ccs = Some (Inl RemovedAllVoters)
    else if card (mc_ids (incoming cfg) - fst sets) + card (fst sets - mc_ids (incoming cfg)) > 1
      then Simple c ccs = Some (Inl MoreThanOneVoter)
    else \<exists>cfg' trk'. Simple c ccs = Some (Inr (cfg', trk')) \<and> cfg_ok cfg' trk' \<and>
      cfgSets cfg' = sets \<and> \<not> is_joint cfg' \<and> trkFrom c trk trk'"
proof -
  note ok' = cfg_ok_Clone [OF ok [unfolded tracker_ok_def]]
  have sets: "\<not> is_joint cfg \<Longrightarrow> sets = changesSpec (mc_ids (outgoing (Config_Clone cfg))) ccs
      (cfgSets (Config_Clone cfg))"
    by (simp add: sets_def is_joint_iff)
  note eval = Simple_def checkAndCopy_ok [OF ok, folded cfg_def trk_def] symdiff_def incoming_sets
  show ?thesis
  proof (cases "is_joint cfg \<or> list_ex badChange ccs \<or> fst sets = {}")
    case True
    with cc_apply_ok [of "(Config_Clone cfg, trk)" sets ccs c] ok' sets show ?thesis
      by (auto simp: eval cfg_def [symmetric] trk_def [symmetric])
  next
    case False
    with cc_apply_ok [of "(Config_Clone cfg, trk)" sets ccs c] ok' sets obtain cfg' trk' where
      "cc_apply c ccs (Config_Clone cfg, trk) = Some (Inr (cfg', trk'))"
      "stepOk c sets (Config_Clone cfg, trk) (cfg', trk')"
      by (auto simp: cfg_def [symmetric] trk_def [symmetric])
    with False show ?thesis
      by (auto simp: eval stepOk_def checkAndReturn_def checkInvariants_ok is_joint_iff
        cfg_def [symmetric])
  qed
qed

text \<open>What \<open>EnterJoint\<close> does, on every branch.\<close>

lemma EnterJoint_eq:
  fixes c ccs autoLeave
  defines "cfg \<equiv> t_Config (ch_Tracker c)" and "trk \<equiv> t_Progress (ch_Tracker c)"
  defines "old \<equiv> mc_ids (incoming cfg)"
  defines "sets \<equiv> changesSpec old ccs (cfgSets cfg)"
  assumes ok: "tracker_ok (ch_Tracker c)"
  shows "if is_joint cfg then EnterJoint c autoLeave ccs = Some (Inl AlreadyJoint)
    else if old = {} then EnterJoint c autoLeave ccs = Some (Inl ZeroVoterJoint)
    else if list_ex badChange ccs then \<exists>e. EnterJoint c autoLeave ccs = Some (Inl (UnexpectedType e))
    else if fst sets = {} then EnterJoint c autoLeave ccs = Some (Inl RemovedAllVoters)
    else \<exists>cfg' trk'. EnterJoint c autoLeave ccs = Some (Inr (cfg', trk')) \<and> cfg_ok cfg' trk' \<and>
      cfgSets cfg' = sets \<and> outgoing cfg' = Some old \<and> c_AutoLeave cfg' = autoLeave \<and>
      trkFrom c trk trk'"
proof -
  let ?cfg1 = "(Config_Clone cfg)\<lparr>c_Voters := (incoming cfg, Some old)\<rparr>"
  have sets: "sets = changesSpec (mc_ids (outgoing ?cfg1)) ccs (cfgSets ?cfg1)"
    by (simp add: sets_def cfgSets_def)
  have cfg: "cfg_ok cfg trk" using ok by (simp add: tracker_ok_def cfg_def trk_def)
  have ok1: "cfg_ok ?cfg1 trk" if "\<not> is_joint cfg" "old \<noteq> {}"
    using cfg that by (auto simp: cfg_ok_def is_joint_iff jc_IDs_def old_def)
  note eval = EnterJoint_def checkAndCopy_ok [OF ok, folded cfg_def trk_def] Let_def
    old_def [symmetric]
  show ?thesis
  proof (cases "is_joint cfg \<or> old = {}")
    case True
    then show ?thesis by (auto simp: eval simp flip: cfg_def trk_def)
  next
    case nj: False
    with ok1 cc_apply_ok [of "(?cfg1, trk)" sets ccs c] sets have
      app: "if list_ex badChange ccs then \<exists>e. cc_apply c ccs (?cfg1, trk) = Some (Inl (UnexpectedType e))
       else if fst sets = {} then cc_apply c ccs (?cfg1, trk) = Some (Inl RemovedAllVoters)
       else \<exists>ct'. cc_apply c ccs (?cfg1, trk) = Some (Inr ct') \<and> stepOk c sets (?cfg1, trk) ct'"
      by simp
    show ?thesis
    proof (cases "list_ex badChange ccs \<or> fst sets = {}")
      case True
      with app nj show ?thesis by (auto simp: eval simp flip: cfg_def trk_def split: if_splits)
    next
      case False
      with app obtain cfg' trk' where
        a: "cc_apply c ccs (?cfg1, trk) = Some (Inr (cfg', trk'))"
        "stepOk c sets (?cfg1, trk) (cfg', trk')" by auto
      then have "cfg_ok (cfg'\<lparr>c_AutoLeave := autoLeave\<rparr>) trk'"
        using nj by (auto simp: stepOk_def cfg_ok_def old_def)
      with False nj a show ?thesis
        by (auto simp: eval stepOk_def checkAndReturn_def checkInvariants_ok cfgSets_def
          simp flip: cfg_def trk_def)
    qed
  qed
qed

lemma promote_all:
  "set ids \<subseteq> dom trk \<Longrightarrow> foldO promoteLearner ids (cfg, trk) =
     Some (cfg\<lparr>c_Learners := fold nilAwareAdd ids (c_Learners cfg)\<rparr>,
       \<lambda>i. if i \<in> set ids then map_option (pr_IsLearner_update (\<lambda>_. True)) (trk i) else trk i)"
proof (induction ids arbitrary: cfg trk)
  case (Cons i ids)
  then obtain pr where pr: "trk i = Some pr" by auto
  let ?trk = "trk(i \<mapsto> pr\<lparr>pr_IsLearner := True\<rparr>)"
  have "set ids \<subseteq> dom ?trk" using Cons.prems by auto
  note ih = Cons.IH [OF this]
  have "promoteLearner i (cfg, trk) = Some (cfg\<lparr>c_Learners := nilAwareAdd i (c_Learners cfg)\<rparr>, ?trk)"
    using pr by (simp add: promoteLearner_def)
  then show ?case using pr by (auto simp: ih fun_eq_iff)
qed simp

lemma fold_nilAwareAdd: "mc_ids (fold nilAwareAdd ids m) = set ids \<union> mc_ids m"
  "m \<noteq> Some {} \<Longrightarrow> fold nilAwareAdd ids m \<noteq> Some {}"
  by (induction ids arbitrary: m) auto

lemma drop_all:
  "fold (dropOutgoing cfg) ids trk =
     (\<lambda>i. if i \<in> set ids \<and> i \<notin> mc_ids (incoming cfg) \<and> i \<notin> mc_ids (c_Learners cfg) then None else trk i)"
  by (induction ids arbitrary: trk) (auto simp: dropOutgoing_def fun_eq_iff)

lemma LeaveJoint_eq:
  fixes c
  defines "cfg \<equiv> t_Config (ch_Tracker c)" and "trk \<equiv> t_Progress (ch_Tracker c)"
  assumes ok: "tracker_ok (ch_Tracker c)"
  shows "if \<not> is_joint cfg then LeaveJoint c = Some (Inl NotJoint)
    else \<exists>cfg' trk'. LeaveJoint c = Some (Inr (cfg', trk')) \<and> cfg_ok cfg' trk' \<and>
      cfgSets cfg' = (mc_ids (incoming cfg), mc_ids (c_Learners cfg) \<union> mc_ids (c_LearnersNext cfg), {}) \<and>
      \<not> is_joint cfg' \<and> trkFrom c trk trk' \<and> trkVia c (mc_ids (outgoing cfg) - members cfg') trk trk'"
proof (cases "is_joint cfg")
  case True
  let ?L = "mc_ids (c_Learners cfg)" and ?N = "mc_ids (c_LearnersNext cfg)"
  let ?V = "mc_ids (incoming cfg)" and ?O = "mc_ids (outgoing cfg)"
  let ?cfg' = "(Config_Clone cfg)\<lparr>c_Learners := fold nilAwareAdd (mc_Slice (c_LearnersNext cfg)) (c_Learners cfg),
     c_LearnersNext := None, c_Voters := (incoming cfg, None), c_AutoLeave := False\<rparr>"
  let ?trk' = "\<lambda>i. if i \<in> ?O \<and> i \<notin> ?V \<and> i \<notin> ?N \<union> ?L then None
     else if i \<in> ?N then map_option (pr_IsLearner_update (\<lambda>_. True)) (trk i) else trk i"
  have cfg: "cfg_ok cfg trk" using ok by (simp add: tracker_ok_def cfg_def trk_def)
  then have dom: "dom trk = ?V \<union> ?O \<union> ?L \<union> ?N" "?N \<subseteq> ?O - ?V" "?L \<inter> (?V \<union> ?O) = {}"
    and mark: "\<And>i pr. trk i = Some pr \<Longrightarrow> pr_IsLearner pr = (i \<in> ?L)"
    by (simp_all add: cfg_ok_def jc_IDs_def)
  have "set (mc_Slice (c_LearnersNext cfg)) \<subseteq> dom trk" using dom by auto
  note p = promote_all [OF this, of "Config_Clone cfg"]
  have run: "LeaveJoint c = Some (checkAndReturn ?cfg' ?trk')"
    using True unfolding LeaveJoint_def
    by (simp add: checkAndCopy_ok [OF ok, folded cfg_def trk_def] p drop_all fold_nilAwareAdd)
  have "dom ?trk' = ?V \<union> (?N \<union> ?L)"
  proof (intro set_eqI)
    fix i show "i \<in> dom ?trk' \<longleftrightarrow> i \<in> ?V \<union> (?N \<union> ?L)"
      using dom(2,3) arg_cong [OF dom(1), of "\<lambda>S. i \<in> S"] by (auto simp: dom_def)
  qed
  moreover have "pr_IsLearner pr = (i \<in> ?N \<union> ?L)" if "?trk' i = Some pr" for i pr
    using that mark [of i] by (auto split: if_splits)
  moreover have "(?N \<union> ?L) \<inter> ?V = {}" using dom by auto
  ultimately have ok': "cfg_ok ?cfg' ?trk'"
    using cfg
    by (simp add: cfg_ok_def jc_IDs_def fold_nilAwareAdd)
  moreover have "trkFrom c trk ?trk'"
    using trkFrom_refl [of c trk] unfolding trkFrom_def by (auto split: if_splits)
  moreover have "trkVia c (?O - members ?cfg') trk ?trk'"
    using cfg unfolding trkVia_def origin_def by (auto simp: members_def jc_IDs_def fold_nilAwareAdd split: option.splits)
  moreover have "LeaveJoint c = Some (Inr (?cfg', ?trk'))"
    unfolding run checkAndReturn_def checkInvariants_ok [OF ok'] by simp
  moreover have "cfgSets ?cfg' = (?V, ?L \<union> ?N, {})" "\<not> is_joint ?cfg'"
    by (auto simp: cfgSets_def fold_nilAwareAdd is_joint_iff)
  ultimately show ?thesis using True by (simp only: if_True not_True_eq_False if_False) blast
next
  case False
  then show ?thesis
    by (auto simp: LeaveJoint_def checkAndCopy_ok [OF ok, folded cfg_def trk_def])
qed

section \<open>The progress map after a change\<close>

lemma trkVia_same: "D \<inter> dom trk = {} \<Longrightarrow> trkVia c D trk trk"
  by (auto simp: trkVia_def origin_def)

lemma trkVia_upd:
  "trk i = Some pr \<Longrightarrow> trkVia c {} trk (trk(i \<mapsto> pr\<lparr>pr_IsLearner := b\<rparr>))"
  "trk i = Some pr \<Longrightarrow> trkVia c {} trk (trk(i \<mapsto> pr))"
  "trk i = None \<Longrightarrow> trkVia c {} trk (trk(i \<mapsto> newProgress (max (ch_LastIndex c) 1) (t_MaxInflight (ch_Tracker c))
               (t_MaxInflightBytes (ch_Tracker c)) b))"
  "trkVia c {i} trk (trk(i := None))"
  by (auto simp: trkVia_def origin_def newProgress_def)

lemma trkVia_trans:
  assumes 1: "trkVia c D t1 t2" and 2: "trkVia c E t2 t3"
  shows "trkVia c (D \<union> E) t1 t3"
proof -
  have "pr' = (origin c (D \<union> E) t1 i)\<lparr>pr_IsLearner := pr_IsLearner pr'\<rparr>" if p: "t3 i = Some pr'" for i pr'
  proof -
    have e: "pr' = (origin c E t2 i)\<lparr>pr_IsLearner := pr_IsLearner pr'\<rparr>" using 2 p by (simp add: trkVia_def)
    show ?thesis
    proof (cases "t2 i")
      case None
      then have "t1 i = None \<or> i \<in> D" using 1 by (auto simp: trkVia_def)
      then show ?thesis using e None by (auto simp: origin_def split: option.splits)
    next
      case (Some p2)
      then have p2: "p2 = (origin c D t1 i)\<lparr>pr_IsLearner := pr_IsLearner p2\<rparr>" using 1 by (simp add: trkVia_def)
      show ?thesis
      proof (cases "i \<in> E")
        case True
        then have "origin c E t2 i = origin c (D \<union> E) t1 i" using Some by (simp add: origin_def split: option.split)
        then show ?thesis using e by simp
      next
        case False
        then have o: "origin c E t2 i = p2" "origin c (D \<union> E) t1 i = origin c D t1 i"
          using Some by (simp_all add: origin_def split: option.split)
        have "p2\<lparr>pr_IsLearner := b\<rparr> = (origin c D t1 i)\<lparr>pr_IsLearner := b\<rparr>" for b by (subst p2) simp
        then show ?thesis using e unfolding o by simp
      qed
    qed
  qed
  then show ?thesis using 1 2 by (auto simp: trkVia_def)
qed

lemma addIncoming_outgoing: "addIncoming i cfg = Some cfg' \<Longrightarrow> outgoing cfg' = outgoing cfg"
  by (auto simp: addIncoming_def split: option.splits)

lemma makeVoter_via: "makeVoter c i ct = Some ct' \<Longrightarrow> outgoing (fst ct') = outgoing (fst ct) \<and> trkVia c {} (snd ct) (snd ct')"
  by (cases ct) (auto simp: makeVoter_def initProgress_eq bind_eq_Some_conv trkVia_upd dest: addIncoming_outgoing split: option.splits)

lemma cc_remove_via: "outgoing (fst (cc_remove i ct)) = outgoing (fst ct) \<and>
    trkVia c ({i} - mc_ids (outgoing (fst ct))) (snd ct) (snd (cc_remove i ct))"
  by (cases ct) (auto simp: cc_remove_def Let_def insert_Diff_if trkVia_upd trkVia_same domIff)

lemma makeLearner_via:
  assumes "makeLearner c i ct = Some ct'"
  shows "outgoing (fst ct') = outgoing (fst ct) \<and> trkVia c {} (snd ct) (snd ct')"
proof (cases "snd ct i")
  case None
  with assms show ?thesis by (cases ct) (auto simp: makeLearner_def initProgress_eq trkVia_upd)
next
  case (Some pr)
  have "(snd (cc_remove i ct))(i \<mapsto> p) = (snd ct)(i \<mapsto> p)" for p
    by (cases ct) (simp add: cc_remove_def Let_def)
  with Some assms cc_remove_via [of i ct] show ?thesis
    by (cases "cc_remove i ct") (auto simp: makeLearner_def Let_def trkVia_upd trkVia_same split: if_splits)
qed

lemma applyLoop_via:
  "applyLoop c ccs ct = Some (Inr ct') \<Longrightarrow> outgoing (fst ct') = outgoing (fst ct) \<and>
     trkVia c (droppedBy (mc_ids (outgoing (fst ct))) ccs) (snd ct) (snd ct')"
proof (induction ccs arbitrary: ct)
  case Nil
  then show ?case by (simp add: droppedBy_def trkVia_same)
next
  case (Cons cc ccs)
  let ?i = "ccs_NodeId cc" and ?out = "mc_ids (outgoing (fst ct))"
  let ?D = "if ccs_Type cc = ConfChangeRemoveNode then {?i} - ?out - {0} else {}"
  have split: "droppedBy ?out (cc # ccs) = ?D \<union> droppedBy ?out ccs" by (auto simp: droppedBy_def)
  obtain ct1 where 1: "applyLoop c ccs ct1 = Some (Inr ct')" "outgoing (fst ct1) = outgoing (fst ct)"
    "trkVia c ?D (snd ct) (snd ct1)"
  proof (cases "?i = 0")
    case True
    then have "?D = {}" by simp
    then show thesis using Cons.prems that [of ct] True by (simp add: trkVia_same)
  next
    case False
    then show thesis
      using Cons.prems that makeVoter_via [of c ?i ct] makeLearner_via [of c ?i ct] cc_remove_via [of ?i ct c]
      by (cases "ccs_Type cc") (auto simp: bind_eq_Some_conv trkVia_same)
  qed
  show ?case using Cons.IH [OF 1(1)] 1(2) trkVia_trans [OF 1(3)] unfolding split by simp
qed

lemma cfg_ok_progress:
  assumes ok: "cfg_ok cfg trk" and via: "trkVia c D (t_Progress (ch_Tracker c)) trk"
  shows "trk = progressSpec c D cfg"
proof
  fix i
  show "trk i = progressSpec c D cfg i"
  proof (cases "trk i")
    case None
    then have "i \<notin> members cfg" using ok by (auto simp: cfg_ok_def members_def)
    then show ?thesis using None by (simp add: progressSpec_def)
  next
    case (Some pr)
    then have "i \<in> members cfg" "pr_IsLearner pr = (i \<in> mc_ids (c_Learners cfg))"
      "pr = (origin c D (t_Progress (ch_Tracker c)) i)\<lparr>pr_IsLearner := pr_IsLearner pr\<rparr>"
      using ok via by (auto simp: cfg_ok_def members_def trkVia_def)
    then show ?thesis using Some by (simp add: progressSpec_def)
  qed
qed

lemma Simple_progress:
  assumes ok: "tracker_ok (ch_Tracker c)" and run: "Simple c ccs = Some (Inr (cfg', trk'))"
  shows "trk' = progressSpec c (droppedBy {} ccs) cfg'"
proof (rule cfg_ok_progress)
  show "cfg_ok cfg' trk'" using Simple_eq [OF ok, of ccs] run by (auto split: if_splits)
  have nj: "\<not> is_joint (t_Config (ch_Tracker c))" using Simple_eq [OF ok, of ccs] run by (auto split: if_splits)
  then have "\<exists>cfg1. applyLoop c ccs (Config_Clone (t_Config (ch_Tracker c)), t_Progress (ch_Tracker c)) = Some (Inr (cfg1, trk'))"
    using run by (auto simp: Simple_def checkAndCopy_ok [OF ok] cc_apply_def checkAndReturn_def
      split: if_splits option.splits)
  then show "trkVia c (droppedBy {} ccs) (t_Progress (ch_Tracker c)) trk'"
    using applyLoop_via nj by (fastforce simp: is_joint_iff)
qed

lemma EnterJoint_progress:
  assumes ok: "tracker_ok (ch_Tracker c)" and run: "EnterJoint c autoLeave ccs = Some (Inr (cfg', trk'))"
  shows "trk' = progressSpec c (droppedBy (mc_ids (incoming (t_Config (ch_Tracker c)))) ccs) cfg'"
proof (rule cfg_ok_progress)
  let ?cfg = "t_Config (ch_Tracker c)"
  show "cfg_ok cfg' trk'" using EnterJoint_eq [OF ok, of autoLeave ccs] run by (auto split: if_splits)
  have "\<exists>cfg1. applyLoop c ccs ((Config_Clone ?cfg)\<lparr>c_Voters := (incoming ?cfg, Some (mc_ids (incoming ?cfg)))\<rparr>,
      t_Progress (ch_Tracker c)) = Some (Inr (cfg1, trk'))"
    using run by (auto simp: EnterJoint_def checkAndCopy_ok [OF ok] cc_apply_def checkAndReturn_def Let_def
      split: if_splits option.splits)
  then show "trkVia c (droppedBy (mc_ids (incoming ?cfg)) ccs) (t_Progress (ch_Tracker c)) trk'"
    using applyLoop_via by fastforce
qed

lemma LeaveJoint_progress:
  assumes ok: "tracker_ok (ch_Tracker c)" and run: "LeaveJoint c = Some (Inr (cfg', trk'))"
  shows "trk' = progressSpec c {} cfg'"
proof -
  let ?D = "mc_ids (outgoing (t_Config (ch_Tracker c))) - members cfg'"
  have "cfg_ok cfg' trk'" "trkVia c ?D (t_Progress (ch_Tracker c)) trk'"
    using LeaveJoint_eq [OF ok] run by (auto split: if_splits)
  then have "trk' = progressSpec c ?D cfg'" by (rule cfg_ok_progress)
  also have "\<dots> = progressSpec c {} cfg'" by (auto simp: progressSpec_def origin_def fun_eq_iff split: option.split)
  finally show ?thesis .
qed

section \<open>Majorities of neighbouring configurations meet\<close>

lemma neighbour_majorities_meet:
  fixes a b S T :: "u64 set"
  assumes "card (a - b) + card (b - a) \<le> 1"
    "card a div 2 + 1 \<le> card (S \<inter> a)" "card b div 2 + 1 \<le> card (T \<inter> b)"
  shows "S \<inter> T \<noteq> {}"
proof
  assume disj: "S \<inter> T = {}"
  have "card (S \<inter> a) + card (T \<inter> b) = card (S \<inter> a \<union> T \<inter> b)"
    using disj by (intro card_Un_disjoint [symmetric]) auto
  also have "\<dots> \<le> card (a \<union> b)" by (intro card_mono) auto
  finally have "card (S \<inter> a) + card (T \<inter> b) \<le> card (a \<union> b)" .
  moreover have "card (a \<union> b) = card (a - b) + card b"
    using card_Un_disjoint [of "a - b" b] by (auto simp: Un_commute)
  moreover have "card (a \<union> b) = card (b - a) + card a"
    using card_Un_disjoint [of "b - a" a] by (auto simp: Un_commute)
  ultimately show False using assms by linarith
qed

section \<open>Properties\<close>

text \<open>
  C28: on a tracker whose configuration and progress map are consistent, \<open>Simple\<close>,
  \<open>EnterJoint\<close> and \<open>LeaveJoint\<close> never panic, and what they return is consistent again:
  it passes \<open>checkInvariants\<close>, every peer of the configuration and no other has a
  progress, learners and voters are disjoint, and each progress is the old one with at
  most the learner flag changed, or the initial one of a new peer.
\<close>

theorem Changer_keeps_invariant:
  assumes "tracker_ok (ch_Tracker c)"
    and "r \<in> {Simple c ccs, EnterJoint c autoLeave ccs, LeaveJoint c}"
  shows "r \<noteq> None \<and> (\<forall>cfg trk. r = Some (Inr (cfg, trk)) \<longrightarrow>
     cfg_ok cfg trk \<and> checkInvariants cfg trk = None \<and> trkFrom c (t_Progress (ch_Tracker c)) trk)"
proof -
  have "(\<exists>e. r = Some (Inl e)) \<or> (\<exists>cfg trk. r = Some (Inr (cfg, trk)) \<and> cfg_ok cfg trk \<and>
      trkFrom c (t_Progress (ch_Tracker c)) trk)"
    using assms(2) Simple_eq [OF assms(1), of ccs] EnterJoint_eq [OF assms(1), of autoLeave ccs]
      LeaveJoint_eq [OF assms(1)]
    by (elim insertE emptyE) (simp_all split: if_splits, blast+)
  then show ?thesis by (auto simp: checkInvariants_ok)
qed

theorem Changer_keeps_invariant_witness:
  "Simple \<lparr>ch_Tracker = MakeProgressTracker 4 0, ch_LastIndex = 3\<rparr>
     [\<lparr>ccs_Type = ConfChangeAddNode, ccs_NodeId = 1\<rparr>] \<noteq> None"
  using Changer_keeps_invariant
    [of "\<lparr>ch_Tracker = MakeProgressTracker 4 0, ch_LastIndex = 3\<rparr>"
        "Simple \<lparr>ch_Tracker = MakeProgressTracker 4 0, ch_LastIndex = 3\<rparr>
           [\<lparr>ccs_Type = ConfChangeAddNode, ccs_NodeId = 1\<rparr>]"
        "[\<lparr>ccs_Type = ConfChangeAddNode, ccs_NodeId = 1\<rparr>]" False]
  by (simp add: tracker_ok_def cfg_ok_def MakeProgressTracker_def emptyConfig_def jc_IDs_def)

text \<open>
  C29: the Changer computes the specified configuration and progress map. On a consistent
  tracker, \<open>Simple\<close> succeeds exactly when the configuration is not joint, every change has a
  known type, a voter remains and at most one voter differs, and then the voters, learners
  and staged learners are the set-level result of the changes; \<open>EnterJoint\<close> succeeds exactly
  when the configuration has voters and is not joint, the types are known and a voter
  remains, keeps the old voters as the outgoing half and records \<open>autoLeave\<close>; \<open>LeaveJoint\<close>
  succeeds exactly on a joint configuration, drops the outgoing half and turns the staged
  learners into learners. In each case the members of the new configuration are tracked and
  no other peers; a member that was tracked keeps its progress unless a change of \<open>Simple\<close>
  or \<open>EnterJoint\<close> has removed it in between (which does not drop an outgoing voter), all
  others start with the initial progress, and exactly the learners are marked as learners.
\<close>

theorem Changer_refines_sets:
  assumes "tracker_ok (ch_Tracker c)"
  defines "cfg \<equiv> t_Config (ch_Tracker c)"
  defines "old \<equiv> mc_ids (incoming cfg)"
  shows "((\<exists>ct. Simple c ccs = Some (Inr ct)) \<longleftrightarrow>
      \<not> is_joint cfg \<and> \<not> list_ex badChange ccs \<and> fst (changesSpec {} ccs (cfgSets cfg)) \<noteq> {} \<and>
      card (old - fst (changesSpec {} ccs (cfgSets cfg))) +
      card (fst (changesSpec {} ccs (cfgSets cfg)) - old) \<le> 1) \<and>
    (\<forall>cfg' trk'. Simple c ccs = Some (Inr (cfg', trk')) \<longrightarrow>
      cfgSets cfg' = changesSpec {} ccs (cfgSets cfg) \<and> \<not> is_joint cfg' \<and>
      trk' = progressSpec c (droppedBy {} ccs) cfg') \<and>
    ((\<exists>ct. EnterJoint c autoLeave ccs = Some (Inr ct)) \<longleftrightarrow>
      \<not> is_joint cfg \<and> old \<noteq> {} \<and> \<not> list_ex badChange ccs \<and>
      fst (changesSpec old ccs (cfgSets cfg)) \<noteq> {}) \<and>
    (\<forall>cfg' trk'. EnterJoint c autoLeave ccs = Some (Inr (cfg', trk')) \<longrightarrow>
      cfgSets cfg' = changesSpec old ccs (cfgSets cfg) \<and> outgoing cfg' = Some old \<and>
      c_AutoLeave cfg' = autoLeave \<and> trk' = progressSpec c (droppedBy old ccs) cfg') \<and>
    ((\<exists>ct. LeaveJoint c = Some (Inr ct)) \<longleftrightarrow> is_joint cfg) \<and>
    (\<forall>cfg' trk'. LeaveJoint c = Some (Inr (cfg', trk')) \<longrightarrow>
      cfgSets cfg' = (old, mc_ids (c_Learners cfg) \<union> mc_ids (c_LearnersNext cfg), {}) \<and>
      \<not> is_joint cfg' \<and> trk' = progressSpec c {} cfg')"
proof -
  note facts = Simple_eq [OF assms(1), of ccs] EnterJoint_eq [OF assms(1), of autoLeave ccs]
    LeaveJoint_eq [OF assms(1)]
  note progress = Simple_progress [OF assms(1)] EnterJoint_progress [OF assms(1)] LeaveJoint_progress [OF assms(1)]
  show ?thesis unfolding old_def cfg_def
    by (intro conjI allI impI; (erule progress)?; insert facts; simp split: if_splits; auto)
qed

text \<open>
  A joint configuration in which 3 moves from voter to learner and 4 leaves: on leaving it, 3
  keeps its progress as a learner and 4 is no longer tracked.
\<close>

theorem Changer_refines_sets_witness:
  "\<exists>cfg' trk'. LeaveJoint sampleJoint = Some (Inr (cfg', trk')) \<and> cfgSets cfg' = ({1, 2}, {3}, {}) \<and>
     trk' = [1 \<mapsto> newProgress 7 4 0 False, 2 \<mapsto> newProgress 8 4 0 False, 3 \<mapsto> newProgress 9 4 0 True]"
proof -
  have ok: "tracker_ok (ch_Tracker sampleJoint)"
    by (auto simp: tracker_ok_def cfg_ok_def sampleJoint_def MakeProgressTracker_def emptyConfig_def jc_IDs_def
      newProgress_def split: if_splits)
  note T = Changer_refines_sets [OF ok, of "[]" False]
  have j: "is_joint (t_Config (ch_Tracker sampleJoint))" by (simp add: is_joint_iff sampleJoint_def)
  then obtain cfg' trk' where r: "LeaveJoint sampleJoint = Some (Inr (cfg', trk'))" using T by auto
  then have sets: "cfgSets cfg' = ({1, 2}, {3}, {})" and nj: "mc_ids (outgoing cfg') = {}"
    and trk: "trk' = progressSpec sampleJoint {} cfg'"
    using T by (auto simp: sampleJoint_def emptyConfig_def is_joint_iff)
  from sets nj have "members cfg' = {1, 2, 3}" "mc_ids (c_Learners cfg') = {3}"
    by (auto simp: cfgSets_def members_def jc_IDs_def)
  then have "trk' = [1 \<mapsto> newProgress 7 4 0 False, 2 \<mapsto> newProgress 8 4 0 False, 3 \<mapsto> newProgress 9 4 0 True]"
    unfolding trk by (auto simp: progressSpec_def origin_def sampleJoint_def newProgress_def fun_eq_iff)
  with r sets show ?thesis by blast
qed

lemma joint_incoming: "jointMajorityOf (c_Voters cfg) S \<Longrightarrow> majorityOf (incoming cfg) S"
  by (simp add: jointMajorityOf_def)

text \<open>
  C12: a simple change is safe. If \<open>Simple\<close> turns a non-empty configuration into another,
  every quorum of the old configuration and every quorum of the new one share a peer, so
  no two leaders can be elected, and no entry committed and forgotten, across the change.
\<close>

theorem Simple_quorums_overlap:
  assumes ok: "tracker_ok (ch_Tracker c)"
    and run: "Simple c ccs = Some (Inr (cfg', trk'))"
    and ne: "mc_ids (incoming (t_Config (ch_Tracker c))) \<noteq> {}"
    and old: "jointMajorityOf (c_Voters (t_Config (ch_Tracker c))) S"
    and new: "jointMajorityOf (c_Voters cfg') T"
  shows "S \<inter> T \<noteq> {}"
proof (rule neighbour_majorities_meet)
  let ?old = "mc_ids (incoming (t_Config (ch_Tracker c)))" and ?new = "mc_ids (incoming cfg')"
  from Simple_eq [OF ok, of ccs] run have d: "card (?old - ?new) + card (?new - ?old) \<le> 1" "?new \<noteq> {}"
    by (auto simp: incoming_sets split: if_splits)
  then show "card (?old - ?new) + card (?new - ?old) \<le> 1" by simp
  show "card ?old div 2 + 1 \<le> card (S \<inter> ?old)"
    using joint_incoming [OF old] ne by (simp add: majorityOf_def)
  show "card ?new div 2 + 1 \<le> card (T \<inter> ?new)"
    using joint_incoming [OF new] d(2) by (simp add: majorityOf_def)
qed

theorem Simple_quorums_overlap_witness:
  "\<exists>cfg' trk'. Simple \<lparr>ch_Tracker = (MakeProgressTracker 4 0)
        \<lparr>t_Config := emptyConfig\<lparr>c_Voters := (Some {1, 2, 3}, None)\<rparr>,
         t_Progress := [1 \<mapsto> newProgress 1 4 0 False, 2 \<mapsto> newProgress 1 4 0 False,
                        3 \<mapsto> newProgress 1 4 0 False]\<rparr>, ch_LastIndex = 3\<rparr>
     [\<lparr>ccs_Type = ConfChangeAddNode, ccs_NodeId = 4\<rparr>] = Some (Inr (cfg', trk')) \<and>
     jointMajorityOf (c_Voters cfg') {2, 3, 4} \<and> {1, 2} \<inter> {2, 3, 4 :: u64} \<noteq> {}"
proof -
  let ?c = "\<lparr>ch_Tracker = (MakeProgressTracker 4 0)
        \<lparr>t_Config := emptyConfig\<lparr>c_Voters := (Some {1, 2, 3}, None)\<rparr>,
         t_Progress := [1 \<mapsto> newProgress 1 4 0 False, 2 \<mapsto> newProgress 1 4 0 False,
                        3 \<mapsto> newProgress 1 4 0 False]\<rparr>, ch_LastIndex = 3\<rparr>"
  have ok: "tracker_ok (ch_Tracker ?c)"
    by (auto simp: tracker_ok_def cfg_ok_def MakeProgressTracker_def emptyConfig_def jc_IDs_def
      newProgress_def split: if_splits)
  obtain cfg' trk' where r:
    "Simple ?c [\<lparr>ccs_Type = ConfChangeAddNode, ccs_NodeId = 4\<rparr>] = Some (Inr (cfg', trk'))"
    "cfgSets cfg' = (insert 4 {1, 2, 3}, {}, {})" "\<not> is_joint cfg'"
    using Simple_eq [OF ok, of "[\<lparr>ccs_Type = ConfChangeAddNode, ccs_NodeId = 4\<rparr>]"]
    by (auto simp: MakeProgressTracker_def emptyConfig_def is_joint_iff badChange_def
      changesSpec_def cfgSets_def Let_def insert_Diff_if split: if_splits)
  then have "jointMajorityOf (c_Voters cfg') {2, 3, 4}"
    by (simp add: jointMajorityOf_def majorityOf_def cfgSets_def is_joint_iff insert_commute)
  with r Simple_quorums_overlap [OF ok r(1), of "{1, 2}" "{2, 3, 4}"] show ?thesis
    by (auto simp: MakeProgressTracker_def jointMajorityOf_def majorityOf_def)
qed

text \<open>
  C13: joint consensus is safe for arbitrary changes. A quorum of the configuration that
  \<open>EnterJoint\<close> returns meets every quorum of the configuration it started from, and it
  meets every quorum of the configuration that a later \<open>LeaveJoint\<close> returns.
\<close>

theorem Joint_quorums_overlap:
  assumes ok: "tracker_ok (ch_Tracker c)"
    and enter: "EnterJoint c autoLeave ccs = Some (Inr (cfgJ, trkJ))"
    and ok': "tracker_ok (ch_Tracker c')" and same: "t_Config (ch_Tracker c') = cfgJ"
    and leave: "LeaveJoint c' = Some (Inr (cfgN, trkN))"
    and quorums: "jointMajorityOf (c_Voters (t_Config (ch_Tracker c))) S"
      "jointMajorityOf (c_Voters cfgJ) T" "jointMajorityOf (c_Voters cfgN) U"
  shows "S \<inter> T \<noteq> {} \<and> T \<inter> U \<noteq> {}"
proof -
  let ?old = "mc_ids (incoming (t_Config (ch_Tracker c)))"
  from EnterJoint_eq [OF ok, of autoLeave ccs] enter have
    j: "mc_ids (outgoing cfgJ) = ?old" "?old \<noteq> {}" "mc_ids (incoming cfgJ) \<noteq> {}"
    by (auto simp: incoming_sets split: if_splits)
  from LeaveJoint_eq [OF ok'] leave have
    n: "mc_ids (incoming cfgN) = mc_ids (incoming cfgJ)"
    by (auto simp: cfgSets_def same split: if_splits)
  have "S \<inter> T \<noteq> {}"
    by (rule neighbour_majorities_meet [of ?old ?old])
      (use quorums(1,2) j in \<open>auto simp: jointMajorityOf_def majorityOf_def\<close>)
  moreover have "T \<inter> U \<noteq> {}"
    by (rule neighbour_majorities_meet [of "mc_ids (incoming cfgJ)" "mc_ids (incoming cfgJ)"])
      (use quorums(2,3) j n in \<open>auto simp: jointMajorityOf_def majorityOf_def\<close>)
  ultimately show ?thesis by blast
qed

theorem Joint_quorums_overlap_witness:
  "\<exists>cfgJ trkJ cfgN trkN.
     EnterJoint \<lparr>ch_Tracker = (MakeProgressTracker 4 0)
        \<lparr>t_Config := emptyConfig\<lparr>c_Voters := (Some {1, 2, 3}, None)\<rparr>,
         t_Progress := [1 \<mapsto> newProgress 1 4 0 False, 2 \<mapsto> newProgress 1 4 0 False,
                        3 \<mapsto> newProgress 1 4 0 False]\<rparr>, ch_LastIndex = 3\<rparr> True
       [\<lparr>ccs_Type = ConfChangeRemoveNode, ccs_NodeId = 1\<rparr>,
        \<lparr>ccs_Type = ConfChangeAddNode, ccs_NodeId = 4\<rparr>] = Some (Inr (cfgJ, trkJ)) \<and>
     LeaveJoint \<lparr>ch_Tracker = (MakeProgressTracker 4 0)\<lparr>t_Config := cfgJ, t_Progress := trkJ\<rparr>,
       ch_LastIndex = 3\<rparr> = Some (Inr (cfgN, trkN)) \<and>
     jointMajorityOf (c_Voters cfgN) {3, 4} \<and> {2, 3 :: u64} \<inter> {3, 4} \<noteq> {}"
proof -
  let ?c = "\<lparr>ch_Tracker = (MakeProgressTracker 4 0)
        \<lparr>t_Config := emptyConfig\<lparr>c_Voters := (Some {1, 2, 3}, None)\<rparr>,
         t_Progress := [1 \<mapsto> newProgress 1 4 0 False, 2 \<mapsto> newProgress 1 4 0 False,
                        3 \<mapsto> newProgress 1 4 0 False]\<rparr>, ch_LastIndex = 3\<rparr>"
  let ?ccs = "[\<lparr>ccs_Type = ConfChangeRemoveNode, ccs_NodeId = 1\<rparr>,
        \<lparr>ccs_Type = ConfChangeAddNode, ccs_NodeId = 4\<rparr>]"
  have ok: "tracker_ok (ch_Tracker ?c)"
    by (auto simp: tracker_ok_def cfg_ok_def MakeProgressTracker_def emptyConfig_def jc_IDs_def
      newProgress_def split: if_splits)
  have sp: "changesSpec {1, 2, 3} ?ccs ({1, 2, 3}, {}, {}) = ({2, 3, 4}, {}, {})"
    by (auto simp: changesSpec_def Let_def)
  obtain cfgJ trkJ where e: "EnterJoint ?c True ?ccs = Some (Inr (cfgJ, trkJ))" "cfg_ok cfgJ trkJ"
    "cfgSets cfgJ = ({2, 3, 4}, {}, {})" "outgoing cfgJ = Some {1, 2, 3}"
    using EnterJoint_eq [OF ok, of True ?ccs]
    by (auto simp: MakeProgressTracker_def emptyConfig_def is_joint_iff badChange_def
      cfgSets_def sp)
  let ?c' = "\<lparr>ch_Tracker = (MakeProgressTracker 4 0)\<lparr>t_Config := cfgJ, t_Progress := trkJ\<rparr>,
       ch_LastIndex = 3\<rparr>"
  have ok': "tracker_ok (ch_Tracker ?c')" using e by (simp add: tracker_ok_def)
  obtain cfgN trkN where l: "LeaveJoint ?c' = Some (Inr (cfgN, trkN))"
    "mc_ids (incoming cfgN) = {2, 3, 4}" "\<not> is_joint cfgN"
    using LeaveJoint_eq [OF ok'] e by (auto simp: is_joint_iff cfgSets_def)
  have q: "jointMajorityOf (c_Voters cfgN) {3, 4}"
    using l by (simp add: jointMajorityOf_def majorityOf_def is_joint_iff)
  have "{1, 2} \<inter> {2, 3 :: u64} \<noteq> {} \<and> {2, 3 :: u64} \<inter> {3, 4} \<noteq> {}"
    by (rule Joint_quorums_overlap [OF ok e(1) ok' _ l(1)])
      (use e(3,4) q in \<open>auto simp: MakeProgressTracker_def jointMajorityOf_def majorityOf_def cfgSets_def\<close>)
  with e l q show ?thesis by blast
qed

end
