(* ===== verification/Restore.thy ===== *)
theory Restore
  imports ConfChange
begin

text \<open>
  \<open>confchange/restore.go\<close>: rebuilding a configuration from the \<open>ConfState\<close> of a snapshot
  by a chain of configuration changes. The property is the round trip that \<open>raft.go\<close>
  asserts at start-up and on every snapshot (\<open>assertConfStatesEquivalent\<close>).
\<close>

section \<open>Model\<close>

definition singleChange :: "ConfChangeType \<Rightarrow> u64 \<Rightarrow> ConfChangeSingle" where
  "singleChange t i = \<lparr>ccs_Type = t, ccs_NodeId = i\<rparr>"

definition toConfChangeSingle :: "ConfState \<Rightarrow> ConfChangeSingle list \<times> ConfChangeSingle list" where
  "toConfChangeSingle cs =
     (map (singleChange ConfChangeAddNode) (cs_VotersOutgoing cs),
      map (singleChange ConfChangeRemoveNode) (cs_VotersOutgoing cs) @
      map (singleChange ConfChangeAddNode) (cs_Voters cs) @
      map (singleChange ConfChangeAddLearnerNode) (cs_Learners cs) @
      map (singleChange ConfChangeAddLearnerNode) (cs_LearnersNext cs))"

type_synonym chg_op = "Changer \<Rightarrow> (cc_error + cfg_trk) option"

definition setTracker :: "Changer \<Rightarrow> Config \<Rightarrow> ProgressMap \<Rightarrow> Changer" where
  "setTracker chg cfg trk =
     chg\<lparr>ch_Tracker := (ch_Tracker chg)\<lparr>t_Config := cfg, t_Progress := trk\<rparr>\<rparr>"

fun cc_chain :: "Changer \<Rightarrow> chg_op list \<Rightarrow> (cc_error + cfg_trk) option" where
  "cc_chain chg [] = Some (Inr (t_Config (ch_Tracker chg), t_Progress (ch_Tracker chg)))"
| "cc_chain chg (op # ops) = tryE (op chg) (\<lambda>(cfg, trk). cc_chain (setTracker chg cfg trk) ops)"

definition Restore :: "Changer \<Rightarrow> ConfState \<Rightarrow> (cc_error + cfg_trk) option" where
  "Restore chg cs =
     (let (outgoing, incoming) = toConfChangeSingle cs;
          ops = (if length outgoing = 0 then map (\<lambda>cc chg. Simple chg [cc]) incoming
                 else map (\<lambda>cc chg. Simple chg [cc]) outgoing @
                      [\<lambda>chg. EnterJoint chg (cs_AutoLeave cs) incoming])
      in cc_chain chg ops)"

section \<open>Specification\<close>

text \<open>The configurations a tracker can report.\<close>

definition validConfState :: "ConfState \<Rightarrow> bool" where
  "validConfState cs \<longleftrightarrow>
     distinct (cs_Voters cs) \<and> distinct (cs_Learners cs) \<and>
     distinct (cs_VotersOutgoing cs) \<and> distinct (cs_LearnersNext cs) \<and>
     0 \<notin> set (cs_Voters cs) \<union> set (cs_Learners cs) \<union> set (cs_VotersOutgoing cs) \<and>
     set (cs_Learners cs) \<inter> (set (cs_Voters cs) \<union> set (cs_VotersOutgoing cs)) = {} \<and>
     set (cs_LearnersNext cs) \<subseteq> set (cs_VotersOutgoing cs) - set (cs_Voters cs) \<and>
     (cs_Voters cs = [] \<longrightarrow> cs_Learners cs = [] \<and> cs_VotersOutgoing cs = []) \<and>
     (cs_AutoLeave cs \<longrightarrow> cs_VotersOutgoing cs \<noteq> [])"

section \<open>Lists of changes on sets\<close>

lemma changesSpec_Nil [simp]: "changesSpec out [] s = s"
  and changesSpec_Cons [simp]: "changesSpec out (cc # ccs) s = changesSpec out ccs (changeSpec out cc s)"
  and changesSpec_append: "changesSpec out (xs @ ys) s = changesSpec out ys (changesSpec out xs s)"
  by (simp_all add: changesSpec_def)

lemma changesSpec_add:
  "0 \<notin> set xs \<Longrightarrow> changesSpec out (map (singleChange ConfChangeAddNode) xs) (v, l, n) =
     (v \<union> set xs, l - set xs, n - set xs)"
  by (induction xs arbitrary: v l n) (auto simp: singleChange_def)

lemma changesSpec_remove:
  "0 \<notin> set xs \<Longrightarrow> changesSpec out (map (singleChange ConfChangeRemoveNode) xs) (v, l, n) =
     (v - set xs, l - set xs, n - set xs)"
  by (induction xs arbitrary: v l n) (auto simp: singleChange_def)

lemma changesSpec_learner:
  "0 \<notin> set xs \<Longrightarrow> set xs \<inter> out = {} \<Longrightarrow>
   changesSpec out (map (singleChange ConfChangeAddLearnerNode) xs) (v, l, n) =
     (v - set xs, l \<union> set xs, n)"
  by (induction xs arbitrary: v l n) (auto simp: singleChange_def)

lemma changesSpec_next:
  "0 \<notin> set xs \<Longrightarrow> set xs \<subseteq> out \<Longrightarrow>
   changesSpec out (map (singleChange ConfChangeAddLearnerNode) xs) (v, l, n) =
     (v - set xs, l, n \<union> set xs)"
  by (induction xs arbitrary: v l n) (auto simp: singleChange_def)

lemma changesSpec_keeps:
  "i \<in> fst s \<Longrightarrow> (\<And>cc. cc \<in> set ccs \<Longrightarrow> ccs_NodeId cc = i \<Longrightarrow> ccs_Type cc = ConfChangeAddNode) \<Longrightarrow>
   i \<in> fst (changesSpec out ccs s)"
proof (induction ccs arbitrary: s)
  case (Cons cc ccs)
  obtain v l n where s: "s = (v, l, n)" by (cases s)
  have "i \<in> fst (changeSpec out cc s)"
    using Cons.prems(1) Cons.prems(2) [of cc]
    by (cases "ccs_Type cc") (auto simp: s Let_def)
  with Cons show ?case by simp
qed simp

lemma changeSpec_one_voter:
  "card (fst s - fst (changeSpec out cc s)) + card (fst (changeSpec out cc s) - fst s) \<le> 1"
proof -
  obtain v l n where s: "s = (v, l, n)" by (cases s)
  have "card (v - (v - {i})) \<le> card {i}" "card (insert i v - v) \<le> card {i}" for i
    by (rule card_mono; auto)+
  moreover have e: "v - insert i v = {}" "v - {i} - v = {}" for i by auto
  ultimately show ?thesis
    by (cases "ccs_Type cc") (simp_all add: s Let_def e)
qed

section \<open>Chains of simple changes\<close>

lemma trkFrom_setTracker [simp]: "trkFrom (setTracker c cfg trk) = trkFrom c"
  by (simp add: trkFrom_def setTracker_def fun_eq_iff)

lemma setTracker_simps [simp]:
  "t_Config (ch_Tracker (setTracker c cfg trk)) = cfg"
  "t_Progress (ch_Tracker (setTracker c cfg trk)) = trk"
  "setTracker (setTracker c cfg trk) cfg' trk' = setTracker c cfg' trk'"
  "tracker_ok (ch_Tracker (setTracker c cfg trk)) = cfg_ok cfg trk"
  by (simp_all add: setTracker_def tracker_ok_def)

lemma chain_simple:
  assumes "tracker_ok (ch_Tracker c)" "\<not> is_joint (t_Config (ch_Tracker c))"
    and "\<not> list_ex badChange ccs"
    and "\<And>k. 0 < k \<Longrightarrow> k \<le> length ccs \<Longrightarrow>
       fst (changesSpec {} (take k ccs) (cfgSets (t_Config (ch_Tracker c)))) \<noteq> {}"
  shows "\<exists>cfg trk. cc_chain c (map (\<lambda>cc chg. Simple chg [cc]) ccs @ ops) =
       cc_chain (setTracker c cfg trk) ops \<and> cfg_ok cfg trk \<and> \<not> is_joint cfg \<and>
     cfgSets cfg = changesSpec {} ccs (cfgSets (t_Config (ch_Tracker c))) \<and>
     trkFrom c (t_Progress (ch_Tracker c)) trk"
  using assms
proof (induction ccs arbitrary: c)
  case Nil
  have "setTracker c (t_Config (ch_Tracker c)) (t_Progress (ch_Tracker c)) = c"
    by (simp add: setTracker_def)
  with Nil show ?case
    by (intro exI [of _ "t_Config (ch_Tracker c)"] exI [of _ "t_Progress (ch_Tracker c)"])
      (simp add: tracker_ok_def)
next
  case (Cons cc ccs)
  let ?s = "cfgSets (t_Config (ch_Tracker c))"
  have "fst (changeSpec {} cc ?s) \<noteq> {}" using Cons.prems(4) [of 1] by simp
  with Simple_eq [OF Cons.prems(1), of "[cc]"] Cons.prems(2,3) changeSpec_one_voter [of ?s "{}" cc]
  obtain cfg trk where r: "Simple c [cc] = Some (Inr (cfg, trk))" "cfg_ok cfg trk" "\<not> is_joint cfg"
    "cfgSets cfg = changeSpec {} cc ?s" "trkFrom c (t_Progress (ch_Tracker c)) trk"
    by (auto simp: incoming_sets)
  have "\<exists>cfg' trk'. cc_chain (setTracker c cfg trk) (map (\<lambda>cc chg. Simple chg [cc]) ccs @ ops) =
       cc_chain (setTracker (setTracker c cfg trk) cfg' trk') ops \<and> cfg_ok cfg' trk' \<and> \<not> is_joint cfg' \<and>
     cfgSets cfg' = changesSpec {} ccs (cfgSets (t_Config (ch_Tracker (setTracker c cfg trk)))) \<and>
     trkFrom (setTracker c cfg trk) (t_Progress (ch_Tracker (setTracker c cfg trk))) trk'"
  proof (rule Cons.IH)
    fix k assume "0 < k" "k \<le> length ccs"
    then show "fst (changesSpec {} (take k ccs) (cfgSets (t_Config (ch_Tracker (setTracker c cfg trk))))) \<noteq> {}"
      using Cons.prems(4) [of "Suc k"] r(4) by simp
  qed (use r Cons.prems in simp_all)
  with r show ?case by (auto intro: trkFrom_trans)
qed

lemma nonempty_prefixes:
  assumes "0 \<notin> set (x # xs)" "set ys \<inter> set (x # xs) = {}" "0 < k"
  shows "fst (changesSpec {} (take k (map (singleChange ConfChangeAddNode) (x # xs) @
      map (singleChange ConfChangeAddLearnerNode) ys)) s) \<noteq> {}"
proof -
  obtain v l n where s: "s = (v, l, n)" by (cases s)
  from assms(3) obtain k' where k: "k = Suc k'" by (cases k) auto
  have "x \<in> fst (changesSpec {} (take k' (map (singleChange ConfChangeAddNode) xs @
      map (singleChange ConfChangeAddLearnerNode) ys)) (changeSpec {} (singleChange ConfChangeAddNode x) s))"
    by (rule changesSpec_keeps)
      (use assms(1,2) in \<open>auto simp: s singleChange_def dest!: in_set_takeD\<close>)
  then show ?thesis by (auto simp: k)
qed

lemma Slice_sort: "distinct xs \<Longrightarrow> mc_ids m = set xs \<Longrightarrow> sort (mc_Slice m) = sort xs"
  by (simp add: mc_Slice_def sorted_list_of_set_sort_remdups distinct_remdups_id sort_key_id_if_sorted)

lemma Slice_empty: "mc_ids m = {} \<Longrightarrow> mc_Slice m = []"
  by (simp add: mc_Slice_def)

lemma list_ex_badChange [simp]:
  "list_ex badChange (map (singleChange ConfChangeAddNode) xs) = False"
  "list_ex badChange (map (singleChange ConfChangeRemoveNode) xs) = False"
  "list_ex badChange (map (singleChange ConfChangeAddLearnerNode) xs) = False"
  by (induction xs) (simp_all add: badChange_def singleChange_def)

lemma tracker_ok_empty: "t_Config p = emptyConfig \<Longrightarrow> t_Progress p = Map.empty \<Longrightarrow> tracker_ok p"
  by (simp add: tracker_ok_def cfg_ok_def emptyConfig_def jc_IDs_def)

lemma emptyConfig_simps [simp]: "\<not> is_joint emptyConfig" "cfgSets emptyConfig = ({}, {}, {})"
  by (simp_all add: emptyConfig_def is_joint_iff cfgSets_def)

text \<open>The chain \<open>Restore\<close> runs, for both shapes of a \<open>ConfState\<close>.\<close>

lemma Restore_simple:
  assumes valid: "validConfState cs" and simple: "cs_VotersOutgoing cs = []"
    and empty: "t_Config (ch_Tracker c) = emptyConfig" "t_Progress (ch_Tracker c) = Map.empty"
  shows "\<exists>cfg trk. Restore c cs = Some (Inr (cfg, trk)) \<and> cfg_ok cfg trk \<and>
     cfgSets cfg = (set (cs_Voters cs), set (cs_Learners cs), {}) \<and>
     \<not> is_joint cfg \<and> trkFrom c Map.empty trk"
proof -
  let ?v = "map (singleChange ConfChangeAddNode) (cs_Voters cs)"
  let ?l = "map (singleChange ConfChangeAddLearnerNode) (cs_Learners cs)"
  from valid simple have next_nil: "cs_LearnersNext cs = []" by (simp add: validConfState_def)
  have run: "Restore c cs = cc_chain c (map (\<lambda>cc chg. Simple chg [cc]) (?v @ ?l) @ [])"
    using simple next_nil by (simp add: Restore_def toConfChangeSingle_def)
  have "fst (changesSpec {} (take k (?v @ ?l)) ({}, {}, {})) \<noteq> {}" if "0 < k" "k \<le> length (?v @ ?l)" for k
  proof (cases "cs_Voters cs")
    case Nil
    with valid that show ?thesis by (simp add: validConfState_def)
  next
    case (Cons x xs)
    show ?thesis
      unfolding Cons by (rule nonempty_prefixes) (use valid Cons that in \<open>auto simp: validConfState_def\<close>)
  qed
  moreover have "changesSpec {} (?v @ ?l) ({}, {}, {}) = (set (cs_Voters cs), set (cs_Learners cs), {})"
    using valid by (auto simp: changesSpec_append changesSpec_add changesSpec_learner validConfState_def)
  ultimately show ?thesis
    using chain_simple [of c "?v @ ?l" "[]"] tracker_ok_empty [OF empty]
    unfolding run by (auto simp: empty)
qed

lemma Restore_joint:
  assumes valid: "validConfState cs" and joint: "cs_VotersOutgoing cs \<noteq> []"
    and empty: "t_Config (ch_Tracker c) = emptyConfig" "t_Progress (ch_Tracker c) = Map.empty"
  shows "\<exists>cfg trk. Restore c cs = Some (Inr (cfg, trk)) \<and> cfg_ok cfg trk \<and>
     cfgSets cfg = (set (cs_Voters cs), set (cs_Learners cs), set (cs_LearnersNext cs)) \<and>
     outgoing cfg = Some (set (cs_VotersOutgoing cs)) \<and> c_AutoLeave cfg = cs_AutoLeave cs \<and>
     trkFrom c Map.empty trk"
proof -
  let ?o = "map (singleChange ConfChangeAddNode) (cs_VotersOutgoing cs)"
  let ?in = "snd (toConfChangeSingle cs)" and ?O = "set (cs_VotersOutgoing cs)"
  obtain x xs where x: "cs_VotersOutgoing cs = x # xs" using joint by (cases "cs_VotersOutgoing cs") auto
  have run: "Restore c cs = cc_chain c (map (\<lambda>cc chg. Simple chg [cc]) ?o @
      [\<lambda>chg. EnterJoint chg (cs_AutoLeave cs) ?in])"
    using joint by (simp add: Restore_def toConfChangeSingle_def)
  have zero: "0 \<notin> ?O" using valid by (simp add: validConfState_def)
  have "fst (changesSpec {} (take k ?o) ({}, {}, {})) \<noteq> {}" if "0 < k" for k
    using nonempty_prefixes [of x xs "[]" k "({}, {}, {})"] zero that by (simp add: x)
  then obtain cfg1 trk1 where c1: "Restore c cs =
      cc_chain (setTracker c cfg1 trk1) [\<lambda>chg. EnterJoint chg (cs_AutoLeave cs) ?in]"
    "cfg_ok cfg1 trk1" "\<not> is_joint cfg1" "cfgSets cfg1 = (?O, {}, {})" "trkFrom c Map.empty trk1"
    using chain_simple [of c ?o "[\<lambda>chg. EnterJoint chg (cs_AutoLeave cs) ?in]"]
      tracker_ok_empty [OF empty] zero
    unfolding run by (auto simp: empty changesSpec_add)
  have sets: "changesSpec ?O ?in (?O, {}, {}) =
      (set (cs_Voters cs), set (cs_Learners cs), set (cs_LearnersNext cs))"
  proof -
    have "0 \<notin> set (cs_LearnersNext cs)" "set (cs_LearnersNext cs) \<subseteq> ?O"
      using valid by (auto simp: validConfState_def)
    moreover have "0 \<notin> set (cs_Voters cs)" "0 \<notin> set (cs_Learners cs)" "set (cs_Learners cs) \<inter> ?O = {}"
      using valid by (auto simp: validConfState_def)
    moreover have "set (cs_Voters cs) - set (cs_Learners cs) - set (cs_LearnersNext cs) = set (cs_Voters cs)"
      using valid by (auto simp: validConfState_def)
    ultimately show ?thesis
      by (simp add: toConfChangeSingle_def changesSpec_append changesSpec_add changesSpec_remove
        changesSpec_learner changesSpec_next zero)
  qed
  have "\<not> list_ex badChange ?in" by (simp add: toConfChangeSingle_def)
  moreover have "set (cs_Voters cs) \<noteq> {}" using valid joint by (auto simp: validConfState_def)
  ultimately obtain cfg trk where e:
    "EnterJoint (setTracker c cfg1 trk1) (cs_AutoLeave cs) ?in = Some (Inr (cfg, trk))"
    "cfg_ok cfg trk" "cfgSets cfg = (set (cs_Voters cs), set (cs_Learners cs), set (cs_LearnersNext cs))"
    "outgoing cfg = Some ?O" "c_AutoLeave cfg = cs_AutoLeave cs" "trkFrom c trk1 trk"
    using EnterJoint_eq [of "setTracker c cfg1 trk1" "cs_AutoLeave cs" ?in] c1(2-4) sets joint
    by (auto simp: incoming_sets)
  with c1 show ?thesis by (auto intro: trkFrom_trans)
qed

section \<open>Properties\<close>

text \<open>
  C30: restoring a configuration is faithful. From an empty tracker, \<open>Restore\<close> succeeds
  on every well-formed \<open>ConfState\<close>, joint or not; the configuration it builds reports a
  \<open>ConfState\<close> equivalent to the one given, is consistent with its progress map, and
  every progress in it is the initial one.
\<close>

theorem Restore_roundtrip:
  assumes "validConfState cs"
    and "t_Config (ch_Tracker c) = emptyConfig" "t_Progress (ch_Tracker c) = Map.empty"
  shows "\<exists>cfg trk. Restore c cs = Some (Inr (cfg, trk)) \<and> cfg_ok cfg trk \<and>
     Equivalent (Some cs) (Some (trk_ConfState ((ch_Tracker c)\<lparr>t_Config := cfg, t_Progress := trk\<rparr>))) \<and>
     trkFrom c Map.empty trk"
proof (cases "cs_VotersOutgoing cs = []")
  case True
  from Restore_simple [OF assms(1) True assms(2,3)] obtain cfg trk where
    r: "Restore c cs = Some (Inr (cfg, trk))" "cfg_ok cfg trk" "trkFrom c Map.empty trk"
    "cfgSets cfg = (set (cs_Voters cs), set (cs_Learners cs), {})" "\<not> is_joint cfg" by blast
  with assms(1) True show ?thesis
    by (auto simp: Equivalent_def trk_ConfState_def validConfState_def Slice_sort Slice_empty cfgSets_def
      is_joint_iff cfg_ok_def)
next
  case False
  from Restore_joint [OF assms(1) False assms(2,3)] obtain cfg trk where
    r: "Restore c cs = Some (Inr (cfg, trk))" "cfg_ok cfg trk" "trkFrom c Map.empty trk"
    "cfgSets cfg = (set (cs_Voters cs), set (cs_Learners cs), set (cs_LearnersNext cs))"
    "outgoing cfg = Some (set (cs_VotersOutgoing cs))" "c_AutoLeave cfg = cs_AutoLeave cs" by blast
  with assms(1) show ?thesis
    by (auto simp: Equivalent_def trk_ConfState_def validConfState_def Slice_sort Slice_empty cfgSets_def)
qed

theorem Restore_roundtrip_witness:
  "\<exists>cfg trk. Restore \<lparr>ch_Tracker = MakeProgressTracker 4 0, ch_LastIndex = 7\<rparr>
     \<lparr>cs_Voters = [1, 2, 3], cs_Learners = [5], cs_VotersOutgoing = [1, 2, 4, 6],
      cs_LearnersNext = [4], cs_AutoLeave = True\<rparr> = Some (Inr (cfg, trk)) \<and> cfg_ok cfg trk"
  using Restore_roundtrip [of "\<lparr>cs_Voters = [1, 2, 3], cs_Learners = [5],
      cs_VotersOutgoing = [1, 2, 4, 6], cs_LearnersNext = [4], cs_AutoLeave = True\<rparr>"
      "\<lparr>ch_Tracker = MakeProgressTracker 4 0, ch_LastIndex = 7\<rparr>"]
  by (simp add: validConfState_def MakeProgressTracker_def) blast

end
