(* ===== verification/LogTypes.thy ===== *)
theory LogTypes
  imports RaftPb
begin

text \<open>
  \<open>types.go\<close> and the parts of \<open>util.go\<close> the state machine uses: entry identifiers and
  log slices, the classification of messages, and the sizes of entries.
\<close>

section \<open>Entry identifiers and log slices\<close>

datatype entryID = EntryID (eid_term: u64) (eid_index: u64)

text \<open>
  Identifiers are ordered by term and then by index, the order in which the code compares
  how up to date two logs are.
\<close>

instantiation entryID :: linorder
begin

definition less_eq_entryID :: "entryID \<Rightarrow> entryID \<Rightarrow> bool" where
  "less_eq_entryID a b \<longleftrightarrow> eid_term a < eid_term b \<or>
     eid_term a = eid_term b \<and> eid_index a \<le> eid_index b"

definition less_entryID :: "entryID \<Rightarrow> entryID \<Rightarrow> bool" where
  "less_entryID a b \<longleftrightarrow> eid_term a < eid_term b \<or>
     eid_term a = eid_term b \<and> eid_index a < eid_index b"

instance
proof
  fix a b :: entryID
  show "a \<le> b \<Longrightarrow> b \<le> a \<Longrightarrow> a = b"
    by (cases a; cases b) (auto simp: less_eq_entryID_def)
qed (auto simp: less_eq_entryID_def less_entryID_def)

end

definition pbEntryID :: "Entry \<Rightarrow> entryID" where
  "pbEntryID e = EntryID (e_Term e) (e_Index e)"

record logSlice =
  ls_term :: u64
  ls_prev :: entryID
  ls_entries :: "Entry list"

definition ls_lastIndex :: "logSlice \<Rightarrow> u64" where
  "ls_lastIndex s = eid_index (ls_prev s) + of_nat (length (ls_entries s))"

definition ls_lastEntryID :: "logSlice \<Rightarrow> entryID" where
  "ls_lastEntryID s =
     (let ln = length (ls_entries s) in
      if ln \<noteq> 0 then pbEntryID (ls_entries s ! (ln - 1)) else ls_prev s)"

text \<open>The loop of \<open>valid\<close>: \<open>None\<close> is its error, otherwise the last identifier seen.\<close>

fun validLoop :: "entryID \<Rightarrow> Entry list \<Rightarrow> entryID option" where
  "validLoop prev [] = Some prev"
| "validLoop prev (e # es) =
     (let i = pbEntryID e in
      if eid_term i < eid_term prev \<or> eid_index i \<noteq> eid_index prev + 1 then None
      else validLoop i es)"

definition ls_valid :: "logSlice \<Rightarrow> bool" where
  "ls_valid s =
     (case validLoop (ls_prev s) (ls_entries s) of
        None \<Rightarrow> False
      | Some prev \<Rightarrow> \<not> ls_term s < eid_term prev)"

section \<open>Messages\<close>

definition LocalAppendThread :: u64 where
  "LocalAppendThread = maxU64"

definition LocalApplyThread :: u64 where
  "LocalApplyThread = maxU64 - 1"

definition IsLocalMsg :: "MessageType \<Rightarrow> bool" where
  "IsLocalMsg t \<longleftrightarrow> t \<in> {MsgHup, MsgBeat, MsgUnreachable, MsgSnapStatus, MsgCheckQuorum,
     MsgStorageAppend, MsgStorageAppendResp, MsgStorageApply, MsgStorageApplyResp}"

definition IsResponseMsg :: "MessageType \<Rightarrow> bool" where
  "IsResponseMsg t \<longleftrightarrow> t \<in> {MsgAppResp, MsgVoteResp, MsgHeartbeatResp, MsgUnreachable,
     MsgReadIndexResp, MsgPreVoteResp, MsgStorageAppendResp, MsgStorageApplyResp}"

definition IsLocalMsgTarget :: "u64 \<Rightarrow> bool" where
  "IsLocalMsgTarget i \<longleftrightarrow> i = LocalAppendThread \<or> i = LocalApplyThread"

definition voteRespMsgType :: "MessageType \<Rightarrow> MessageType option" where
  "voteRespMsgType t =
     (case t of MsgVote \<Rightarrow> Some MsgVoteResp | MsgPreVote \<Rightarrow> Some MsgPreVoteResp | _ \<Rightarrow> None)"

section \<open>Sizes\<close>

definition entsSize :: "proto_lib \<Rightarrow> Entry list \<Rightarrow> u64" where
  "entsSize E ents = fold (\<lambda>e sz. sz + pb_Size E e) ents 0"

text \<open>The entries after the first that the loop of \<open>limitSize\<close> lets through.\<close>

fun limitRest :: "proto_lib \<Rightarrow> u64 \<Rightarrow> u64 \<Rightarrow> Entry list \<Rightarrow> Entry list" where
  "limitRest E maxSize sz [] = []"
| "limitRest E maxSize sz (e # es) =
     (let sz' = sz + pb_Size E e in
      if sz' > maxSize then [] else e # limitRest E maxSize sz' es)"

fun limitSize :: "proto_lib \<Rightarrow> u64 \<Rightarrow> Entry list \<Rightarrow> Entry list" where
  "limitSize E maxSize [] = []"
| "limitSize E maxSize (e # es) = e # limitRest E maxSize (pb_Size E e) es"

definition payloadSize :: "Entry \<Rightarrow> u64" where
  "payloadSize e = of_nat (length (e_Data e))"

definition payloadsSize :: "Entry list \<Rightarrow> u64" where
  "payloadsSize ents = fold (\<lambda>e s. s + payloadSize e) ents 0"

definition assertConfStatesEquivalent :: "ConfState \<Rightarrow> ConfState \<Rightarrow> unit option" where
  "assertConfStatesEquivalent cs1 cs2 = panicIf (\<not> Equivalent (Some cs1) (Some cs2))"

section \<open>Specification\<close>

text \<open>Entries with consecutive indices from \<open>i\<close> on.\<close>

fun contiguous :: "u64 \<Rightarrow> Entry list \<Rightarrow> bool" where
  "contiguous i [] = True"
| "contiguous i (e # es) \<longleftrightarrow> e_Index e = i \<and> contiguous (i + 1) es"

text \<open>The total size without wrap-around.\<close>

definition totalSize :: "proto_lib \<Rightarrow> Entry list \<Rightarrow> nat" where
  "totalSize E ents = sum_list (map (\<lambda>e. unat (pb_Size E e)) ents)"

section \<open>Lemmas\<close>

lemma contiguous_append:
  "contiguous i (xs @ ys) \<longleftrightarrow> contiguous i xs \<and> contiguous (i + of_nat (length xs)) ys"
  by (induction xs arbitrary: i) (auto simp: algebra_simps)

lemma contiguous_nth: "contiguous i xs \<Longrightarrow> k < length xs \<Longrightarrow> e_Index (xs ! k) = i + of_nat k"
  by (induction xs arbitrary: i k) (auto simp: nth_Cons' algebra_simps)

lemma contiguous_take: "contiguous i xs \<Longrightarrow> contiguous i (take k xs)"
  by (metis append_take_drop_id contiguous_append)

lemma contiguous_drop:
  "contiguous i xs \<Longrightarrow> k \<le> length xs \<Longrightarrow> contiguous (i + of_nat k) (drop k xs)"
  using contiguous_append [of i "take k xs" "drop k xs"] by (simp add: min_absorb2)

lemma contiguousI:
  "(\<And>k. k < length xs \<Longrightarrow> e_Index (xs ! k) = i + of_nat k) \<Longrightarrow> contiguous i xs"
proof (induction xs arbitrary: i)
  case (Cons e es)
  have "contiguous (i + 1) es"
  proof (rule Cons.IH)
    fix k assume "k < length es"
    with Cons.prems [of "Suc k"] show "e_Index (es ! k) = i + 1 + of_nat k"
      by (simp add: algebra_simps)
  qed
  with Cons.prems [of 0] show ?case by simp
qed simp

lemma totalSize_simps [simp]:
  "totalSize E [] = 0" "totalSize E (e # es) = unat (pb_Size E e) + totalSize E es"
  "totalSize E (xs @ ys) = totalSize E xs + totalSize E ys"
  by (simp_all add: totalSize_def)

lemma entsSize_fold: "fold (\<lambda>e sz. sz + pb_Size E e) ents z = z + of_nat (totalSize E ents)"
  by (induction ents arbitrary: z) (simp_all add: algebra_simps)

lemma entsSize_eq: "entsSize E ents = of_nat (totalSize E ents)"
  by (simp add: entsSize_def entsSize_fold)

lemma unat_entsSize: "totalSize E ents < 2 ^ 64 \<Longrightarrow> unat (entsSize E ents) = totalSize E ents"
  by (simp add: entsSize_eq unat_of_nat)

lemma limitRest_prefix:
  assumes "unat sz + totalSize E es < 2 ^ 64"
  shows "\<exists>k \<le> length es. limitRest E m sz es = take k es \<and>
     (k = 0 \<or> unat sz + totalSize E (take k es) \<le> unat m) \<and>
     (k < length es \<longrightarrow> unat m < unat sz + totalSize E (take (Suc k) es))"
  using assms
proof (induction es arbitrary: sz)
  case (Cons e es)
  have u: "unat (sz + pb_Size E e) = unat sz + unat (pb_Size E e)"
    using Cons.prems by (simp add: unat_plus_if')
  show ?case
  proof (cases "sz + pb_Size E e > m")
    case True
    then have "unat m < unat sz + unat (pb_Size E e)" by (simp add: word_less_nat_alt u)
    with True show ?thesis by (intro exI [of _ 0]) simp
  next
    case False
    then have le: "unat sz + unat (pb_Size E e) \<le> unat m"
      by (simp add: word_less_nat_alt u linorder_not_less)
    have "unat (sz + pb_Size E e) + totalSize E es < 2 ^ 64" using Cons.prems by (simp add: u)
    from Cons.IH [OF this] obtain k where k: "k \<le> length es"
      "limitRest E m (sz + pb_Size E e) es = take k es"
      "k = 0 \<or> unat (sz + pb_Size E e) + totalSize E (take k es) \<le> unat m"
      "k < length es \<longrightarrow> unat m < unat (sz + pb_Size E e) + totalSize E (take (Suc k) es)" by blast
    with False le show ?thesis
      by (intro exI [of _ "Suc k"]) (auto simp: u)
  qed
qed simp

lemma limitRest_append:
  "limitRest E m sz (xs @ ys) =
     (if limitRest E m sz xs = xs then xs @ limitRest E m (sz + entsSize E xs) ys
      else limitRest E m sz xs)"
  by (induction xs arbitrary: sz) (simp_all add: entsSize_eq algebra_simps Let_def)

lemma limitSize_append:
  assumes "xs \<noteq> []"
  shows "limitSize E m (xs @ ys) =
     (if limitSize E m xs = xs then xs @ limitRest E m (entsSize E xs) ys else limitSize E m xs)"
  using assms by (cases xs) (simp_all add: limitRest_append entsSize_eq)

lemma limitRest_length: "length (limitRest E m sz xs) \<le> length xs"
  by (induction xs arbitrary: sz) (auto simp: Let_def)

lemma limitRest_take: "limitRest E m sz xs = take (length (limitRest E m sz xs)) xs"
  by (induction xs arbitrary: sz) (auto simp: Let_def)

lemma limitSize_take: "limitSize E m xs = take (length (limitSize E m xs)) xs"
  by (cases xs) (simp_all flip: limitRest_take)

lemma limitSize_length: "length (limitSize E m xs) \<le> length xs"
  by (cases xs) (simp_all add: limitRest_length)

lemma limitSize_full_iff: "limitSize E m xs = xs \<longleftrightarrow> \<not> length (limitSize E m xs) < length xs"
  using limitSize_length [of E m xs] limitSize_take [of E m xs] by (metis linorder_neqE_nat not_le take_all_iff order_refl)

lemma limitSize_Nil_iff [simp]: "limitSize E m xs = [] \<longleftrightarrow> xs = []"
  by (cases xs) simp_all

lemma limitRest_shift:
  assumes "unat a + unat b + totalSize E es < 2 ^ 64" "a \<le> m"
  shows "limitRest E (m - a) b es = limitRest E m (a + b) es"
  using assms
proof (induction es arbitrary: b)
  case (Cons e es)
  have u: "unat (b + pb_Size E e) = unat b + unat (pb_Size E e)"
    "unat (a + b + pb_Size E e) = unat a + unat b + unat (pb_Size E e)"
    "unat (m - a) = unat m - unat a" "unat a \<le> unat m"
    using Cons.prems by (auto simp: unat_plus_if' unat_sub word_le_nat_alt)
  have "m - a < b + pb_Size E e \<longleftrightarrow> m < a + b + pb_Size E e"
    using u(4) by (auto simp: word_less_nat_alt u(1-3))
  moreover have "limitRest E (m - a) (b + pb_Size E e) es = limitRest E m (a + (b + pb_Size E e)) es"
    using Cons.prems by (intro Cons.IH) (simp_all add: u)
  ultimately show ?case by (simp add: Let_def algebra_simps)
qed simp

lemma limitRest_full:
  assumes "m \<le> sz" "unat sz + totalSize E es < 2 ^ 64" "\<And>e. e \<in> set es \<Longrightarrow> 0 < pb_Size E e"
  shows "limitRest E m sz es = []"
proof (cases es)
  case (Cons e es')
  then have "unat (sz + pb_Size E e) = unat sz + unat (pb_Size E e)" "0 < unat (pb_Size E e)"
    using assms(2) assms(3) [of e] by (auto simp: unat_plus_if' unat_gt_0)
  then have "m < sz + pb_Size E e" using assms(1) by (simp add: word_less_nat_alt word_le_nat_alt)
  then show ?thesis by (simp add: Cons)
qed simp

lemma validLoop_iff:
  "(case validLoop p es of None \<Rightarrow> False | Some q \<Rightarrow> \<not> t < eid_term q) \<longleftrightarrow>
     contiguous (eid_index p + 1) es \<and> sorted (eid_term p # map e_Term es @ [t])"
proof (induction es arbitrary: p)
  case Nil
  show ?case by auto
next
  case (Cons e es)
  show ?case using Cons [of "pbEntryID e"]
    by (auto simp: Let_def pbEntryID_def linorder_not_less sorted2 simp del: sorted_wrt.simps(2))
qed

section \<open>Properties\<close>

text \<open>
  C32: \<open>limitSize\<close> returns the longest prefix whose total encoded size is within the
  limit, and at least one entry of a non-empty list.
\<close>

theorem limitSize_longest_prefix:
  assumes "totalSize E ents < 2 ^ 64"
  shows "\<exists>k \<le> length ents. limitSize E m ents = take k ents \<and>
     (ents \<noteq> [] \<longrightarrow> 1 \<le> k) \<and> (k \<le> 1 \<or> totalSize E (take k ents) \<le> unat m) \<and>
     (k < length ents \<longrightarrow> unat m < totalSize E (take (Suc k) ents))"
proof (cases ents)
  case (Cons e es)
  with assms have "unat (pb_Size E e) + totalSize E es < 2 ^ 64" by simp
  from limitRest_prefix [OF this, of m] obtain k where "k \<le> length es"
    "limitRest E m (pb_Size E e) es = take k es"
    "k = 0 \<or> unat (pb_Size E e) + totalSize E (take k es) \<le> unat m"
    "k < length es \<longrightarrow> unat m < unat (pb_Size E e) + totalSize E (take (Suc k) es)" by blast
  then show ?thesis unfolding Cons by (intro exI [of _ "Suc k"]) auto
qed simp

theorem limitSize_longest_prefix_witness:
  "\<exists>k \<le> length [emptyEntry, emptyEntry, emptyEntry].
     limitSize \<lparr>pb_Size = (\<lambda>e. 10), pb_MarshalCC = (\<lambda>c. None), pb_MarshalCCV2 = (\<lambda>c. None),
       pb_UnmarshalCC = (\<lambda>b. None), pb_UnmarshalCCV2 = (\<lambda>b. None)\<rparr> 25
       [emptyEntry, emptyEntry, emptyEntry] = take k [emptyEntry, emptyEntry, emptyEntry]"
  using limitSize_longest_prefix [of "\<lparr>pb_Size = (\<lambda>e. 10), pb_MarshalCC = (\<lambda>c. None),
       pb_MarshalCCV2 = (\<lambda>c. None), pb_UnmarshalCC = (\<lambda>b. None), pb_UnmarshalCCV2 = (\<lambda>b. None)\<rparr>"
       "[emptyEntry, emptyEntry, emptyEntry]" 25]
  by simp blast

text \<open>
  C33: \<open>logSlice.valid\<close> accepts exactly the slices its comment describes: indices
  consecutive from \<open>prev.index + 1\<close>, terms that never regress from \<open>prev.term\<close> on, and
  no term above the leader term of the slice.
\<close>

theorem logSlice_valid_iff:
  "ls_valid s \<longleftrightarrow>
     contiguous (eid_index (ls_prev s) + 1) (ls_entries s) \<and>
     sorted (eid_term (ls_prev s) # map e_Term (ls_entries s) @ [ls_term s])"
  unfolding ls_valid_def by (rule validLoop_iff)

end
