(* ===== verification/Storage.thy ===== *)
theory Storage
  imports LogTypes
begin

text \<open>
  \<open>storage.go\<close>: the \<open>Storage\<close> interface and its in-memory implementation.

  The interface is a record of what its methods return; the outer \<open>option\<close> is a panic and
  \<open>Inl\<close> an error. The predicate \<open>storageHas\<close> says which log a storage presents, and the
  locale \<open>log_store\<close> is the contract between the raft log and a storage the application
  appends to, compacts and overwrites by snapshots; \<open>MemoryStorage\<close> is shown to meet it.
  The mutex and the call counters of \<open>MemoryStorage\<close> are not modelled, and a nil snapshot
  is the empty one, which \<open>EnsureSnapshot\<close> puts in its place.
\<close>

section \<open>The interface\<close>

datatype storage_error =
    ErrCompacted | ErrSnapOutOfDate | ErrUnavailable | ErrSnapshotTemporarilyUnavailable
  | ErrOther

record Storage =
  st_InitialState :: "(storage_error + HardState option \<times> ConfState) option"
  st_Entries :: "u64 \<Rightarrow> u64 \<Rightarrow> u64 \<Rightarrow> (storage_error + Entry list) option"
  st_Term :: "u64 \<Rightarrow> (storage_error + u64) option"
  st_LastIndex :: "(storage_error + u64) option"
  st_FirstIndex :: "(storage_error + u64) option"
  st_Snapshot :: "(storage_error + Snapshot) option"

section \<open>The in-memory implementation\<close>

record MemoryStorage =
  ms_hardState :: "HardState option"
  ms_snapshot :: Snapshot
  ms_ents :: "Entry list"

definition NewMemoryStorage :: MemoryStorage where
  "NewMemoryStorage = \<lparr>ms_hardState = None, ms_snapshot = emptySnapshot, ms_ents = [emptyEntry]\<rparr>"

definition ms_InitialState :: "MemoryStorage \<Rightarrow> HardState option \<times> ConfState" where
  "ms_InitialState ms = (ms_hardState ms, md_ConfState (sn_Metadata (ms_snapshot ms)))"

definition ms_SetHardState :: "HardState option \<Rightarrow> MemoryStorage \<Rightarrow> MemoryStorage" where
  "ms_SetHardState st ms = ms\<lparr>ms_hardState := st\<rparr>"

definition ms_offset :: "MemoryStorage \<Rightarrow> u64 option" where
  "ms_offset ms = map_option e_Index (go_index (ms_ents ms) 0)"

definition ms_lastIndex :: "MemoryStorage \<Rightarrow> u64 option" where
  "ms_lastIndex ms = do {
     offset \<leftarrow> ms_offset ms;
     Some (offset + of_nat (length (ms_ents ms)) - 1)
   }"

definition ms_firstIndex :: "MemoryStorage \<Rightarrow> u64 option" where
  "ms_firstIndex ms = do { offset \<leftarrow> ms_offset ms; Some (offset + 1) }"

definition ms_Entries :: "proto_lib \<Rightarrow> MemoryStorage \<Rightarrow> u64 \<Rightarrow> u64 \<Rightarrow> u64 \<Rightarrow>
    (storage_error + Entry list) option" where
  "ms_Entries E ms lo hi maxSize = do {
     offset \<leftarrow> ms_offset ms;
     if lo \<le> offset then Some (Inl ErrCompacted)
     else do {
       last \<leftarrow> ms_lastIndex ms;
       panicIf (hi > last + 1);
       if length (ms_ents ms) = 1 then Some (Inl ErrUnavailable)
       else do {
         ents \<leftarrow> go_slice (ms_ents ms) (unat (lo - offset)) (unat (hi - offset));
         Some (Inr (limitSize E maxSize ents))
       }
     }
   }"

definition ms_Term :: "MemoryStorage \<Rightarrow> u64 \<Rightarrow> (storage_error + u64) option" where
  "ms_Term ms i = do {
     offset \<leftarrow> ms_offset ms;
     if i < offset then Some (Inl ErrCompacted)
     else if sint (i - offset) \<ge> int (length (ms_ents ms)) then Some (Inl ErrUnavailable)
     else do {
       e \<leftarrow> go_index (ms_ents ms) (unat (i - offset));
       Some (Inr (e_Term e))
     }
   }"

definition ms_Snapshot :: "MemoryStorage \<Rightarrow> Snapshot" where
  "ms_Snapshot ms = ms_snapshot ms"

definition ms_ApplySnapshot :: "Snapshot \<Rightarrow> MemoryStorage \<Rightarrow> storage_error + MemoryStorage" where
  "ms_ApplySnapshot snap ms =
     (let msIndex = md_Index (sn_Metadata (ms_snapshot ms));
          snapIndex = md_Index (sn_Metadata snap)
      in if msIndex \<noteq> 0 \<and> msIndex \<ge> snapIndex then Inl ErrSnapOutOfDate
         else Inr (ms\<lparr>ms_snapshot := snap,
           ms_ents := [emptyEntry\<lparr>e_Term := md_Term (sn_Metadata snap),
                                  e_Index := md_Index (sn_Metadata snap)\<rparr>]\<rparr>))"

definition ms_CreateSnapshot :: "u64 \<Rightarrow> ConfState option \<Rightarrow> bytes \<Rightarrow> MemoryStorage \<Rightarrow>
    (storage_error + Snapshot \<times> MemoryStorage) option" where
  "ms_CreateSnapshot i cs data ms =
     (if i \<le> md_Index (sn_Metadata (ms_snapshot ms)) then Some (Inl ErrSnapOutOfDate)
      else do {
        offset \<leftarrow> ms_offset ms;
        last \<leftarrow> ms_lastIndex ms;
        panicIf (i > last);
        e \<leftarrow> go_index (ms_ents ms) (unat (i - offset));
        let md = (sn_Metadata (ms_snapshot ms))\<lparr>md_Index := i, md_Term := e_Term e\<rparr>;
        let md' = (case cs of None \<Rightarrow> md | Some c \<Rightarrow> md\<lparr>md_ConfState := c\<rparr>);
        let snap = (ms_snapshot ms)\<lparr>sn_Metadata := md', sn_Data := data\<rparr>;
        Some (Inr (snap, ms\<lparr>ms_snapshot := snap\<rparr>))
      })"

definition ms_Compact :: "u64 \<Rightarrow> MemoryStorage \<Rightarrow> (storage_error + MemoryStorage) option" where
  "ms_Compact compactIndex ms = do {
     offset \<leftarrow> ms_offset ms;
     if compactIndex \<le> offset then Some (Inl ErrCompacted)
     else do {
       last \<leftarrow> ms_lastIndex ms;
       panicIf (compactIndex > last);
       let i = unat (compactIndex - offset);
       e \<leftarrow> go_index (ms_ents ms) i;
       rest \<leftarrow> go_from (ms_ents ms) (i + 1);
       Some (Inr (ms\<lparr>ms_ents := emptyEntry\<lparr>e_Index := e_Index e, e_Term := e_Term e\<rparr> # rest\<rparr>))
     }
   }"

definition ms_Append :: "Entry list \<Rightarrow> MemoryStorage \<Rightarrow> (storage_error + MemoryStorage) option" where
  "ms_Append entries ms =
     (if length entries = 0 then Some (Inr ms)
      else do {
        first \<leftarrow> ms_firstIndex ms;
        e0 \<leftarrow> go_index entries 0;
        let last = e_Index e0 + of_nat (length entries) - 1;
        if last < first then Some (Inr ms)
        else do {
          entries1 \<leftarrow> (if first > e_Index e0 then go_from entries (unat (first - e_Index e0))
                       else Some entries);
          e1 \<leftarrow> go_index entries1 0;
          base \<leftarrow> ms_offset ms;
          let offset = e_Index e1 - base;
          if of_nat (length (ms_ents ms)) > offset then do {
            kept \<leftarrow> go_slice (ms_ents ms) 0 (unat offset);
            Some (Inr (ms\<lparr>ms_ents := kept @ entries1\<rparr>))
          }
          else if of_nat (length (ms_ents ms)) = offset then
            Some (Inr (ms\<lparr>ms_ents := ms_ents ms @ entries1\<rparr>))
          else None
        }
      })"

definition memStorage :: "proto_lib \<Rightarrow> MemoryStorage \<Rightarrow> Storage" where
  "memStorage E ms =
     \<lparr>st_InitialState = Some (Inr (ms_InitialState ms)),
      st_Entries = ms_Entries E ms,
      st_Term = ms_Term ms,
      st_LastIndex = map_option Inr (ms_lastIndex ms),
      st_FirstIndex = map_option Inr (ms_firstIndex ms),
      st_Snapshot = Some (Inr (ms_Snapshot ms))\<rparr>"

section \<open>Specification\<close>

text \<open>
  A stored log: the index and term of the entry before the first one, and the entries.
  The bounds say that no index of it and no length wraps around.
\<close>

type_synonym stored_log = "u64 \<times> u64 \<times> Entry list"

definition boundedLog :: "u64 \<Rightarrow> Entry list \<Rightarrow> bool" where
  "boundedLog b es \<longleftrightarrow> unat b + length es + 1 < 2 ^ 64 \<and> length es + 1 < 2 ^ 63"

definition logTerm :: "stored_log \<Rightarrow> u64 \<Rightarrow> u64" where
  "logTerm L i = (case L of (b, bt, es) \<Rightarrow>
     if i = b then bt else e_Term (es ! (unat i - unat b - 1)))"

definition logRange :: "stored_log \<Rightarrow> u64 \<Rightarrow> u64 \<Rightarrow> Entry list" where
  "logRange L lo hi = (case L of (b, bt, es) \<Rightarrow>
     take (unat hi - unat lo) (drop (unat lo - unat b - 1) es))"

definition logLast :: "stored_log \<Rightarrow> u64" where
  "logLast L = (case L of (b, bt, es) \<Rightarrow> b + of_nat (length es))"

definition log_ok :: "stored_log \<Rightarrow> bool" where
  "log_ok L = (case L of (b, bt, es) \<Rightarrow> contiguous (b + 1) es \<and> boundedLog b es)"

definition storageHas :: "proto_lib \<Rightarrow> Storage \<Rightarrow> stored_log \<Rightarrow> bool" where
  "storageHas E s L \<longleftrightarrow>
     log_ok L \<and>
     st_FirstIndex s = Some (Inr (fst L + 1)) \<and>
     st_LastIndex s = Some (Inr (logLast L)) \<and>
     (\<forall>i. fst L \<le> i \<and> i \<le> logLast L \<longrightarrow> st_Term s i = Some (Inr (logTerm L i))) \<and>
     (\<forall>lo hi m. fst L < lo \<and> lo < hi \<and> hi \<le> logLast L + 1 \<longrightarrow>
        st_Entries s lo hi m = Some (Inr (limitSize E m (logRange L lo hi)))) \<and>
     (\<forall>lo hi m. lo \<le> fst L \<longrightarrow> st_Entries s lo hi m = Some (Inl ErrCompacted))"

text \<open>Writing entries from index \<open>f\<close> on.\<close>

definition logWrite :: "stored_log \<Rightarrow> u64 \<Rightarrow> Entry list \<Rightarrow> stored_log" where
  "logWrite L f ents = (case L of (b, bt, es) \<Rightarrow> (b, bt, take (unat f - unat b - 1) es @ ents))"

definition logCompact :: "stored_log \<Rightarrow> u64 \<Rightarrow> stored_log" where
  "logCompact L i = (case L of (b, bt, es) \<Rightarrow> (i, logTerm L i, drop (unat i - unat b) es))"

text \<open>The log a \<open>MemoryStorage\<close> holds: its first slot is the dummy entry.\<close>

definition ms_inv :: "MemoryStorage \<Rightarrow> bool" where
  "ms_inv ms \<longleftrightarrow> ms_ents ms \<noteq> [] \<and>
     contiguous (e_Index (hd (ms_ents ms))) (ms_ents ms) \<and>
     boundedLog (e_Index (hd (ms_ents ms))) (tl (ms_ents ms))"

definition ms_stored :: "MemoryStorage \<Rightarrow> stored_log" where
  "ms_stored ms = (e_Index (hd (ms_ents ms)), e_Term (hd (ms_ents ms)), tl (ms_ents ms))"

locale log_store =
  fixes E :: proto_lib
    and storage :: "'m \<Rightarrow> Storage"
    and append :: "Entry list \<Rightarrow> 'm \<Rightarrow> (storage_error + 'm) option"
    and compact :: "u64 \<Rightarrow> 'm \<Rightarrow> (storage_error + 'm) option"
    and overwrite :: "Snapshot \<Rightarrow> 'm \<Rightarrow> storage_error + 'm"
    and snapIndex :: "'m \<Rightarrow> u64"
    and invar :: "'m \<Rightarrow> bool"
    and stored :: "'m \<Rightarrow> stored_log"
  assumes storage_has: "invar m \<Longrightarrow> storageHas E (storage m) (stored m)"
    and append_stored: "invar m \<Longrightarrow> ents \<noteq> [] \<Longrightarrow> contiguous f ents \<Longrightarrow>
       fst (stored m) < f \<Longrightarrow> f \<le> logLast (stored m) + 1 \<Longrightarrow> log_ok (logWrite (stored m) f ents) \<Longrightarrow>
       \<exists>m'. append ents m = Some (Inr m') \<and> invar m' \<and> stored m' = logWrite (stored m) f ents \<and>
         snapIndex m' = snapIndex m"
    and compact_stored: "invar m \<Longrightarrow> fst (stored m) < i \<Longrightarrow> i \<le> logLast (stored m) \<Longrightarrow>
       \<exists>m'. compact i m = Some (Inr m') \<and> invar m' \<and> stored m' = logCompact (stored m) i"
    and overwrite_stored: "invar m \<Longrightarrow> snapIndex m = 0 \<or> snapIndex m < md_Index (sn_Metadata s) \<Longrightarrow>
       log_ok (md_Index (sn_Metadata s), md_Term (sn_Metadata s), []) \<Longrightarrow>
       \<exists>m'. overwrite s m = Inr m' \<and> invar m' \<and>
         stored m' = (md_Index (sn_Metadata s), md_Term (sn_Metadata s), [])"
begin

text \<open>Appending a batch of entries in two calls is the same as in one.\<close>

lemma append_in_batches:
  assumes "invar m" "xs \<noteq> []" "ys \<noteq> []" "contiguous f (xs @ ys)" "fst (stored m) < f"
    "f \<le> logLast (stored m) + 1" "log_ok (logWrite (stored m) f (xs @ ys))"
  shows "\<exists>m1 m2. append xs m = Some (Inr m1) \<and> append ys m1 = Some (Inr m2) \<and>
     invar m2 \<and> stored m2 = logWrite (stored m) f (xs @ ys)"
proof -
  obtain b bt es where L: "stored m = (b, bt, es)" by (cases "stored m")
  let ?k = "unat f - unat b - 1" and ?g = "f + of_nat (length xs)"
  have bounds: "unat b < unat f" "log_ok (stored m)"
    using assms(5) storage_has [OF assms(1)] by (auto simp: L word_less_nat_alt storageHas_def)
  have "unat (b + of_nat (length es) + 1) = unat b + length es + 1"
    using bounds(2) by (simp add: L log_ok_def boundedLog_def unat_word_ariths unat_of_nat)
  then have k: "?k \<le> length es"
    using assms(6) bounds(1) by (simp add: L logLast_def word_le_nat_alt)
  have len: "unat b + (?k + length xs + length ys) + 1 < 2 ^ 64"
    "?k + length xs + length ys + 1 < 2 ^ 63"
    using assms(7) k by (auto simp: L logWrite_def log_ok_def boundedLog_def)
  have w: "log_ok (logWrite (stored m) f xs)"
    using assms(7) k by (auto simp: L logWrite_def log_ok_def boundedLog_def contiguous_append)
  obtain m1 where m1: "append xs m = Some (Inr m1)" "invar m1"
    "stored m1 = (b, bt, take ?k es @ xs)"
    using append_stored [OF assms(1,2) _ assms(5,6) w] assms(4)
    by (auto simp: contiguous_append L logWrite_def)
  have g: "unat ?g = unat b + ?k + 1 + length xs"
    using len(1) bounds(1) by (simp add: unat_word_ariths unat_of_nat)
  have last: "logLast (stored m1) + 1 = ?g"
  proof -
    have "unat (logLast (stored m1) + 1) = unat ?g"
      using len(1) k g by (simp add: m1(3) logLast_def unat_word_ariths unat_of_nat)
    then show ?thesis by (simp only: word_unat_eq_iff)
  qed
  have "fst (stored m1) < ?g" using g by (simp add: m1(3) word_less_nat_alt)
  moreover have "logWrite (stored m1) ?g ys = logWrite (stored m) f (xs @ ys)"
    using g k by (simp add: m1(3) L logWrite_def)
  ultimately show ?thesis
    using append_stored [OF m1(2) assms(3), of ?g] assms(4,7) m1 last
    by (auto simp: contiguous_append)
qed

end

section \<open>\<open>MemoryStorage\<close> meets the contract\<close>

lemma ms_invE:
  assumes "ms_inv ms"
  obtains d es where "ms_ents ms = d # es" "contiguous (e_Index d + 1) es"
    "boundedLog (e_Index d) es" "ms_stored ms = (e_Index d, e_Term d, es)"
  using assms by (cases "ms_ents ms") (auto simp: ms_inv_def ms_stored_def)

lemma ms_index_eqs:
  assumes "ms_ents ms = d # es"
  shows "ms_offset ms = Some (e_Index d)" "ms_lastIndex ms = Some (e_Index d + of_nat (length es))"
    "ms_firstIndex ms = Some (e_Index d + 1)"
  using assms by (simp_all add: ms_offset_def ms_lastIndex_def ms_firstIndex_def go_index_def)

lemma nth_drop_dummy: "(i :: u64) \<noteq> b \<Longrightarrow> b \<le> i \<Longrightarrow> (d # es) ! (unat (i - b)) = es ! (unat i - unat b - 1)"
proof -
  assume a: "i \<noteq> b" "b \<le> i"
  then have "unat b < unat i" by (simp add: order.not_eq_order_implies_strict flip: word_less_nat_alt)
  then obtain n where "unat i - unat b = Suc n" by (metis Suc_diff_Suc)
  with a(2) show ?thesis by (simp add: unat_sub)
qed

lemma storageHas_memStorage:
  assumes "ms_inv ms" shows "storageHas E (memStorage E ms) (ms_stored ms)"
proof -
  from assms obtain d es where ms: "ms_ents ms = d # es" "contiguous (e_Index d + 1) es"
    "boundedLog (e_Index d) es" "ms_stored ms = (e_Index d, e_Term d, es)" by (rule ms_invE)
  let ?b = "e_Index d"
  note idx = ms_index_eqs [OF ms(1)]
  have bnd: "unat ?b + length es + 1 < 2 ^ 64" "length es + 1 < 2 ^ 63"
    using ms(3) by (auto simp: boundedLog_def)
  have last: "unat (?b + of_nat (length es)) = unat ?b + length es"
    "unat (?b + of_nat (length es) + 1) = unat ?b + length es + 1"
    using bnd by (simp_all add: unat_plus_nat unat_plus_nat1)
  have "st_Term (memStorage E ms) i = Some (Inr (logTerm (ms_stored ms) i))"
    if i: "?b \<le> i" "i \<le> ?b + of_nat (length es)" for i
  proof -
    have u: "unat (i - ?b) = unat i - unat ?b" "unat i - unat ?b \<le> length es"
      using i last by (simp_all add: unat_sub word_le_nat_alt)
    then have "sint (i - ?b) = int (unat i - unat ?b)" using bnd by (simp add: sint_small)
    then show ?thesis
      using i u nth_drop_dummy [of i ?b d es]
      by (auto simp: memStorage_def ms_Term_def idx ms(1,4) logTerm_def go_index_def linorder_not_less)
  qed
  moreover have "st_Entries (memStorage E ms) lo hi m = Some (Inr (limitSize E m (logRange (ms_stored ms) lo hi)))"
    if h: "?b < lo" "lo < hi" "hi \<le> ?b + of_nat (length es) + 1" for lo hi m
  proof -
    have u: "unat (lo - ?b) = unat lo - unat ?b" "unat (hi - ?b) = unat hi - unat ?b"
      "unat ?b < unat lo" "unat lo < unat hi" "unat hi \<le> unat ?b + length es + 1"
      using h last(2) by (simp_all add: unat_sub word_le_nat_alt word_less_nat_alt)
    then have "es \<noteq> []" by auto
    with h u show ?thesis
      by (auto simp: memStorage_def ms_Entries_def idx ms(1,4) logRange_def go_slice_def drop_Cons'
        panicIf_def linorder_not_less)
  qed
  moreover have "st_Entries (memStorage E ms) lo hi m = Some (Inl ErrCompacted)" if "lo \<le> ?b" for lo hi m
    using that by (simp add: memStorage_def ms_Entries_def idx)
  ultimately show ?thesis
    using ms(2,3) by (simp add: storageHas_def log_ok_def ms(4) logLast_def)
      (simp add: memStorage_def idx)
qed

lemma ms_Append_stored:
  assumes inv: "ms_inv ms" and ents: "ents \<noteq> []" "contiguous f ents"
    and f: "fst (ms_stored ms) < f" "f \<le> logLast (ms_stored ms) + 1"
    and ok: "log_ok (logWrite (ms_stored ms) f ents)"
  shows "\<exists>ms'. ms_Append ents ms = Some (Inr ms') \<and> ms_inv ms' \<and>
     ms_stored ms' = logWrite (ms_stored ms) f ents \<and> ms_snapshot ms' = ms_snapshot ms"
proof -
  from inv obtain d es where ms: "ms_ents ms = d # es" "contiguous (e_Index d + 1) es"
    "boundedLog (e_Index d) es" "ms_stored ms = (e_Index d, e_Term d, es)" by (rule ms_invE)
  obtain e0 rest where e0: "ents = e0 # rest" "e_Index e0 = f"
    using ents by (cases ents) auto
  let ?b = "e_Index d" and ?k = "unat f - unat (e_Index d) - 1"
  note idx = ms_index_eqs [OF ms(1)]
  have bnd: "unat ?b + length es + 1 < 2 ^ 64" "length es + 1 < 2 ^ 63"
    using ms(3) by (auto simp: boundedLog_def)
  have fu: "unat ?b < unat f" "unat f \<le> unat ?b + length es + 1"
    using f unat_plus_nat1(1) [OF bnd(1)] by (simp_all add: ms(4) logLast_def u64_arith)
  then have k: "?k \<le> length es" by simp
  have new: "unat ?b + (?k + length ents) + 1 < 2 ^ 64"
    using ok k by (simp add: ms(4) logWrite_def log_ok_def boundedLog_def min_absorb2)
  have lst: "unat (f + of_nat (length ents) - 1) = unat f + length ents - 1"
  proof -
    have "unat (f + of_nat (length ents)) = unat f + length ents"
      by (rule unat_plus_nat) (use new fu in simp)
    moreover from this have "1 \<le> f + of_nat (length ents)" using e0(1) by (simp add: word_le_nat_alt)
    ultimately show ?thesis by (simp add: unat_sub)
  qed
  have first: "unat (?b + 1) = unat ?b + 1" using bnd by (simp add: unat_word_ariths)
  have no_cut: "\<not> f + of_nat (length ents) - 1 < ?b + 1" "\<not> f < ?b + 1"
    using fu e0(1) unfolding word_less_nat_alt lst first by simp_all
  have off: "unat (f - ?b) = ?k + 1" using fu by (simp add: unat_sub word_le_nat_alt)
  have len: "unat (of_nat (Suc (length es)) :: u64) = Suc (length es)"
    using bnd by (simp add: unat_of_nat del: of_nat_Suc)
  let ?ms' = "ms\<lparr>ms_ents := d # take ?k es @ ents\<rparr>"
  have run: "ms_Append ents ms = Some (Inr ?ms')"
  proof (cases "?k < length es")
    case True
    then have "f - ?b < of_nat (Suc (length es))" by (simp add: word_less_nat_alt off len del: of_nat_Suc)
    with True no_cut show ?thesis
      by (simp add: ms_Append_def idx e0 ms(1) go_index_def go_slice_def off Let_def)
  next
    case False
    then have "f - ?b = of_nat (Suc (length es))"
      using k by (intro u64_eqI) (simp only: off len)
    with False k no_cut show ?thesis
      by (simp add: ms_Append_def idx e0 ms(1) go_index_def Let_def)
  qed
  have "ms_inv ?ms'"
    using ok by (simp add: ms_inv_def ms(4) log_ok_def logWrite_def)
  with run show ?thesis by (simp add: ms_stored_def ms(1) logWrite_def)
qed

lemma ms_Compact_stored:
  assumes inv: "ms_inv ms" and i: "fst (ms_stored ms) < i" "i \<le> logLast (ms_stored ms)"
  shows "\<exists>ms'. ms_Compact i ms = Some (Inr ms') \<and> ms_inv ms' \<and>
     ms_stored ms' = logCompact (ms_stored ms) i"
proof -
  from inv obtain d es where ms: "ms_ents ms = d # es" "contiguous (e_Index d + 1) es"
    "boundedLog (e_Index d) es" "ms_stored ms = (e_Index d, e_Term d, es)" by (rule ms_invE)
  let ?b = "e_Index d" and ?k = "unat i - unat (e_Index d)"
  note idx = ms_index_eqs [OF ms(1)]
  have bnd: "unat ?b + length es + 1 < 2 ^ 64" "length es + 1 < 2 ^ 63"
    using ms(3) by (auto simp: boundedLog_def)
  have u: "unat ?b < unat i" "unat i \<le> unat ?b + length es" "unat (i - ?b) = ?k"
    using i bnd by (simp_all add: ms(4) logLast_def u64_arith unat_plus_nat unat_sub)
  have e: "e_Index (es ! (?k - 1)) = i"
    using contiguous_nth [OF ms(2), of "?k - 1"] u by (intro u64_eqI) (simp add: unat_plus_nat1 bnd)
  let ?ms' = "ms\<lparr>ms_ents := emptyEntry\<lparr>e_Index := i, e_Term := e_Term (es ! (?k - 1))\<rparr> # drop ?k es\<rparr>"
  have le: "\<not> i \<le> ?b" "\<not> ?b + of_nat (length es) < i"
    using i by (simp_all add: ms(4) logLast_def)
  have run: "ms_Compact i ms = Some (Inr ?ms')"
    using u e by (simp add: ms_Compact_def idx ms(1) le go_index_def go_from_def nth_Cons' Let_def)
  have eq: "?b + 1 + of_nat ?k = i + 1" 
    using u(1,2) bnd(1) unat_plus_nat [of i 1] unat_plus_nat1(2) [of ?b ?k] by (intro u64_eqI) simp
  have "contiguous (i + 1) (drop ?k es)"
    by (rule contiguous_drop [OF ms(2), of ?k, unfolded eq]) (use u(2) in simp)
  then have "ms_inv ?ms'"
    using u(1,2) bnd by (simp add: ms_inv_def boundedLog_def)
  moreover have "i \<noteq> ?b" using le by auto
  ultimately show ?thesis
    using run by (simp add: ms_stored_def ms(1) logCompact_def logTerm_def)
qed

interpretation mem: log_store E "memStorage E" ms_Append ms_Compact ms_ApplySnapshot
  "\<lambda>ms. md_Index (sn_Metadata (ms_snapshot ms))" ms_inv ms_stored for E
proof
  fix m ents f
  assume "ms_inv m" "ents \<noteq> []" "contiguous f ents" "fst (ms_stored m) < f"
    "f \<le> logLast (ms_stored m) + 1" "log_ok (logWrite (ms_stored m) f ents)"
  from ms_Append_stored [OF this] show "\<exists>m'. ms_Append ents m = Some (Inr m') \<and> ms_inv m' \<and>
      ms_stored m' = logWrite (ms_stored m) f ents \<and>
      md_Index (sn_Metadata (ms_snapshot m')) = md_Index (sn_Metadata (ms_snapshot m))" by auto
next
  fix m and s :: Snapshot
  assume "ms_inv m" "md_Index (sn_Metadata (ms_snapshot m)) = 0 \<or>
      md_Index (sn_Metadata (ms_snapshot m)) < md_Index (sn_Metadata s)"
    "log_ok (md_Index (sn_Metadata s), md_Term (sn_Metadata s), [])"
  then show "\<exists>m'. ms_ApplySnapshot s m = Inr m' \<and> ms_inv m' \<and>
      ms_stored m' = (md_Index (sn_Metadata s), md_Term (sn_Metadata s), [])"
    by (auto simp: ms_ApplySnapshot_def Let_def ms_inv_def ms_stored_def log_ok_def
      simp flip: linorder_not_less)
qed (simp_all add: storageHas_memStorage ms_Compact_stored)

section \<open>Properties\<close>

text \<open>
  C34: a \<open>MemoryStorage\<close> serves the log written to it. Through the \<open>Storage\<close> interface
  it answers \<open>FirstIndex\<close>, \<open>LastIndex\<close>, \<open>Term\<close> and \<open>Entries\<close> for the log it holds;
  \<open>Append\<close> of consecutive entries that connect to the log replaces the tail from their
  first index on; \<open>Compact\<close> forgets the entries up to the compaction index and keeps its
  term. Neither panics in range.
\<close>

theorem MemoryStorage_serves_log:
  assumes "ms_inv ms"
  shows "storageHas E (memStorage E ms) (ms_stored ms) \<and>
    (\<forall>ents f. ents \<noteq> [] \<and> contiguous f ents \<and> fst (ms_stored ms) < f \<and>
       f \<le> logLast (ms_stored ms) + 1 \<and> log_ok (logWrite (ms_stored ms) f ents) \<longrightarrow>
       (\<exists>ms'. ms_Append ents ms = Some (Inr ms') \<and> ms_inv ms' \<and>
          storageHas E (memStorage E ms') (logWrite (ms_stored ms) f ents))) \<and>
    (\<forall>i. fst (ms_stored ms) < i \<and> i \<le> logLast (ms_stored ms) \<longrightarrow>
       (\<exists>ms'. ms_Compact i ms = Some (Inr ms') \<and> ms_inv ms' \<and>
          storageHas E (memStorage E ms') (logCompact (ms_stored ms) i)))"
proof (intro conjI allI impI)
  show "storageHas E (memStorage E ms) (ms_stored ms)" by (rule mem.storage_has [OF assms])
next
  fix ents f
  assume "ents \<noteq> [] \<and> contiguous f ents \<and> fst (ms_stored ms) < f \<and>
       f \<le> logLast (ms_stored ms) + 1 \<and> log_ok (logWrite (ms_stored ms) f ents)"
  then obtain ms' where "ms_Append ents ms = Some (Inr ms')" "ms_inv ms'"
    "ms_stored ms' = logWrite (ms_stored ms) f ents"
    using mem.append_stored [OF assms] by blast
  with mem.storage_has [of ms' E] show "\<exists>ms'. ms_Append ents ms = Some (Inr ms') \<and> ms_inv ms' \<and>
      storageHas E (memStorage E ms') (logWrite (ms_stored ms) f ents)" by auto
next
  fix i
  assume "fst (ms_stored ms) < i \<and> i \<le> logLast (ms_stored ms)"
  then obtain ms' where "ms_Compact i ms = Some (Inr ms')" "ms_inv ms'"
    "ms_stored ms' = logCompact (ms_stored ms) i"
    using mem.compact_stored [OF assms] by blast
  with mem.storage_has [of ms' E] show "\<exists>ms'. ms_Compact i ms = Some (Inr ms') \<and> ms_inv ms' \<and>
      storageHas E (memStorage E ms') (logCompact (ms_stored ms) i)" by auto
qed

theorem MemoryStorage_serves_log_witness:
  "\<exists>ms'. ms_Append [emptyEntry\<lparr>e_Index := 1, e_Term := 1\<rparr>, emptyEntry\<lparr>e_Index := 2, e_Term := 1\<rparr>]
     NewMemoryStorage = Some (Inr ms') \<and> ms_inv ms'"
proof -
  have "ms_inv NewMemoryStorage"
    by (simp add: ms_inv_def NewMemoryStorage_def boundedLog_def emptyEntry_def)
  note MemoryStorage_serves_log [OF this, THEN conjunct2, THEN conjunct1, rule_format,
      of "[emptyEntry\<lparr>e_Index := 1, e_Term := 1\<rparr>, emptyEntry\<lparr>e_Index := 2, e_Term := 1\<rparr>]" 1]
  then show ?thesis
    by (simp add: NewMemoryStorage_def ms_stored_def logLast_def logWrite_def log_ok_def
      boundedLog_def emptyEntry_def) blast
qed

end
