(* ===== verification/Unstable.thy ===== *)
theory Unstable
  imports Storage
begin

text \<open>
  \<open>log_unstable.go\<close>: the entries and the snapshot that are not yet in stable storage.
  Slicing and indexing outside the entries panics. Reallocation of the backing array
  (\<open>shrinkEntriesArray\<close> and the full slice expressions) has no effect on the value of a
  slice and is not modelled.
\<close>

section \<open>Model\<close>

record unstable =
  u_snapshot :: "Snapshot option"
  u_entries :: "Entry list"
  u_offset :: u64
  u_snapshotInProgress :: bool
  u_offsetInProgress :: u64

abbreviation snapI :: "Snapshot \<Rightarrow> u64" where
  "snapI s \<equiv> md_Index (sn_Metadata s)"

abbreviation snapT :: "Snapshot \<Rightarrow> u64" where
  "snapT s \<equiv> md_Term (sn_Metadata s)"

definition maybeFirstIndex :: "unstable \<Rightarrow> u64 option" where
  "maybeFirstIndex u = (case u_snapshot u of Some s \<Rightarrow> Some (snapI s + 1) | None \<Rightarrow> None)"

definition maybeLastIndex :: "unstable \<Rightarrow> u64 option" where
  "maybeLastIndex u =
     (let l = length (u_entries u) in
      if l \<noteq> 0 then Some (u_offset u + of_nat l - 1)
      else (case u_snapshot u of Some s \<Rightarrow> Some (snapI s) | None \<Rightarrow> None))"

text \<open>The outer \<open>option\<close> is the panic, the inner one the second result.\<close>

definition maybeTerm :: "u64 \<Rightarrow> unstable \<Rightarrow> u64 option option" where
  "maybeTerm i u =
     (if i < u_offset u then
        (case u_snapshot u of
           Some s \<Rightarrow> Some (if snapI s = i then Some (snapT s) else None)
         | None \<Rightarrow> Some None)
      else
        case maybeLastIndex u of
          None \<Rightarrow> Some None
        | Some lst \<Rightarrow>
            if i > lst then Some None
            else map_option (\<lambda>e. Some (e_Term e)) (go_index (u_entries u) (unat (i - u_offset u))))"

text \<open>Slicing from a Go \<open>int\<close>, which may be negative after a conversion.\<close>

definition go_fromI :: "'a list \<Rightarrow> int \<Rightarrow> 'a list option" where
  "go_fromI xs i = (if i < 0 then None else go_from xs (nat i))"

definition nextEntries :: "unstable \<Rightarrow> Entry list option" where
  "nextEntries u =
     (let inProgress = sint (u_offsetInProgress u - u_offset u) in
      if int (length (u_entries u)) = inProgress then Some []
      else go_fromI (u_entries u) inProgress)"

definition nextSnapshot :: "unstable \<Rightarrow> Snapshot option" where
  "nextSnapshot u = (if u_snapshotInProgress u then None else u_snapshot u)"

definition acceptInProgress :: "unstable \<Rightarrow> unstable" where
  "acceptInProgress u =
     (let u1 = (if length (u_entries u) > 0
                then u\<lparr>u_offsetInProgress := e_Index (u_entries u ! (length (u_entries u) - 1)) + 1\<rparr>
                else u)
      in if u_snapshot u1 \<noteq> None then u1\<lparr>u_snapshotInProgress := True\<rparr> else u1)"

definition u_stableTo :: "entryID \<Rightarrow> unstable \<Rightarrow> unstable option" where
  "u_stableTo i u = do {
     r \<leftarrow> maybeTerm (eid_index i) u;
     case r of
       None \<Rightarrow> Some u
     | Some gt \<Rightarrow>
         if eid_index i < u_offset u then Some u
         else if gt \<noteq> eid_term i then Some u
         else do {
           let num = sint (eid_index i + 1 - u_offset u);
           ents \<leftarrow> go_fromI (u_entries u) num;
           Some (u\<lparr>u_entries := ents, u_offset := eid_index i + 1,
                   u_offsetInProgress := max (u_offsetInProgress u) (eid_index i + 1)\<rparr>)
         }
   }"

definition u_stableSnapTo :: "u64 \<Rightarrow> unstable \<Rightarrow> unstable" where
  "u_stableSnapTo i u =
     (case u_snapshot u of
        Some s \<Rightarrow> if snapI s = i then u\<lparr>u_snapshot := None, u_snapshotInProgress := False\<rparr> else u
      | None \<Rightarrow> u)"

definition u_restore :: "Snapshot \<Rightarrow> unstable \<Rightarrow> unstable" where
  "u_restore s u = u\<lparr>u_offset := snapI s + 1, u_offsetInProgress := snapI s + 1,
     u_entries := [], u_snapshot := Some s, u_snapshotInProgress := False\<rparr>"

definition u_mustCheckOutOfBounds :: "u64 \<Rightarrow> u64 \<Rightarrow> unstable \<Rightarrow> unit option" where
  "u_mustCheckOutOfBounds lo hi u = do {
     panicIf (lo > hi);
     let upper = u_offset u + of_nat (length (u_entries u));
     panicIf (lo < u_offset u \<or> hi > upper)
   }"

definition u_slice :: "u64 \<Rightarrow> u64 \<Rightarrow> unstable \<Rightarrow> Entry list option" where
  "u_slice lo hi u = do {
     u_mustCheckOutOfBounds lo hi u;
     go_slice (u_entries u) (unat (lo - u_offset u)) (unat (hi - u_offset u))
   }"

definition truncateAndAppend :: "Entry list \<Rightarrow> unstable \<Rightarrow> unstable option" where
  "truncateAndAppend ents u = do {
     e0 \<leftarrow> go_index ents 0;
     let fromIndex = e_Index e0;
     if fromIndex = u_offset u + of_nat (length (u_entries u)) then
       Some (u\<lparr>u_entries := u_entries u @ ents\<rparr>)
     else if fromIndex \<le> u_offset u then
       Some (u\<lparr>u_entries := ents, u_offset := fromIndex, u_offsetInProgress := fromIndex\<rparr>)
     else do {
       keep \<leftarrow> u_slice (u_offset u) fromIndex u;
       Some (u\<lparr>u_entries := keep @ ents,
               u_offsetInProgress := min (u_offsetInProgress u) fromIndex\<rparr>)
     }
   }"

section \<open>Invariant\<close>

text \<open>
  \<open>entries[i]\<close> has log position \<open>i + offset\<close>, \<open>offset \<le> offsetInProgress\<close>, the part in
  progress lies within the entries, a pending snapshot ends right before the entries, and
  no index wraps around.
\<close>

definition u_inv :: "unstable \<Rightarrow> bool" where
  "u_inv u \<longleftrightarrow>
     contiguous (u_offset u) (u_entries u) \<and> 0 < u_offset u \<and>
     unat (u_offset u) + length (u_entries u) < 2 ^ 64 \<and> length (u_entries u) < 2 ^ 63 \<and>
     u_offset u \<le> u_offsetInProgress u \<and>
     unat (u_offsetInProgress u) \<le> unat (u_offset u) + length (u_entries u) \<and>
     (\<forall>s. u_snapshot u = Some s \<longrightarrow> snapI s = u_offset u - 1)"

section \<open>The operations under the invariant\<close>

lemma u_inv_facts:
  assumes "u_inv u"
  shows "unat (u_offset u + of_nat (length (u_entries u))) = unat (u_offset u) + length (u_entries u)"
    "unat (u_offset u - 1) = unat (u_offset u) - 1" "0 < unat (u_offset u)"
    "u_entries u \<noteq> [] \<Longrightarrow> unat (u_offset u + of_nat (length (u_entries u)) - 1) =
       unat (u_offset u) + length (u_entries u) - 1"
proof -
  have u: "unat (u_offset u) + length (u_entries u) < 2 ^ 64" "0 < u_offset u"
    using assms by (simp_all add: u_inv_def)
  show l: "unat (u_offset u + of_nat (length (u_entries u))) = unat (u_offset u) + length (u_entries u)"
    using u(1) by (rule unat_plus_nat)
  show p: "0 < unat (u_offset u)" using u(2) by (simp add: word_less_nat_alt)
  then show "unat (u_offset u - 1) = unat (u_offset u) - 1"
    by (simp add: unat_sub word_le_nat_alt)
  from l p have "1 \<le> u_offset u + of_nat (length (u_entries u))" by (simp add: word_le_nat_alt)
  then show "unat (u_offset u + of_nat (length (u_entries u)) - 1) =
       unat (u_offset u) + length (u_entries u) - 1" by (simp add: unat_sub l)
qed

lemma maybeLastIndex_eq:
  "u_inv u \<Longrightarrow> maybeLastIndex u =
     (if u_entries u = [] \<and> u_snapshot u = None then None
      else Some (u_offset u + of_nat (length (u_entries u)) - 1))"
  by (auto simp: maybeLastIndex_def u_inv_def Let_def split: option.splits)

lemma maybeTerm_eq:
  assumes inv: "u_inv u"
  shows "maybeTerm i u =
     (if u_offset u \<le> i \<and> unat i < unat (u_offset u) + length (u_entries u)
      then Some (Some (e_Term (u_entries u ! (unat i - unat (u_offset u)))))
      else if i = u_offset u - 1 then Some (map_option snapT (u_snapshot u))
      else Some None)"
proof (cases "i < u_offset u")
  case True
  with inv show ?thesis
    by (auto simp: maybeTerm_def u_inv_def split: option.splits)
next
  case False
  note f = u_inv_facts [OF inv]
  have ge: "\<not> i < u_offset u" "u_offset u \<le> i" "unat (u_offset u) \<le> unat i"
    using False by (simp_all add: word_less_nat_alt word_le_nat_alt)
  have ne: "i \<noteq> u_offset u - 1" "u_offset u - 1 < i"
    using ge(3) f(2,3) by (auto simp: word_less_nat_alt)
  show ?thesis
  proof (cases "u_entries u = []")
    case True
    with ge ne show ?thesis
      by (simp add: maybeTerm_def maybeLastIndex_eq [OF inv])
  next
    case ents: False
    have last: "u_offset u + of_nat (length (u_entries u)) - 1 < i \<longleftrightarrow>
        \<not> unat i < unat (u_offset u) + length (u_entries u)"
      using ents f(3) unfolding word_less_nat_alt f(4) [OF ents] by (cases "u_entries u") auto
    show ?thesis
    proof (cases "unat i < unat (u_offset u) + length (u_entries u)")
      case True
      then have "unat (i - u_offset u) < length (u_entries u)" using ge by (simp add: unat_sub) 
      with True ge ents last show ?thesis
        by (simp add: maybeTerm_def maybeLastIndex_eq [OF inv] go_index_def unat_sub)
    next
      case out: False
      with ge ne ents last show ?thesis
        by (simp add: maybeTerm_def maybeLastIndex_eq [OF inv])
    qed
  qed
qed

lemma go_fromI_int [simp]: "go_fromI xs (int k) = go_from xs k"
  by (simp add: go_fromI_def)

lemma nextEntries_eq:
  assumes "u_inv u"
  shows "nextEntries u = Some (drop (unat (u_offsetInProgress u) - unat (u_offset u)) (u_entries u))"
proof -
  have b: "u_offset u \<le> u_offsetInProgress u" "length (u_entries u) < 2 ^ 63"
    "unat (u_offsetInProgress u) \<le> unat (u_offset u) + length (u_entries u)"
    using assms by (simp_all add: u_inv_def)
  let ?d = "unat (u_offsetInProgress u) - unat (u_offset u)"
  have "unat (u_offsetInProgress u - u_offset u) = ?d" using b(1) by (simp add: unat_sub)
  then have "sint (u_offsetInProgress u - u_offset u) = int ?d" using b by (simp add: sint_small)
  with b(3) show ?thesis
    by (auto simp: nextEntries_def go_fromI_def go_from_def nat_eq_iff Let_def)
qed

lemma last_entry_index:
  assumes "u_inv u" "u_entries u \<noteq> []"
  shows "e_Index (u_entries u ! (length (u_entries u) - 1)) + 1 = u_offset u + of_nat (length (u_entries u))"
proof -
  have "e_Index (u_entries u ! (length (u_entries u) - 1)) = u_offset u + of_nat (length (u_entries u) - 1)"
    using assms by (intro contiguous_nth) (simp_all add: u_inv_def)
  moreover have "(of_nat (length (u_entries u)) :: u64) = of_nat (length (u_entries u) - 1) + 1"
    using assms(2) by (cases "u_entries u") simp_all
  ultimately show ?thesis by simp
qed

lemma acceptInProgress_eq:
  assumes "u_inv u"
  shows "acceptInProgress u = u\<lparr>u_offsetInProgress := u_offset u + of_nat (length (u_entries u)),
     u_snapshotInProgress := (u_snapshot u \<noteq> None \<or> u_snapshotInProgress u)\<rparr>"
proof (cases "u_entries u = []")
  case True
  with assms have "u_offsetInProgress u = u_offset u"
    by (auto simp: u_inv_def word_le_nat_alt intro: u64_eqI)
  with True show ?thesis by (cases u) (auto simp: acceptInProgress_def Let_def)
next
  case False
  with last_entry_index [OF assms] show ?thesis
    by (cases u) (auto simp: acceptInProgress_def Let_def)
qed

lemma u_inv_acceptInProgress: "u_inv u \<Longrightarrow> u_inv (acceptInProgress u)"
  using u_inv_facts(1) [of u] by (simp add: acceptInProgress_eq) (simp add: u_inv_def word_le_nat_alt)

lemma u_stableTo_eq:
  assumes inv: "u_inv u"
  shows "u_stableTo i u = Some
     (if u_offset u \<le> eid_index i \<and> unat (eid_index i) < unat (u_offset u) + length (u_entries u) \<and>
         e_Term (u_entries u ! (unat (eid_index i) - unat (u_offset u))) = eid_term i
      then u\<lparr>u_entries := drop (unat (eid_index i) + 1 - unat (u_offset u)) (u_entries u),
             u_offset := eid_index i + 1,
             u_offsetInProgress := max (u_offsetInProgress u) (eid_index i + 1)\<rparr>
      else u)"
proof (cases "u_offset u \<le> eid_index i \<and> unat (eid_index i) < unat (u_offset u) + length (u_entries u)")
  case True
  let ?i = "eid_index i"
  have b: "unat (u_offset u) + length (u_entries u) < 2 ^ 64" "length (u_entries u) < 2 ^ 63"
    using inv by (simp_all add: u_inv_def)
  have i1: "unat (?i + 1) = unat ?i + 1"
    using unat_plus_nat [of ?i 1] True b by simp
  obtain k where k: "k = unat ?i + 1 - unat (u_offset u)" by simp
  have "unat (?i + 1 - u_offset u) = k"
    using True i1 by (simp add: unat_sub word_le_nat_alt k)
  moreover have "k \<le> length (u_entries u)" using True by (auto simp: k)
  ultimately have s: "sint (?i + 1 - u_offset u) = int k" "k \<le> length (u_entries u)"
    using b by (simp_all add: sint_small)
  have "\<not> ?i < u_offset u" using True by (simp add: linorder_not_less)
  then show ?thesis
    using True s(2) unfolding u_stableTo_def maybeTerm_eq [OF inv] k [symmetric]
    by (simp add: s(1) go_from_def)
next
  case False
  then have "eid_index i = u_offset u - 1 \<Longrightarrow> eid_index i < u_offset u"
    using u_inv_facts(2,3) [OF inv] by (simp add: word_less_nat_alt)
  with False show ?thesis
    by (auto simp: u_stableTo_def maybeTerm_eq [OF inv] split: option.splits)
qed

lemma u_inv_stableTo:
  assumes inv: "u_inv u" and snap: "u_snapshot u = None" and run: "u_stableTo i u = Some u'"
  shows "u_inv u'"
proof (cases "u_offset u \<le> eid_index i \<and> unat (eid_index i) < unat (u_offset u) + length (u_entries u) \<and>
         e_Term (u_entries u ! (unat (eid_index i) - unat (u_offset u))) = eid_term i")
  case True
  let ?i = "eid_index i" and ?k = "unat (eid_index i) + 1 - unat (u_offset u)"
  have b: "unat (u_offset u) + length (u_entries u) < 2 ^ 64" "length (u_entries u) < 2 ^ 63"
    "contiguous (u_offset u) (u_entries u)"
    "unat (u_offsetInProgress u) \<le> unat (u_offset u) + length (u_entries u)"
    using inv by (simp_all add: u_inv_def)
  have i1: "unat (?i + 1) = unat ?i + 1" using unat_plus_nat [of ?i 1] True b by simp
  have "u_offset u + of_nat ?k = ?i + 1"
    using True b i1 by (intro u64_eqI) (subst unat_plus_nat; auto simp: word_le_nat_alt)
  then have "contiguous (?i + 1) (drop ?k (u_entries u))"
    using contiguous_drop [OF b(3), of ?k] True by auto
  moreover have "unat (max (u_offsetInProgress u) (?i + 1)) \<le> unat (?i + 1) + (length (u_entries u) - ?k)"
    using b(4) True i1 by (auto simp: max_def word_le_nat_alt)
  moreover have "unat (?i + 1) + (length (u_entries u) - ?k) < 2 ^ 64" "0 < ?i + 1"
    using b True i1 by (auto simp: word_le_nat_alt word_less_nat_alt)
  ultimately show ?thesis
    using run True b snap by (auto simp: u_stableTo_eq [OF inv] u_inv_def)
next
  case False
  with run inv show ?thesis by (auto simp: u_stableTo_eq [OF inv])
qed

lemma truncateAndAppend_eq:
  assumes inv: "u_inv u" and ents: "ents \<noteq> []" "contiguous f ents" and f: "0 < f"
    "unat f \<le> unat (u_offset u) + length (u_entries u)"
    and snap: "u_snapshot u \<noteq> None \<Longrightarrow> u_offset u \<le> f"
    and bnd: "unat f + length ents < 2 ^ 64"
      "unat f - unat (u_offset u) + length ents < 2 ^ 63"
  defines "u' \<equiv> u\<lparr>u_entries := take (unat f - unat (u_offset u)) (u_entries u) @ ents,
     u_offset := min (u_offset u) f, u_offsetInProgress := min (u_offsetInProgress u) f\<rparr>"
  shows "truncateAndAppend ents u = Some u'" "u_inv u'"
proof -
  obtain e0 rest where e0: "ents = e0 # rest" "e_Index e0 = f" using ents by (cases ents) auto
  let ?off = "u_offset u" and ?es = "u_entries u" and ?oip = "u_offsetInProgress u"
  have i: "contiguous ?off ?es" "0 < ?off" "unat ?off + length ?es < 2 ^ 64" "?off \<le> ?oip"
    "unat ?oip \<le> unat ?off + length ?es"
    using inv by (simp_all add: u_inv_def)
  note facts = u_inv_facts [OF inv]
  consider (tail) "f = ?off + of_nat (length ?es)"
    | (replace) "f \<noteq> ?off + of_nat (length ?es)" "f \<le> ?off"
    | (middle) "f \<noteq> ?off + of_nat (length ?es)" "?off < f" by fastforce
  then show "truncateAndAppend ents u = Some u'"
  proof cases
    case tail
    then have "unat f = unat ?off + length ?es" using facts(1) by simp
    moreover from this have "min ?off f = ?off" "min ?oip f = ?oip"
      using i by (auto simp: min_def word_le_nat_alt intro: u64_eqI)
    ultimately show ?thesis
      using tail e0 by (simp add: truncateAndAppend_def u'_def go_index_def)
  next
    case replace
    then have "min ?off f = f" "min ?oip f = f" "unat f - unat ?off = 0"
      using i(4) by (auto simp: min_def word_le_nat_alt intro: u64_eqI)
    with replace e0 show ?thesis by (simp add: truncateAndAppend_def u'_def go_index_def)
  next
    case middle
    then have "min ?off f = ?off" "unat (f - ?off) = unat f - unat ?off"
      by (simp_all add: min_def unat_sub order_less_imp_le)
    moreover have "u_slice ?off f u = Some (take (unat f - unat ?off) ?es)"
      using middle f(2) calculation(2) facts(1)
      by (simp add: u_slice_def u_mustCheckOutOfBounds_def go_slice_def word_less_nat_alt linorder_not_less)
    ultimately show ?thesis
      using middle e0 by (simp add: truncateAndAppend_def u'_def go_index_def linorder_not_le)
  qed
  show "u_inv u'"
  proof (cases "f \<le> ?off")
    case True
    then have "min ?off f = f" "min ?oip f = f" "unat f - unat ?off = 0"
      using i(4) by (auto simp: min_def word_le_nat_alt intro: u64_eqI)
    moreover have "f = ?off" if "u_snapshot u \<noteq> None" using snap [OF that] True by simp
    ultimately show ?thesis
      using inv ents f bnd unfolding u'_def by (auto simp: u_inv_def)
  next
    case False
    then have m: "min ?off f = ?off" "unat ?off < unat f"
      by (simp_all add: min_def word_le_nat_alt)
    have "contiguous ?off (take (unat f - unat ?off) ?es @ ents)"
    proof -
      have "?off + of_nat (unat f - unat ?off) = f"
        using m(2) f(2) i(3) by (intro u64_eqI) (subst unat_plus_nat; simp)
      with f(2) show ?thesis by (simp add: contiguous_append contiguous_take i(1) ents(2) min_absorb2)
    qed
    moreover have "?off \<le> min ?oip f" using i(4) False by (auto simp: min_def word_le_nat_alt)
    moreover have "unat (min ?oip f) \<le> unat f" by (auto simp: min_def word_le_nat_alt)
    ultimately show ?thesis
      using inv bnd f(2) m unfolding u'_def by (auto simp: u_inv_def min_absorb2)
  qed
qed

lemma u_inv_restore:
  "unat (snapI s) + 1 < 2 ^ 64 \<Longrightarrow> u_inv (u_restore s u)"
  using unat_plus_nat [of "snapI s" 1] by (simp add: u_inv_def u_restore_def word_less_nat_alt)

lemma u_slice_eq:
  assumes inv: "u_inv u" and "u_offset u \<le> lo" "lo \<le> hi"
    "unat hi \<le> unat (u_offset u) + length (u_entries u)"
  shows "u_slice lo hi u = Some (take (unat hi - unat lo) (drop (unat lo - unat (u_offset u)) (u_entries u)))"
proof -
  have "unat (lo - u_offset u) = unat lo - unat (u_offset u)"
    "unat (hi - u_offset u) = unat hi - unat (u_offset u)"
    using assms by (simp_all add: unat_sub)
  moreover have "unat lo - unat (u_offset u) \<le> unat hi - unat (u_offset u)"
    "unat hi - unat (u_offset u) \<le> length (u_entries u)" "unat (u_offset u) \<le> unat lo"
    using assms by (auto simp: word_le_nat_alt)
  ultimately show ?thesis
    using assms u_inv_facts(1) [OF inv]
    by (simp add: u_slice_def u_mustCheckOutOfBounds_def go_slice_def word_less_nat_alt word_le_nat_alt
      linorder_not_less)
qed

end
