(* ===== verification/RaftLog.thy ===== *)
theory RaftLog
  imports Unstable
begin

text \<open>
  \<open>log.go\<close>: the raft log, stable storage and unstable tail taken together.

  Every method is a function on the record \<open>raftLog\<close>; \<open>None\<close> is a panic (\<open>Panicf\<close>,
  an unexpected storage error, an index out of range) and \<open>Inl\<close> a returned error. The
  abstraction \<open>absLog\<close> is the one sequence of entries that the two parts present, and the
  lemmas state each operation on it.
\<close>

section \<open>Model\<close>

record raftLog =
  l_storage :: Storage
  l_unstable :: unstable
  l_committed :: u64
  l_applying :: u64
  l_applied :: u64
  l_maxApplyingEntsSize :: u64
  l_applyingEntsSize :: u64
  l_applyingEntsPaused :: bool

text \<open>A caller that panics on an error.\<close>

definition mustOk :: "('e + 'a) option \<Rightarrow> 'a option" where
  "mustOk r = Option.bind r (\<lambda>x. case x of Inl e \<Rightarrow> None | Inr a \<Rightarrow> Some a)"

definition newLogWithSize :: "Storage \<Rightarrow> u64 \<Rightarrow> raftLog option" where
  "newLogWithSize storage maxApplyingEntsSize = do {
     firstIndex \<leftarrow> mustOk (st_FirstIndex storage);
     lastIndex \<leftarrow> mustOk (st_LastIndex storage);
     Some \<lparr>l_storage = storage,
       l_unstable = \<lparr>u_snapshot = None, u_entries = [], u_offset = lastIndex + 1,
         u_snapshotInProgress = False, u_offsetInProgress = lastIndex + 1\<rparr>,
       l_committed = firstIndex - 1, l_applying = firstIndex - 1, l_applied = firstIndex - 1,
       l_maxApplyingEntsSize = maxApplyingEntsSize, l_applyingEntsSize = 0,
       l_applyingEntsPaused = False\<rparr>
   }"

definition noLimit :: u64 where
  "noLimit = maxU64"

definition newLog :: "Storage \<Rightarrow> raftLog option" where
  "newLog storage = newLogWithSize storage noLimit"

definition l_firstIndex :: "raftLog \<Rightarrow> u64 option" where
  "l_firstIndex l =
     (case maybeFirstIndex (l_unstable l) of
        Some i \<Rightarrow> Some i
      | None \<Rightarrow> mustOk (st_FirstIndex (l_storage l)))"

definition l_lastIndex :: "raftLog \<Rightarrow> u64 option" where
  "l_lastIndex l =
     (case maybeLastIndex (l_unstable l) of
        Some i \<Rightarrow> Some i
      | None \<Rightarrow> mustOk (st_LastIndex (l_storage l)))"

definition l_term :: "u64 \<Rightarrow> raftLog \<Rightarrow> (storage_error + u64) option" where
  "l_term i l = do {
     r \<leftarrow> maybeTerm i (l_unstable l);
     case r of
       Some t \<Rightarrow> Some (Inr t)
     | None \<Rightarrow> do {
         fi \<leftarrow> l_firstIndex l;
         if i + 1 < fi then Some (Inl ErrCompacted)
         else do {
           li \<leftarrow> l_lastIndex l;
           if i > li then Some (Inl ErrUnavailable)
           else do {
             q \<leftarrow> st_Term (l_storage l) i;
             case q of
               Inr t \<Rightarrow> Some (Inr t)
             | Inl err \<Rightarrow>
                 if err = ErrCompacted \<or> err = ErrUnavailable then Some (Inl err) else None
           }
         }
       }
   }"

definition zeroTermOnOutOfBounds :: "storage_error + u64 \<Rightarrow> u64 option" where
  "zeroTermOnOutOfBounds r =
     (case r of
        Inr t \<Rightarrow> Some t
      | Inl err \<Rightarrow> if err = ErrCompacted \<or> err = ErrUnavailable then Some 0 else None)"

definition matchTerm :: "entryID \<Rightarrow> raftLog \<Rightarrow> bool option" where
  "matchTerm i l = do {
     r \<leftarrow> l_term (eid_index i) l;
     Some (case r of Inl err \<Rightarrow> False | Inr t \<Rightarrow> t = eid_term i)
   }"

definition l_lastEntryID :: "raftLog \<Rightarrow> entryID option" where
  "l_lastEntryID l = do {
     index \<leftarrow> l_lastIndex l;
     t \<leftarrow> mustOk (l_term index l);
     Some (EntryID t index)
   }"

text \<open>The first branch also evaluates the arguments of its log line.\<close>

fun findConflict :: "raftLog \<Rightarrow> Entry list \<Rightarrow> u64 option" where
  "findConflict l [] = Some 0"
| "findConflict l (e # es) = do {
     let i = pbEntryID e;
     m \<leftarrow> matchTerm i l;
     if \<not> m then do {
       li \<leftarrow> l_lastIndex l;
       (if eid_index i \<le> li then do {
          t \<leftarrow> l_term (eid_index i) l;
          zeroTermOnOutOfBounds t;
          Some ()
        } else Some ());
       Some (eid_index i)
     }
     else findConflict l es
   }"

function findConflictByTerm :: "raftLog \<Rightarrow> u64 \<Rightarrow> u64 \<Rightarrow> (u64 \<times> u64) option" where
  "findConflictByTerm l index term =
     (if index > 0 then
        (case l_term index l of
           None \<Rightarrow> None
         | Some (Inl err) \<Rightarrow> Some (index, 0)
         | Some (Inr ourTerm) \<Rightarrow>
             if ourTerm \<le> term then Some (index, ourTerm)
             else findConflictByTerm l (index - 1) term)
      else Some (0, 0))"
  by pat_completeness auto

termination
proof (relation "measure (\<lambda>(l, index, term). unat index)")
  fix l :: raftLog and index "term" :: u64
  assume "0 < index"
  then have "unat (index - 1) = unat index - 1" "0 < unat index"
    by (simp_all add: unat_sub word_le_nat_alt word_less_nat_alt)
  then show "((l, index - 1, term), l, index, term) \<in> measure (\<lambda>(l, index, term). unat index)"
    by simp
qed simp

declare findConflictByTerm.simps [simp del]

definition l_commitTo :: "u64 \<Rightarrow> raftLog \<Rightarrow> raftLog option" where
  "l_commitTo tocommit l =
     (if l_committed l < tocommit then do {
        li \<leftarrow> l_lastIndex l;
        panicIf (li < tocommit);
        Some (l\<lparr>l_committed := tocommit\<rparr>)
      } else Some l)"

definition l_append :: "Entry list \<Rightarrow> raftLog \<Rightarrow> (u64 \<times> raftLog) option" where
  "l_append ents l =
     (if length ents = 0 then do { li \<leftarrow> l_lastIndex l; Some (li, l) }
      else do {
        e0 \<leftarrow> go_index ents 0;
        let after = e_Index e0 - 1;
        panicIf (after < l_committed l);
        u \<leftarrow> truncateAndAppend ents (l_unstable l);
        let l1 = l\<lparr>l_unstable := u\<rparr>;
        li \<leftarrow> l_lastIndex l1;
        Some (li, l1)
      })"

text \<open>\<open>(lastnewi, ok)\<close> and the log.\<close>

definition l_maybeAppend :: "logSlice \<Rightarrow> u64 \<Rightarrow> raftLog \<Rightarrow> ((u64 \<times> bool) \<times> raftLog) option" where
  "l_maybeAppend a committed l = do {
     m \<leftarrow> matchTerm (ls_prev a) l;
     if \<not> m then Some ((0, False), l)
     else do {
       let lastnewi = eid_index (ls_prev a) + of_nat (length (ls_entries a));
       ci \<leftarrow> findConflict l (ls_entries a);
       l1 \<leftarrow> (if ci = 0 then Some l
             else if ci \<le> l_committed l then None
             else do {
               let offset = eid_index (ls_prev a) + 1;
               panicIf (ci - offset > of_nat (length (ls_entries a)));
               ents \<leftarrow> go_from (ls_entries a) (unat (ci - offset));
               (_, l') \<leftarrow> l_append ents l;
               Some l'
             });
       l2 \<leftarrow> l_commitTo (min committed lastnewi) l1;
       Some ((lastnewi, True), l2)
     }
   }"

definition l_nextUnstableEnts :: "raftLog \<Rightarrow> Entry list option" where
  "l_nextUnstableEnts l = nextEntries (l_unstable l)"

definition l_hasNextUnstableEnts :: "raftLog \<Rightarrow> bool option" where
  "l_hasNextUnstableEnts l = do { ents \<leftarrow> l_nextUnstableEnts l; Some (length ents > 0) }"

definition l_hasNextOrInProgressUnstableEnts :: "raftLog \<Rightarrow> bool" where
  "l_hasNextOrInProgressUnstableEnts l \<longleftrightarrow> length (u_entries (l_unstable l)) > 0"

definition l_nextUnstableSnapshot :: "raftLog \<Rightarrow> Snapshot option" where
  "l_nextUnstableSnapshot l = nextSnapshot (l_unstable l)"

definition l_hasNextUnstableSnapshot :: "raftLog \<Rightarrow> bool" where
  "l_hasNextUnstableSnapshot l \<longleftrightarrow> nextSnapshot (l_unstable l) \<noteq> None"

definition l_hasNextOrInProgressSnapshot :: "raftLog \<Rightarrow> bool" where
  "l_hasNextOrInProgressSnapshot l \<longleftrightarrow> u_snapshot (l_unstable l) \<noteq> None"

definition l_snapshot :: "raftLog \<Rightarrow> (storage_error + Snapshot) option" where
  "l_snapshot l =
     (case u_snapshot (l_unstable l) of
        Some s \<Rightarrow> Some (Inr s)
      | None \<Rightarrow> st_Snapshot (l_storage l))"

definition l_mustCheckOutOfBounds :: "u64 \<Rightarrow> u64 \<Rightarrow> raftLog \<Rightarrow> (storage_error + unit) option" where
  "l_mustCheckOutOfBounds lo hi l = do {
     panicIf (lo > hi);
     fi \<leftarrow> l_firstIndex l;
     if lo < fi then Some (Inl ErrCompacted)
     else do {
       li \<leftarrow> l_lastIndex l;
       let len = li + 1 - fi;
       panicIf (hi > fi + len);
       Some (Inr ())
     }
   }"

text \<open>\<open>extend\<close> differs from \<open>append\<close> only in how it allocates.\<close>

definition extend_ents :: "Entry list \<Rightarrow> Entry list \<Rightarrow> Entry list" where
  "extend_ents dst vals = dst @ vals"

definition l_slice :: "proto_lib \<Rightarrow> u64 \<Rightarrow> u64 \<Rightarrow> u64 \<Rightarrow> raftLog \<Rightarrow> (storage_error + Entry list) option" where
  "l_slice E lo hi maxSize l = tryE (l_mustCheckOutOfBounds lo hi l) (\<lambda>_.
     if lo = hi then Some (Inr [])
     else if lo \<ge> u_offset (l_unstable l) then do {
       us \<leftarrow> u_slice lo hi (l_unstable l);
       Some (Inr (limitSize E maxSize us))
     }
     else do {
       let cut = min hi (u_offset (l_unstable l));
       r \<leftarrow> st_Entries (l_storage l) lo cut maxSize;
       case r of
         Inl err \<Rightarrow> if err = ErrCompacted then Some (Inl err) else None
       | Inr ents \<Rightarrow>
           if hi \<le> u_offset (l_unstable l) then Some (Inr ents)
           else if of_nat (length ents) < cut - lo then Some (Inr ents)
           else
             let sz = entsSize E ents in
             if sz \<ge> maxSize then Some (Inr ents)
             else do {
               us \<leftarrow> u_slice (u_offset (l_unstable l)) hi (l_unstable l);
               let unst = limitSize E (maxSize - sz) us;
               if length unst = 1 \<and> sz + entsSize E unst > maxSize then Some (Inr ents)
               else Some (Inr (extend_ents ents unst))
             }
     })"

definition l_entries :: "proto_lib \<Rightarrow> u64 \<Rightarrow> u64 \<Rightarrow> raftLog \<Rightarrow> (storage_error + Entry list) option" where
  "l_entries E i maxSize l = do {
     li \<leftarrow> l_lastIndex l;
     if i > li then Some (Inr [])
     else l_slice E i (li + 1) maxSize l
   }"

text \<open>It tries again after a compaction, so with a storage that stays as it is it may not end.\<close>

partial_function (option) l_allEntries :: "proto_lib \<Rightarrow> raftLog \<Rightarrow> Entry list option" where
  "l_allEntries E l =
     (case Option.bind (l_firstIndex l) (\<lambda>fi. l_entries E fi noLimit l) of
        None \<Rightarrow> None
      | Some r \<Rightarrow>
          (case r of
             Inr ents \<Rightarrow> Some ents
           | Inl err \<Rightarrow> if err = ErrCompacted then l_allEntries E l else None))"

definition l_maxAppliableIndex :: "bool \<Rightarrow> raftLog \<Rightarrow> u64" where
  "l_maxAppliableIndex allowUnstable l =
     (if \<not> allowUnstable then min (l_committed l) (u_offset (l_unstable l) - 1) else l_committed l)"

definition l_nextCommittedEnts :: "proto_lib \<Rightarrow> bool \<Rightarrow> raftLog \<Rightarrow> Entry list option" where
  "l_nextCommittedEnts E allowUnstable l =
     (if l_applyingEntsPaused l then Some []
      else if l_hasNextOrInProgressSnapshot l then Some []
      else
        let lo = l_applying l + 1;
            hi = l_maxAppliableIndex allowUnstable l + 1
        in if lo \<ge> hi then Some []
           else do {
             let maxSize = l_maxApplyingEntsSize l - l_applyingEntsSize l;
             panicIf (maxSize \<le> 0);
             mustOk (l_slice E lo hi maxSize l)
           })"

definition l_hasNextCommittedEnts :: "bool \<Rightarrow> raftLog \<Rightarrow> bool" where
  "l_hasNextCommittedEnts allowUnstable l =
     (if l_applyingEntsPaused l then False
      else if l_hasNextOrInProgressSnapshot l then False
      else l_applying l + 1 < l_maxAppliableIndex allowUnstable l + 1)"

definition l_appliedTo :: "u64 \<Rightarrow> u64 \<Rightarrow> raftLog \<Rightarrow> raftLog option" where
  "l_appliedTo i sz l = do {
     panicIf (l_committed l < i \<or> i < l_applied l);
     let left = (if l_applyingEntsSize l > sz then l_applyingEntsSize l - sz else 0);
     Some (l\<lparr>l_applied := i, l_applying := max (l_applying l) i, l_applyingEntsSize := left,
             l_applyingEntsPaused := left \<ge> l_maxApplyingEntsSize l\<rparr>)
   }"

definition l_acceptApplying :: "u64 \<Rightarrow> u64 \<Rightarrow> bool \<Rightarrow> raftLog \<Rightarrow> raftLog option" where
  "l_acceptApplying i sz allowUnstable l = do {
     panicIf (l_committed l < i);
     let total = l_applyingEntsSize l + sz;
     Some (l\<lparr>l_applying := i, l_applyingEntsSize := total,
             l_applyingEntsPaused := total \<ge> l_maxApplyingEntsSize l \<or>
               i < l_maxAppliableIndex allowUnstable l\<rparr>)
   }"

definition l_stableTo :: "entryID \<Rightarrow> raftLog \<Rightarrow> raftLog option" where
  "l_stableTo i l = do { u \<leftarrow> u_stableTo i (l_unstable l); Some (l\<lparr>l_unstable := u\<rparr>) }"

definition l_stableSnapTo :: "u64 \<Rightarrow> raftLog \<Rightarrow> raftLog" where
  "l_stableSnapTo i l = l\<lparr>l_unstable := u_stableSnapTo i (l_unstable l)\<rparr>"

definition l_acceptUnstable :: "raftLog \<Rightarrow> raftLog" where
  "l_acceptUnstable l = l\<lparr>l_unstable := acceptInProgress (l_unstable l)\<rparr>"

definition isUpToDate :: "entryID \<Rightarrow> raftLog \<Rightarrow> bool option" where
  "isUpToDate their l = do {
     our \<leftarrow> l_lastEntryID l;
     Some (eid_term their > eid_term our \<or>
           eid_term their = eid_term our \<and> eid_index their \<ge> eid_index our)
   }"

definition l_maybeCommit :: "entryID \<Rightarrow> raftLog \<Rightarrow> (bool \<times> raftLog) option" where
  "l_maybeCommit at l =
     (if eid_term at \<noteq> 0 \<and> eid_index at > l_committed l then do {
        m \<leftarrow> matchTerm at l;
        if m then do { l1 \<leftarrow> l_commitTo (eid_index at) l; Some (True, l1) }
        else Some (False, l)
      } else Some (False, l))"

definition l_restore :: "Snapshot \<Rightarrow> raftLog \<Rightarrow> raftLog" where
  "l_restore s l = l\<lparr>l_committed := snapI s, l_unstable := u_restore s (l_unstable l)\<rparr>"

text \<open>
  \<open>scan\<close> threads the state the callback captures. The outer \<open>option\<close> is \<open>None\<close> when the
  loop does not end, the inner one when it panics; the result is the error, if any.
\<close>

datatype 'e scan_error = ScanStorage storage_error | ScanEmpty | ScanCallback 'e

partial_function (option) l_scan :: "proto_lib \<Rightarrow> raftLog \<Rightarrow> u64 \<Rightarrow> u64 \<Rightarrow> u64 \<Rightarrow>
    (Entry list \<Rightarrow> 's \<Rightarrow> 'e option \<times> 's) \<Rightarrow> 's \<Rightarrow> ('e scan_error option \<times> 's) option option" where
  "l_scan E l lo hi pageSize v s =
     (if \<not> lo < hi then Some (Some (None, s))
      else case l_slice E lo hi pageSize l of
        None \<Rightarrow> Some None
      | Some r \<Rightarrow>
          (case r of
             Inl err \<Rightarrow> Some (Some (Some (ScanStorage err), s))
           | Inr ents \<Rightarrow>
               if length ents = 0 then Some (Some (Some ScanEmpty, s))
               else (case v ents s of
                       (cb, s1) \<Rightarrow>
                         (case cb of
                            Some err \<Rightarrow> Some (Some (Some (ScanCallback err), s1))
                          | None \<Rightarrow> l_scan E l (lo + of_nat (length ents)) hi pageSize v s1))))"

section \<open>Specification\<close>

text \<open>
  The log that storage (\<open>L\<close>) and unstable tail present together: a pending snapshot hides
  the storage; otherwise the unstable entries overwrite it from their offset on.
\<close>

definition absLog :: "unstable \<Rightarrow> stored_log \<Rightarrow> stored_log" where
  "absLog u L =
     (case u_snapshot u of
        Some s \<Rightarrow> (snapI s, snapT s, u_entries u)
      | None \<Rightarrow> logWrite L (u_offset u) (u_entries u))"

definition l_inv :: "proto_lib \<Rightarrow> raftLog \<Rightarrow> stored_log \<Rightarrow> bool" where
  "l_inv E l L \<longleftrightarrow>
     storageHas E (l_storage l) L \<and> u_inv (l_unstable l) \<and>
     log_ok (absLog (l_unstable l) L) \<and>
     (u_snapshot (l_unstable l) = None \<longrightarrow>
        fst L < u_offset (l_unstable l) \<and> u_offset (l_unstable l) \<le> logLast L + 1 \<and>
        (u_entries (l_unstable l) = [] \<longrightarrow> u_offset (l_unstable l) = logLast L + 1))"

text \<open>The entry is in the log, as far as index and term tell.\<close>

definition logHas :: "stored_log \<Rightarrow> Entry \<Rightarrow> bool" where
  "logHas A e \<longleftrightarrow> fst A \<le> e_Index e \<and> e_Index e \<le> logLast A \<and> logTerm A (e_Index e) = e_Term e"

text \<open>What an append request leaves: everything up to the first entry that is not there.\<close>

definition logMerge :: "stored_log \<Rightarrow> Entry list \<Rightarrow> stored_log" where
  "logMerge A ents =
     (case dropWhile (logHas A) ents of
        [] \<Rightarrow> A
      | e # es \<Rightarrow> logWrite A (e_Index e) (e # es))"

text \<open>The cursors: \<open>applied \<le> applying \<le> committed \<le> last index\<close>.\<close>

definition l_cursors :: "raftLog \<Rightarrow> stored_log \<Rightarrow> bool" where
  "l_cursors l L \<longleftrightarrow> l_applied l \<le> l_applying l \<and> l_applying l \<le> l_committed l \<and>
     l_committed l \<le> logLast L"

section \<open>Reading the log\<close>

lemma mustOk_simps [simp]: "mustOk None = None" "mustOk (Some (Inl e)) = None"
  "mustOk (Some (Inr a)) = Some a"
  by (simp_all add: mustOk_def)

lemma mustOk_eq_Some [simp]: "mustOk r = Some a \<longleftrightarrow> r = Some (Inr a)"
  by (cases r; cases "the r") (auto simp: mustOk_def)

lemma mustOk_map_Inr [simp]: "mustOk (map_option Inr x) = x"
  by (cases x) simp_all

text \<open>Where the parts of the log meet.\<close>

lemma absLog_layout:
  assumes inv: "l_inv E l L" and A: "absLog (l_unstable l) L = (b, bt, es)"
  shows "unat b < unat (u_offset (l_unstable l))"
    "length es = unat (u_offset (l_unstable l)) - unat b - 1 + length (u_entries (l_unstable l))"
    "drop (unat (u_offset (l_unstable l)) - unat b - 1) es = u_entries (l_unstable l)"
    "unat (logLast (b, bt, es)) = unat b + length es"
    "unat b + length es + 1 < 2 ^ 64" "length es + 1 < 2 ^ 63" "contiguous (b + 1) es"
proof -
  let ?u = "l_unstable l"
  have ui: "u_inv ?u" and st: "storageHas E (l_storage l) L" using inv by (simp_all add: l_inv_def)
  show bnd: "unat b + length es + 1 < 2 ^ 64" "length es + 1 < 2 ^ 63" "contiguous (b + 1) es"
    using inv A by (auto simp: l_inv_def log_ok_def boundedLog_def)
  then show "unat (logLast (b, bt, es)) = unat b + length es"
    by (simp add: logLast_def unat_plus_nat)
  have "unat b < unat (u_offset ?u) \<and> length es = unat (u_offset ?u) - unat b - 1 + length (u_entries ?u) \<and>
      drop (unat (u_offset ?u) - unat b - 1) es = u_entries ?u"
  proof (cases "u_snapshot ?u")
    case (Some s)
    then have "b = u_offset ?u - 1" "es = u_entries ?u" using A ui by (auto simp: absLog_def u_inv_def)
    with u_inv_facts(2,3) [OF ui] show ?thesis by simp
  next
    case None
    obtain bL btL esL where L: "L = (bL, btL, esL)" by (cases L)
    have eq: "b = bL" "es = take (unat (u_offset ?u) - unat b - 1) esL @ u_entries ?u"
      using A None by (auto simp: absLog_def L logWrite_def)
    have lL: "unat bL + length esL + 1 < 2 ^ 64"
      using st by (simp add: storageHas_def L log_ok_def boundedLog_def)
    have "bL < u_offset ?u" "u_offset ?u \<le> bL + of_nat (length esL) + 1"
      using inv None by (auto simp: l_inv_def L logLast_def)
    then have "unat bL < unat (u_offset ?u)" "unat (u_offset ?u) - unat bL - 1 \<le> length esL"
      using unat_plus_nat1(1) [OF lL] by (auto simp: u64_arith)
    then show ?thesis using eq by (auto simp: min_absorb2)
  qed
  then show "unat b < unat (u_offset ?u)"
    "length es = unat (u_offset ?u) - unat b - 1 + length (u_entries ?u)"
    "drop (unat (u_offset ?u) - unat b - 1) es = u_entries ?u" by auto
qed

lemma l_firstIndex_eq:
  assumes "l_inv E l L" shows "l_firstIndex l = Some (fst (absLog (l_unstable l) L) + 1)"
  using assms
  by (cases L) (auto simp: l_firstIndex_def maybeFirstIndex_def absLog_def l_inv_def storageHas_def
    logWrite_def split: option.splits)

lemma l_lastIndex_eq:
  assumes inv: "l_inv E l L" shows "l_lastIndex l = Some (logLast (absLog (l_unstable l) L))"
proof -
  let ?u = "l_unstable l"
  obtain b bt es where A: "absLog ?u L = (b, bt, es)" by (cases "absLog ?u L")
  note lay = absLog_layout [OF inv A]
  have ui: "u_inv ?u" using inv by (simp add: l_inv_def)
  show ?thesis
  proof (cases "u_entries ?u = [] \<and> u_snapshot ?u = None")
    case True
    obtain bL btL esL where L: "L = (bL, btL, esL)" by (cases L)
    have st: "unat bL + length esL + 1 < 2 ^ 64" "st_LastIndex (l_storage l) = Some (Inr (logLast L))"
      using inv by (auto simp: l_inv_def storageHas_def L log_ok_def boundedLog_def)
    have off: "u_offset ?u = logLast L + 1" using True inv by (auto simp: l_inv_def)
    have "logLast L = logLast (b, bt, es)"
    proof (rule u64_eqI)
      have "b = bL" using A True by (simp add: absLog_def L logWrite_def)
      moreover have "unat (u_offset ?u) = unat bL + length esL + 1"
        using off unat_plus_nat1(1) [OF st(1)] by (simp add: L logLast_def)
      ultimately show "unat (logLast L) = unat (logLast (b, bt, es))"
        using lay(1,2,4) True st(1) by (simp add: L logLast_def unat_plus_nat)
    qed
    with True st ui show ?thesis by (simp add: l_lastIndex_def maybeLastIndex_eq A)
  next
    case False
    have "u_offset ?u + of_nat (length (u_entries ?u)) - 1 = logLast (b, bt, es)"
    proof (rule u64_eqI)
      have "unat (u_offset ?u + of_nat (length (u_entries ?u)) - 1) = unat (u_offset ?u) + length (u_entries ?u) - 1"
        using u_inv_facts(2,4) [OF ui] by (cases "u_entries ?u = []") auto
      then show "unat (u_offset ?u + of_nat (length (u_entries ?u)) - 1) = unat (logLast (b, bt, es))"
        using lay(1,2,4) by simp
    qed
    with False ui show ?thesis by (auto simp: l_lastIndex_def maybeLastIndex_eq A)
  qed
qed

lemma l_term_eq:
  assumes inv: "l_inv E l L" and i: "i \<noteq> maxU64"
  defines "A \<equiv> absLog (l_unstable l) L"
  shows "l_term i l = Some (if i < fst A then Inl ErrCompacted
     else if logLast A < i then Inl ErrUnavailable else Inr (logTerm A i))"
proof -
  let ?u = "l_unstable l" and ?off = "u_offset (l_unstable l)"
  obtain b bt es where A: "absLog ?u L = (b, bt, es)" by (cases "absLog ?u L")
  note lay = absLog_layout [OF inv A]
  have ui: "u_inv ?u" using inv by (simp add: l_inv_def)
  note idx = l_firstIndex_eq [OF inv] l_lastIndex_eq [OF inv]
  have i1: "unat (i + 1) = unat i + 1" "unat (b + 1) = unat b + 1"
    using unat_add1 [OF i] lay(5) unat_plus_nat [of b 1] by simp_all
  have cmp: "i + 1 < b + 1 \<longleftrightarrow> i < b" by (simp add: word_less_nat_alt i1)
  have in_u: "?off \<le> i \<and> unat i < unat ?off + length (u_entries ?u) \<longleftrightarrow>
      ?off \<le> i \<and> \<not> logLast (b, bt, es) < i"
    using lay(1,2,4) by (auto simp: u64_arith)
  show ?thesis
  proof (cases "?off \<le> i \<and> \<not> logLast (b, bt, es) < i")
    case True
    then have "\<not> i < b" "i \<noteq> b" using lay(1) by (auto simp: u64_arith)
    moreover have "es ! (unat i - unat b - 1) = u_entries ?u ! (unat i - unat ?off)"
      using True lay(1) nth_drop [of "unat ?off - unat b - 1" es "unat i - unat ?off"]
      unfolding lay(3) [symmetric] by (simp add: u64_arith lay(2))
    ultimately show ?thesis
      using True in_u by (simp add: A_def A l_term_def maybeTerm_eq [OF ui] logTerm_def)
  next
    case out: False
    show ?thesis
    proof (cases "i < b \<or> logLast (b, bt, es) < i")
      case True
      have "b \<le> logLast (b, bt, es)" using lay(4) by (simp add: word_le_nat_alt)
      then have "\<not> (i < b \<and> logLast (b, bt, es) < i)" by auto
      moreover have "i \<noteq> ?off - 1 \<or> u_snapshot ?u = None"
      proof (rule ccontr)
        assume "\<not> ?thesis"
        then have "i = b" using A ui by (auto simp: absLog_def u_inv_def)
        with True lay(4) show False by (auto simp: word_less_nat_alt)
      qed
      ultimately show ?thesis
        using True out in_u cmp by (auto simp: A_def A l_term_def maybeTerm_eq [OF ui] idx)
    next
      case False
      then have lt: "unat i < unat ?off" "unat b \<le> unat i" "unat i \<le> unat b + length es"
        using out lay(4) by (auto simp: u64_arith)
      show ?thesis
      proof (cases "u_snapshot ?u")
        case (Some s)
        then have "b = ?off - 1" "bt = snapT s" using A ui by (auto simp: absLog_def u_inv_def)
        moreover have "i = ?off - 1"
          using lt u_inv_facts(2) [OF ui] calculation(1) by (intro u64_eqI) simp
        ultimately show ?thesis
          using Some False out in_u by (auto simp: A_def A l_term_def maybeTerm_eq [OF ui] logTerm_def)
      next
        case None
        obtain esL where L: "L = (b, bt, esL)" "es = take (unat ?off - unat b - 1) esL @ u_entries ?u"
          using A None by (cases L) (auto simp: absLog_def logWrite_def)
        have Lb: "unat b + length esL + 1 < 2 ^ 64" and off: "?off \<le> logLast L + 1"
          using inv None by (auto simp: l_inv_def storageHas_def L log_ok_def boundedLog_def)
        have "unat ?off \<le> unat b + length esL + 1"
          using off unat_plus_nat1(1) [OF Lb] by (simp add: L logLast_def word_le_nat_alt)
        then have "i \<le> logLast L" "b \<le> i"
          using lt Lb by (auto simp: L logLast_def word_le_nat_alt unat_plus_nat)
        then have "st_Term (l_storage l) i = Some (Inr (logTerm L i))"
          using inv by (simp add: l_inv_def storageHas_def L)
        moreover have "logTerm L i = logTerm (b, bt, es) i"
          using lt u64_neqD [of i b] \<open>unat ?off \<le> unat b + length esL + 1\<close>
          by (auto simp: L logTerm_def nth_append min_absorb2)
        ultimately show ?thesis
          using None False out in_u cmp
          by (auto simp: A_def A l_term_def maybeTerm_eq [OF ui] idx)
      qed
    qed
  qed
qed

lemma logRange_split:
  assumes "unat lo \<le> unat mid" "unat mid \<le> unat hi" "unat b < unat lo"
  shows "logRange (b, bt, es) lo hi = logRange (b, bt, es) lo mid @ logRange (b, bt, es) mid hi"
proof -
  have "unat hi - unat lo = (unat mid - unat lo) + (unat hi - unat mid)"
    "unat mid - unat b - 1 = (unat mid - unat lo) + (unat lo - unat b - 1)"
    using assms by auto
  then show ?thesis by (simp add: logRange_def take_add)
qed

text \<open>The joined read of the two parts, when the size limit falls in the second.\<close>

lemma limitSize_join:
  assumes "xs \<noteq> []" "ys \<noteq> []" "limitSize E m xs = xs" "\<not> m \<le> entsSize E xs"
    and tot: "totalSize E (xs @ ys) < 2 ^ 64"
  defines "us \<equiv> limitSize E (m - entsSize E xs) ys"
  shows "limitSize E m (xs @ ys) =
     (if length us = 1 \<and> entsSize E xs + entsSize E us > m then xs else xs @ us)"
proof -
  let ?s = "entsSize E xs"
  obtain y ys' where ys: "ys = y # ys'" using assms(2) by (cases ys) auto
  have us: "us = y # limitRest E (m - ?s) (pb_Size E y) ys'" by (simp add: us_def ys)
  have s: "unat ?s = totalSize E xs" using tot by (simp add: unat_entsSize)
  have "limitRest E (m - ?s) (pb_Size E y) ys' = limitRest E m (?s + pb_Size E y) ys'"
    using tot assms(4) by (intro limitRest_shift) (simp_all add: s ys)
  moreover have "limitSize E m (xs @ ys) = xs @ limitRest E m ?s ys"
    using assms(1,3) by (simp add: limitSize_append)
  moreover have "limitRest E m (?s + pb_Size E y) ys' = []" if "?s + pb_Size E y > m"
  proof (cases ys')
    case (Cons z zs)
    have "unat (?s + pb_Size E y) = unat ?s + unat (pb_Size E y)"
      "unat (?s + pb_Size E y + pb_Size E z) = unat ?s + unat (pb_Size E y) + unat (pb_Size E z)"
      using tot by (simp_all add: s ys Cons unat_plus_if')
    with that have "m < ?s + pb_Size E y + pb_Size E z" by (simp add: word_less_nat_alt)
    then show ?thesis by (simp add: Cons)
  qed simp
  ultimately show ?thesis by (auto simp: ys us entsSize_eq Let_def)
qed

lemma l_slice_eq:
  assumes inv: "l_inv E l L"
  defines "A \<equiv> absLog (l_unstable l) L"
  assumes range: "fst A < lo" "lo \<le> hi" "hi \<le> logLast A + 1"
    and tot: "totalSize E (logRange A lo hi) < 2 ^ 64"
    and pos: "\<And>e. e \<in> set (logRange A lo hi) \<Longrightarrow> 0 < pb_Size E e"
  shows "l_slice E lo hi m l = Some (Inr (limitSize E m (logRange A lo hi)))"
proof -
  let ?u = "l_unstable l" and ?off = "u_offset (l_unstable l)"
  obtain b bt es where A: "absLog ?u L = (b, bt, es)" by (cases "absLog ?u L")
  note lay = absLog_layout [OF inv A]
  have ui: "u_inv ?u" using inv by (simp add: l_inv_def)
  have last1: "unat (logLast (b, bt, es) + 1) = unat b + length es + 1"
    using unat_plus_nat1(1) [OF lay(5)] by (simp add: logLast_def)
  have r: "unat b < unat lo" "unat lo \<le> unat hi" "unat hi \<le> unat b + length es + 1"
    using range last1 by (simp_all add: A_def A u64_arith)
  have check: "l_mustCheckOutOfBounds lo hi l = Some (Inr ())"
  proof -
    have "\<not> lo < b + 1" using r(1) unat_plus_nat [of b 1] lay(5) by (simp add: word_less_nat_alt)
    moreover have "\<not> hi < lo" "\<not> 1 + logLast (b, bt, es) < hi"
      using range by (simp_all add: A_def A linorder_not_less add.commute)
    ultimately show ?thesis
      by (simp add: l_mustCheckOutOfBounds_def l_firstIndex_eq [OF inv] l_lastIndex_eq [OF inv] A)
  qed
  have upper: "logRange (b, bt, es) x hi = take (unat hi - unat x) (drop (unat x - unat ?off) (u_entries ?u))"
    if "unat ?off \<le> unat x" for x
  proof -
    have "unat x - unat b - 1 = (unat x - unat ?off) + (unat ?off - unat b - 1)"
      using that lay(1) by simp
    then have "drop (unat x - unat b - 1) es = drop (unat x - unat ?off) (u_entries ?u)"
      unfolding lay(3) [symmetric] by (simp add: add.commute)
    then show ?thesis by (simp add: logRange_def)
  qed
  have uslice: "u_slice x hi ?u = Some (logRange (b, bt, es) x hi)"
    if "?off \<le> x" "x \<le> hi" for x
    using that r(3) lay(1,2) upper [of x] by (subst u_slice_eq [OF ui]) (simp_all add: u64_arith)
  consider (empty) "lo = hi" | (high) "lo \<noteq> hi" "?off \<le> lo" | (low) "lo \<noteq> hi" "lo < ?off" by fastforce
  then show ?thesis
  proof cases
    case empty
    then show ?thesis using check by (simp add: l_slice_def A_def A logRange_def)
  next
    case high
    then show ?thesis using range(2) by (simp add: l_slice_def check A_def A uslice)
  next
    case low
    have nle: "\<not> ?off \<le> lo" using low(2) by (simp add: linorder_not_le)
    have None: "u_snapshot ?u = None"
    proof (rule ccontr)
      assume "u_snapshot ?u \<noteq> None"
      then have "b = ?off - 1" using A ui by (auto simp: absLog_def u_inv_def)
      with low r(1) u_inv_facts(2,3) [OF ui] show False by (simp add: word_less_nat_alt)
    qed
    obtain esL where L: "L = (b, bt, esL)" "es = take (unat ?off - unat b - 1) esL @ u_entries ?u"
      using A None by (cases L) (auto simp: absLog_def logWrite_def)
    have Lb: "unat b + length esL + 1 < 2 ^ 64" and off: "?off \<le> logLast L + 1"
      and st: "\<And>lo hi m. fst L < lo \<Longrightarrow> lo < hi \<Longrightarrow> hi \<le> logLast L + 1 \<Longrightarrow>
        st_Entries (l_storage l) lo hi m = Some (Inr (limitSize E m (logRange L lo hi)))"
      using inv None by (auto simp: l_inv_def storageHas_def L log_ok_def boundedLog_def)
    let ?cut = "min hi ?off"
    have lt: "lo < hi" "lo < ?cut" using low range(2) by auto
    have "?cut \<le> logLast L + 1" using off by (simp add: min_le_iff_disj)
    moreover have "fst L < lo" using r(1) by (simp add: L word_less_nat_alt)
    ultimately have
      ents: "st_Entries (l_storage l) lo ?cut m = Some (Inr (limitSize E m (logRange L lo ?cut)))"
      using lt(2) by (intro st)
    have len_off: "unat ?off - unat b - 1 \<le> length esL"
      using off unat_plus_nat1(1) [OF Lb] by (simp add: L logLast_def word_le_nat_alt)
    have cutL: "logRange L lo ?cut = logRange (b, bt, es) lo ?cut"
    proof -
      have "unat ?cut \<le> unat ?off" by (simp add: min_def word_le_nat_alt)
      then have "unat ?cut - unat lo \<le> (unat ?off - unat b - 1) - (unat lo - unat b - 1)"
        using r(1) low(2) by (simp add: word_less_nat_alt)
      then show ?thesis using len_off by (simp add: logRange_def L drop_take min_absorb2)
    qed
    show ?thesis
    proof (cases "hi \<le> ?off")
      case True
      then have "?cut = hi" by (simp add: min_def)
      with True low ents cutL show ?thesis by (simp add: l_slice_def check A_def A nle)
    next
      case False
      then have cut: "?cut = ?off" by (simp add: min_def)
      let ?R1 = "logRange (b, bt, es) lo ?off" and ?R2 = "logRange (b, bt, es) ?off hi"
      have split: "logRange (b, bt, es) lo hi = ?R1 @ ?R2"
        by (rule logRange_split) (use low False r in \<open>simp_all add: u64_arith\<close>)
      have len1: "length ?R1 = unat ?off - unat lo"
        using r lay(1,2) low(2) by (simp add: logRange_def u64_arith)
      then have ne1: "?R1 \<noteq> []" using low(2) by (auto simp: word_less_nat_alt)
      have "length ?R2 = unat hi - unat ?off"
        using r lay(1,2) False by (simp add: logRange_def u64_arith)
      then have ne2: "?R2 \<noteq> []" using False by (auto simp: word_le_nat_alt)
      have short: "of_nat (length xs) < ?off - lo \<longleftrightarrow> length xs < length ?R1" if "length xs \<le> length ?R1" for xs :: "Entry list"
      proof -
        have "unat (?off - lo) = length ?R1" using low(2) len1 by (simp add: unat_sub)
        moreover have "length xs < 2 ^ 64" using that len1 unat_u64_less [of ?off] by simp
        ultimately show ?thesis by (simp add: word_less_nat_alt unat_of_nat)
      qed
      note run = l_slice_def check A_def A nle cut ents [unfolded cut cutL [unfolded cut]]
      show ?thesis
      proof (cases "limitSize E m ?R1 = ?R1")
        case full: True
        show ?thesis
        proof (cases "m \<le> entsSize E ?R1")
          case True
          have "limitRest E m (entsSize E ?R1) ?R2 = []"
            using True tot pos by (intro limitRest_full) (auto simp: A_def A split unat_entsSize)
          with True full low False ne1 show ?thesis
            by (simp add: run split limitSize_append short)
        next
          case small: False
          have "totalSize E (?R1 @ ?R2) < 2 ^ 64" using tot by (simp add: A_def A split)
          note join = limitSize_join [OF ne1 ne2 full small this]
          have "u_slice ?off hi ?u = Some ?R2" using uslice [of ?off] False by simp
          with small full low False show ?thesis
            by (simp add: run split join short Let_def extend_ents_def)
        qed
      next
        case cutoff: False
        then have "length (limitSize E m ?R1) < length ?R1" using limitSize_full_iff by blast
        with cutoff low False ne1 show ?thesis
          by (simp add: run split limitSize_append short)
      qed
    qed
  qed
qed

section \<open>Writing the log\<close>

lemma l_append_eq:
  assumes inv: "l_inv E l L"
  defines "A \<equiv> absLog (l_unstable l) L"
  assumes ents: "ents \<noteq> []" "contiguous f ents"
    and f: "fst A < f" "f \<le> logLast A + 1" "l_committed l < f"
    and ok: "log_ok (logWrite A f ents)"
  shows "\<exists>u'. l_append ents l = Some (logLast (logWrite A f ents), l\<lparr>l_unstable := u'\<rparr>) \<and>
     l_inv E (l\<lparr>l_unstable := u'\<rparr>) L \<and> absLog u' L = logWrite A f ents"
proof -
  let ?u = "l_unstable l" and ?off = "u_offset (l_unstable l)" and ?es = "u_entries (l_unstable l)"
  obtain b bt es where A: "absLog ?u L = (b, bt, es)" by (cases "absLog ?u L")
  note lay = absLog_layout [OF inv A]
  have ui: "u_inv ?u" using inv by (simp add: l_inv_def)
  have last1: "unat (logLast (b, bt, es) + 1) = unat b + length es + 1"
    using unat_plus_nat1(1) [OF lay(5)] by (simp add: logLast_def)
  have fu: "unat b < unat f" "unat f \<le> unat ?off + length ?es"
    using f(1,2) last1 lay(1,2) by (simp_all add: A_def A u64_arith)
  have flen: "unat f - unat b - 1 \<le> length es" using fu lay(1,2) by simp
  have snap: "?off \<le> f" if "u_snapshot ?u \<noteq> None"
  proof -
    from that have "b = ?off - 1" using A ui by (auto simp: absLog_def u_inv_def)
    with fu(1) u_inv_facts(2) [OF ui] show ?thesis by (simp add: word_le_nat_alt)
  qed
  have bnd: "unat f + length ents < 2 ^ 64" "unat f - unat ?off + length ents < 2 ^ 63"
    using ok fu flen lay(1) by (auto simp: A_def A logWrite_def log_ok_def boundedLog_def min_absorb2)
  define u' where "u' = ?u\<lparr>u_entries := take (unat f - unat ?off) ?es @ ents,
     u_offset := min ?off f, u_offsetInProgress := min (u_offsetInProgress ?u) f\<rparr>"
  have "0 < f" using fu(1) by (simp add: word_less_nat_alt)
  note ta = truncateAndAppend_eq [OF ui ents this fu(2) snap bnd, folded u'_def]
  have abs: "absLog u' L = logWrite (b, bt, es) f ents"
  proof (cases "u_snapshot ?u")
    case (Some s)
    then have "b = ?off - 1" "bt = snapT s" "es = ?es" "snapI s = b"
      using A ui by (auto simp: absLog_def u_inv_def)
    moreover have "unat ?off = unat b + 1" using calculation(1) u_inv_facts(2,3) [OF ui] by simp
    ultimately show ?thesis using Some by (simp add: absLog_def u'_def logWrite_def)
  next
    case None
    then obtain esL where L: "L = (b, bt, esL)" "es = take (unat ?off - unat b - 1) esL @ ?es"
      using A by (cases L) (auto simp: absLog_def logWrite_def)
    have len: "unat ?off - unat b - 1 \<le> length esL" using lay(2) by (simp add: L(2))
    show ?thesis
    proof (cases "?off \<le> f")
      case True
      then have "unat f - unat b - 1 = (unat ?off - unat b - 1) + (unat f - unat ?off)"
        using lay(1) by (simp add: word_le_nat_alt)
      with None True len show ?thesis
        by (simp add: absLog_def u'_def L logWrite_def min_absorb1 min_absorb2)
    next
      case False
      then have "min ?off f = f" "unat f \<le> unat ?off" by (auto simp: min_def word_le_nat_alt)
      with None len show ?thesis
        by (simp add: absLog_def u'_def L logWrite_def min_absorb1 min_absorb2)
    qed
  qed
  have inv': "l_inv E (l\<lparr>l_unstable := u'\<rparr>) L"
  proof -
    have "fst L < min ?off f \<and> min ?off f \<le> logLast L + 1" if "u_snapshot ?u = None"
    proof -
      have "fst L = b" using A that by (cases L) (auto simp: absLog_def logWrite_def)
      with that inv fu(1) show ?thesis
        by (auto simp: l_inv_def min_def word_less_nat_alt word_le_nat_alt)
    qed
    with inv ta(2) ok abs ents(1) show ?thesis
      by (simp add: l_inv_def A_def A) (simp add: u'_def)
  qed
  have "\<not> f - 1 < l_committed l"
  proof -
    have "unat (f - 1) = unat f - 1" using fu(1) by (simp add: unat_sub word_le_nat_alt)
    with f(3) show ?thesis by (simp add: word_less_nat_alt)
  qed
  moreover obtain e0 rest where "ents = e0 # rest" "e_Index e0 = f" using ents by (cases ents) auto
  ultimately have "l_append ents l = Some (logLast (logWrite A f ents), l\<lparr>l_unstable := u'\<rparr>)"
    using ta(1) l_lastIndex_eq [OF inv'] by (simp add: l_append_def go_index_def abs A_def A)
  with inv' abs show ?thesis by (auto simp: A_def A)
qed

lemma matchTerm_eq:
  assumes inv: "l_inv E l L" and "eid_index i \<noteq> maxU64"
  defines "A \<equiv> absLog (l_unstable l) L"
  shows "matchTerm i l = Some (fst A \<le> eid_index i \<and> eid_index i \<le> logLast A \<and>
     logTerm A (eid_index i) = eid_term i)"
  using l_term_eq [OF inv assms(2)] by (auto simp: matchTerm_def A_def)

lemma findConflict_eq:
  assumes inv: "l_inv E l L" and "\<And>e. e \<in> set ents \<Longrightarrow> e_Index e \<noteq> maxU64"
  defines "A \<equiv> absLog (l_unstable l) L"
  shows "findConflict l ents =
     Some (case dropWhile (logHas A) ents of [] \<Rightarrow> 0 | e # es \<Rightarrow> e_Index e)"
  using assms(2)
proof (induction ents)
  case (Cons e es)
  have i: "e_Index e \<noteq> maxU64" using Cons.prems by simp
  have m: "matchTerm (pbEntryID e) l = Some (logHas A e)"
    using matchTerm_eq [OF inv, of "pbEntryID e"] i by (simp add: pbEntryID_def logHas_def A_def)
  have "l_term (e_Index e) l = Some t \<Longrightarrow> zeroTermOnOutOfBounds t \<noteq> None" for t
    unfolding l_term_eq [OF inv i] by (auto simp: zeroTermOnOutOfBounds_def split: if_splits)
  with l_term_eq [OF inv i] have "\<exists>t z. l_term (e_Index e) l = Some t \<and> zeroTermOnOutOfBounds t = Some z"
    by auto
  with Cons m show ?case
    by (auto simp: l_lastIndex_eq [OF inv] pbEntryID_def)
qed simp

lemma l_commitTo_eq:
  assumes "l_inv E l L" "c \<le> logLast (absLog (l_unstable l) L)"
  shows "l_commitTo c l = Some (l\<lparr>l_committed := max (l_committed l) c\<rparr>)"
proof -
  have "\<not> logLast (absLog (l_unstable l) L) < c" using assms(2) by (simp add: linorder_not_less)
  then show ?thesis
    using l_lastIndex_eq [OF assms(1)] by (simp add: l_commitTo_def max_def)
qed

text \<open>
  An append request that connects to the log at \<open>prev\<close> and whose entries do not
  contradict the committed part. The request is well formed, and the log it describes has
  no index that wraps around.
\<close>

lemma l_maybeAppend_eq:
  assumes inv: "l_inv E l L"
  defines "A \<equiv> absLog (l_unstable l) L"
  assumes cont: "contiguous (eid_index (ls_prev a) + 1) (ls_entries a)"
    and ok: "log_ok (logWrite A (eid_index (ls_prev a) + 1) (ls_entries a))"
    and prev: "fst A \<le> eid_index (ls_prev a)" "eid_index (ls_prev a) \<le> logLast A"
      "logTerm A (eid_index (ls_prev a)) = eid_term (ls_prev a)"
    and agree: "\<And>e. e \<in> set (ls_entries a) \<Longrightarrow> e_Index e \<le> l_committed l \<Longrightarrow> logHas A e"
  defines "lastnewi \<equiv> eid_index (ls_prev a) + of_nat (length (ls_entries a))"
  shows "\<exists>u'. l_maybeAppend a c l = Some ((lastnewi, True),
       l\<lparr>l_unstable := u', l_committed := max (l_committed l) (min c lastnewi)\<rparr>) \<and>
     l_inv E (l\<lparr>l_unstable := u'\<rparr>) L \<and> absLog u' L = logMerge A (ls_entries a) \<and>
     lastnewi \<le> logLast (logMerge A (ls_entries a))"
proof -
  let ?p = "eid_index (ls_prev a)" and ?es = "ls_entries a"
  let ?k = "length (takeWhile (logHas A) (ls_entries a))"
  obtain b bt es where A: "absLog (l_unstable l) L = (b, bt, es)" by (cases "absLog (l_unstable l) L")
  note lay = absLog_layout [OF inv A]
  have pu: "unat b \<le> unat ?p" "unat ?p \<le> unat b + length es"
    using prev(1,2) lay(4) by (simp_all add: A_def A word_le_nat_alt)
  have p1: "unat (?p + 1) = unat ?p + 1" using unat_plus_nat [of ?p 1] pu(2) lay(5) by simp
  have bnd: "unat ?p + length ?es + 1 < 2 ^ 64" "unat ?p - unat b + length ?es + 1 < 2 ^ 63"
    using ok pu p1 by (auto simp: A_def A logWrite_def log_ok_def boundedLog_def min_absorb2)
  have idx: "e_Index (?es ! j) = ?p + 1 + of_nat j" "unat (?p + 1 + of_nat j) = unat ?p + 1 + j"
    if "j < length ?es" for j
    using contiguous_nth [OF cont that] unat_plus_nat1(2) [of ?p j] bnd(1) that by simp_all
  have "e_Index e \<noteq> maxU64" if "e \<in> set ?es" for e
  proof -
    from that obtain j where "j < length ?es" "e = ?es ! j" by (auto simp: in_set_conv_nth)
    with idx [of j] have "unat (e_Index e) = unat ?p + 1 + j" by simp
    with bnd(1) \<open>j < length ?es\<close> show ?thesis by auto
  qed
  then have fc: "findConflict l ?es = Some (case dropWhile (logHas A) ?es of [] \<Rightarrow> 0 | e # es \<Rightarrow> e_Index e)"
    unfolding A_def by (rule findConflict_eq [OF inv])
  have match: "matchTerm (ls_prev a) l = Some True"
  proof -
    have "?p \<noteq> maxU64" using pu(2) lay(5) by auto
    with matchTerm_eq [OF inv, of "ls_prev a"] prev show ?thesis by (simp add: A_def)
  qed
  have drop: "dropWhile (logHas A) ?es = drop ?k ?es" by (rule dropWhile_eq_drop)
  have lst: "unat lastnewi = unat ?p + length ?es"
    using bnd(1) by (simp add: lastnewi_def unat_plus_nat)
  have matched: "unat ?p + ?k \<le> unat b + length es"
  proof (cases "?k = 0")
    case False
    then obtain n where n: "?k = Suc n" by (cases ?k) simp_all
    then have j: "n < length (takeWhile (logHas A) ?es)" by simp
    then have "logHas A (?es ! n)"
      using nth_mem [OF j] set_takeWhileD takeWhile_nth [OF j] by metis
    then have "e_Index (?es ! n) \<le> logLast A" by (simp add: logHas_def)
    moreover have "n < length ?es" using j length_takeWhile_le [of "logHas A" ?es] by linarith
    ultimately have "unat ?p + Suc n \<le> unat b + length es"
      using idx [of n] lay(4) by (simp add: A_def A word_le_nat_alt)
    then show ?thesis by (simp only: n)
  qed (use pu in simp)
  show ?thesis
  proof (cases "?k < length ?es")
    case False
    then have k: "drop ?k ?es = []" "?k = length ?es"
      using length_takeWhile_le [of "logHas A" ?es] by auto
    then have m: "logMerge A ?es = A" by (simp add: logMerge_def drop)
    have le: "lastnewi \<le> logLast A"
      using matched k(2) lst lay(4) by (simp add: A_def A word_le_nat_alt)
    then have "min c lastnewi \<le> logLast A" by (simp add: min_le_iff_disj)
    with l_commitTo_eq [OF inv] have ct: "l_commitTo (min c lastnewi) l =
        Some (l\<lparr>l_committed := max (l_committed l) (min c lastnewi)\<rparr>)" by (simp add: A_def)
    have "findConflict l ?es = Some 0" unfolding fc drop k(1) by simp
    then have "l_maybeAppend a c l = Some ((lastnewi, True),
        l\<lparr>l_committed := max (l_committed l) (min c lastnewi)\<rparr>)"
      using match ct by (simp add: l_maybeAppend_def Let_def flip: lastnewi_def)
    with inv m le show ?thesis by (intro exI [of _ "l_unstable l"]) (simp add: A_def)
  next
    case True
    let ?ci = "?p + 1 + of_nat ?k" and ?new = "drop ?k ?es"
    have new: "?new = ?es ! ?k # drop (Suc ?k) ?es" using True by (rule Cons_nth_drop_Suc [symmetric])
    have ci: "e_Index (?es ! ?k) = ?ci" "unat ?ci = unat ?p + 1 + ?k" using idx [OF True] by simp_all
    have "\<not> logHas A (?es ! ?k)" using nth_length_takeWhile True by blast
    with agree [of "?es ! ?k"] True have com: "l_committed l < ?ci"
      by (auto simp: ci(1) linorder_not_less [symmetric])
    have m: "logMerge A ?es = logWrite A ?ci ?new"
      using new by (simp add: logMerge_def drop ci(1))
    have cnew: "contiguous ?ci ?new" using contiguous_drop [OF cont, of ?k] True by simp
    have sub: "unat ?ci - unat b - 1 = unat ?p - unat b + ?k" using ci(2) pu(1) by simp
    define n where "n = unat ?p - unat b + ?k"
    have n: "n \<le> length es" "unat b + n = unat ?p + ?k" using matched pu(1) by (simp_all add: n_def)
    have W: "logWrite A ?ci ?new = (b, bt, take n es @ ?new)"
    proof -
      have "logWrite A x y = (b, bt, take (unat x - unat b - 1) es @ y)" for x y
        by (simp add: A_def A logWrite_def)
      then show ?thesis by (simp only: sub n_def)
    qed
    have wlen: "length (take n es @ ?new) = n + (length ?es - ?k)" using n(1) by simp
    have ok': "log_ok (logWrite A ?ci ?new)"
    proof -
      have "b + 1 + of_nat n = ?ci"
        using ci(2) n lay(5) by (intro u64_eqI) (subst unat_plus_nat1(2); simp)
      then have "contiguous (b + 1) (take n es @ ?new)"
        using lay(7) cnew n(1) by (simp only: contiguous_append contiguous_take length_take min_absorb2 simp_thms)
      moreover have "unat b + (n + (length ?es - ?k)) + 1 < 2 ^ 64" "n + (length ?es - ?k) + 1 < 2 ^ 63"
        using bnd n(2) pu(1) True by linarith+
      ultimately show ?thesis unfolding W log_ok_def boundedLog_def prod.case wlen by blast
    qed
    have range: "fst A < ?ci" "?ci \<le> logLast A + 1"
      using ci(2) pu matched unat_plus_nat1(1) [OF lay(5)]
      by (simp_all add: A_def A u64_arith logLast_def)
    obtain u' where app: "l_append ?new l = Some (logLast (logWrite A ?ci ?new), l\<lparr>l_unstable := u'\<rparr>)"
      "l_inv E (l\<lparr>l_unstable := u'\<rparr>) L" "absLog u' L = logWrite A ?ci ?new"
      using l_append_eq [OF inv _ cnew _ _ com] range ok' True unfolding A_def by auto
    have le: "lastnewi \<le> logLast (logWrite A ?ci ?new)"
    proof -
      have "unat (logLast (logWrite A ?ci ?new)) = unat b + (n + (length ?es - ?k))"
        unfolding W logLast_def prod.case wlen
        by (rule unat_plus_nat) (use bnd(1) n(2) True in linarith)
      moreover have "unat b + (n + (length ?es - ?k)) = unat ?p + length ?es" using n(2) True by linarith
      ultimately show ?thesis using lst by (simp add: word_le_nat_alt)
    qed
    then have "min c lastnewi \<le> logLast (absLog u' L)" by (simp add: app(3) min_le_iff_disj)
    with l_commitTo_eq [OF app(2)] have ct: "l_commitTo (min c lastnewi) (l\<lparr>l_unstable := u'\<rparr>) =
        Some (l\<lparr>l_unstable := u', l_committed := max (l_committed l) (min c lastnewi)\<rparr>)" by simp
    have fc1: "findConflict l ?es = Some ?ci" unfolding fc drop new by (simp add: ci(1))
    have "?ci \<noteq> 0" "\<not> ?ci \<le> l_committed l" using ci(2) com by (auto simp: linorder_not_le)
    moreover have "unat (?ci - (?p + 1)) = ?k"
      using True bnd(1) by (simp add: unat_of_nat)
    moreover have "\<not> of_nat (length ?es) < ?ci - (?p + 1)"
    proof -
      have "unat (of_nat (length ?es) :: u64) = length ?es" using bnd(1) by (simp add: unat_of_nat)
      with True calculation(3) show ?thesis by (simp add: word_less_nat_alt)
    qed
    ultimately have "l_maybeAppend a c l = Some ((lastnewi, True),
       l\<lparr>l_unstable := u', l_committed := max (l_committed l) (min c lastnewi)\<rparr>)"
      using match fc1 True app(1) ct
      by (simp add: l_maybeAppend_def go_from_def Let_def flip: lastnewi_def)
    with app m le show ?thesis by auto
  qed
qed

end
