(* ===== verification/LogProps.thy ===== *)
theory LogProps
  imports RaftLog
begin

text \<open>
  Properties of the raft log (\<open>log.go\<close>): reading ranges and scanning, appending and log
  matching, the probe for a matching index, the cursors, and the hand-over of unstable
  entries to a storage that meets the contract \<open>log_store\<close>.
\<close>

section \<open>Specification\<close>

text \<open>
  The operations of the state machine on its log, and what the application does to the
  storage below it, with the conditions under which they happen: appends connect to the log
  (an append request does not contradict the committed part), the application accepts only
  entries after those it is already applying, and a snapshot is restored only beyond the
  commit index (\<open>raft.restore\<close> refuses others). The storage takes over unstable entries from
  the first one on, or a pending snapshot with entries that follow it, and is compacted at
  most up to the applied index. Entries are reported stable while the storage ends with
  unstable entries that include them and no snapshot is pending, a snapshot once the storage
  has it.
\<close>

inductive log_step :: "proto_lib \<Rightarrow> stored_log \<times> raftLog \<Rightarrow> stored_log \<times> raftLog \<Rightarrow> bool" for E where
  propose: "ents \<noteq> [] \<Longrightarrow> contiguous f ents \<Longrightarrow> f = logLast (absLog (l_unstable l) L) + 1 \<Longrightarrow>
    log_ok (logWrite (absLog (l_unstable l) L) f ents) \<Longrightarrow> l_append ents l = Some (li, l') \<Longrightarrow>
    log_step E (L, l) (L, l')"
| request: "contiguous (eid_index (ls_prev a) + 1) (ls_entries a) \<Longrightarrow>
    log_ok (logWrite (absLog (l_unstable l) L) (eid_index (ls_prev a) + 1) (ls_entries a)) \<Longrightarrow>
    (\<forall>e \<in> set (ls_entries a). e_Index e \<le> l_committed l \<longrightarrow> logHas (absLog (l_unstable l) L) e) \<Longrightarrow>
    eid_index (ls_prev a) \<noteq> maxU64 \<Longrightarrow> l_maybeAppend a c l = Some (r, l') \<Longrightarrow> log_step E (L, l) (L, l')"
| commit: "l_commitTo c l = Some l' \<Longrightarrow> log_step E (L, l) (L, l')"
| quorum: "l_maybeCommit at l = Some (b, l') \<Longrightarrow> log_step E (L, l) (L, l')"
| applied: "l_appliedTo i n l = Some l' \<Longrightarrow> log_step E (L, l) (L, l')"
| applying: "l_applying l \<le> i \<Longrightarrow> l_acceptApplying i n u l = Some l' \<Longrightarrow> log_step E (L, l) (L, l')"
| accept: "log_step E (L, l) (L, l_acceptUnstable l)"
| restore: "l_committed l < snapI s \<Longrightarrow> unat (snapI s) + 1 < 2 ^ 64 \<Longrightarrow> log_step E (L, l) (L, l_restore s l)"
| store: "u_snapshot (l_unstable l) = None \<Longrightarrow> 0 < k \<Longrightarrow> k \<le> length (u_entries (l_unstable l)) \<Longrightarrow>
    L' = logWrite L (u_offset (l_unstable l)) (take k (u_entries (l_unstable l))) \<Longrightarrow> storageHas E st L' \<Longrightarrow>
    log_step E (L, l) (L', l\<lparr>l_storage := st\<rparr>)"
| stable: "u_snapshot (l_unstable l) = None \<Longrightarrow> k \<le> length (u_entries (l_unstable l)) \<Longrightarrow>
    L = logWrite L (u_offset (l_unstable l)) (take k (u_entries (l_unstable l))) \<Longrightarrow>
    unat (eid_index i) < unat (u_offset (l_unstable l)) + k \<Longrightarrow>
    l_stableTo i l = Some l' \<Longrightarrow> log_step E (L, l) (L, l')"
| storeSnap: "u_snapshot (l_unstable l) = Some s \<Longrightarrow> L' = (snapI s, snapT s, take k (u_entries (l_unstable l))) \<Longrightarrow>
    storageHas E st L' \<Longrightarrow> log_step E (L, l) (L', l\<lparr>l_storage := st\<rparr>)"
| stableSnap: "u_snapshot (l_unstable l) = Some s \<Longrightarrow> L = (snapI s, snapT s, take k (u_entries (l_unstable l))) \<Longrightarrow>
    log_step E (L, l) (L, l_stableSnapTo i l)"
| compact: "u_snapshot (l_unstable l) = None \<Longrightarrow> fst L < i \<Longrightarrow> i \<le> l_applied l \<Longrightarrow> i < u_offset (l_unstable l) \<Longrightarrow>
    storageHas E st (logCompact L i) \<Longrightarrow> log_step E (L, l) (logCompact L i, l\<lparr>l_storage := st\<rparr>)"

text \<open>The callback that collects what a scan visits.\<close>

definition collect :: "Entry list \<Rightarrow> Entry list \<Rightarrow> unit option \<times> Entry list" where
  "collect ents seen = (None, seen @ ents)"

text \<open>
  A log to evaluate on: entries 1 and 2 of term 1 in storage, entry 3 of term 2 unstable,
  entry 1 committed.
\<close>

definition sampleLib :: proto_lib where
  "sampleLib = \<lparr>pb_Size = (\<lambda>e. 10), pb_MarshalCC = (\<lambda>c. None), pb_MarshalCCV2 = (\<lambda>c. None),
     pb_UnmarshalCC = (\<lambda>b. None), pb_UnmarshalCCV2 = (\<lambda>b. None)\<rparr>"

definition ent :: "u64 \<Rightarrow> u64 \<Rightarrow> Entry" where
  "ent i t = emptyEntry\<lparr>e_Index := i, e_Term := t\<rparr>"

definition sampleStore :: MemoryStorage where
  "sampleStore = NewMemoryStorage\<lparr>ms_ents := [emptyEntry, ent 1 1, ent 2 1]\<rparr>"

definition sampleLog :: raftLog where
  "sampleLog = \<lparr>l_storage = memStorage sampleLib sampleStore,
     l_unstable = \<lparr>u_snapshot = None, u_entries = [ent 3 2], u_offset = 3,
       u_snapshotInProgress = False, u_offsetInProgress = 3\<rparr>,
     l_committed = 1, l_applying = 0, l_applied = 0, l_maxApplyingEntsSize = 100,
     l_applyingEntsSize = 0, l_applyingEntsPaused = False\<rparr>"

definition sampleSnap :: Snapshot where
  "sampleSnap = \<lparr>sn_Data = [], sn_Metadata = \<lparr>md_ConfState = emptyConfState, md_Index = 7, md_Term = 2\<rparr>\<rparr>"

lemma sample_simps:
  "ms_stored sampleStore = (0, 0, [ent 1 1, ent 2 1])" "ms_inv sampleStore"
  "absLog (l_unstable sampleLog) (0, 0, [ent 1 1, ent 2 1]) = (0, 0, [ent 1 1, ent 2 1, ent 3 2])"
  by (simp_all add: ms_stored_def sampleStore_def ms_inv_def boundedLog_def absLog_def sampleLog_def
    logWrite_def ent_def emptyEntry_def)

lemma ent_sel [simp]: "e_Index (ent i t) = i" "e_Term (ent i t) = t"
  by (simp_all add: ent_def)

lemma sample_inv: "l_inv sampleLib sampleLog (0, 0, [ent 1 1, ent 2 1])"
  using mem.storage_has [OF sample_simps(2), of sampleLib]
  by (simp add: l_inv_def sample_simps log_ok_def boundedLog_def logLast_def u_inv_def)
    (simp add: sampleLog_def ent_def emptyEntry_def)

section \<open>Writing at a position\<close>

lemma logWrite_facts:
  assumes A: "log_ok A" and f: "fst A < f" "f \<le> logLast A + 1" and ok: "log_ok (logWrite A f ents)"
  shows "unat (logLast (logWrite A f ents)) = unat f + length ents - 1"
    "fst A \<le> i \<Longrightarrow> i < f \<Longrightarrow> logTerm (logWrite A f ents) i = logTerm A i"
    "j < length ents \<Longrightarrow> logTerm (logWrite A f ents) (f + of_nat j) = e_Term (ents ! j)"
    "unat f + length ents < 2 ^ 64"
proof -
  obtain b bt es where Ab: "A = (b, bt, es)" by (cases A)
  have bnd: "unat b + length es + 1 < 2 ^ 64" using A by (simp add: Ab log_ok_def boundedLog_def)
  have fu: "unat b < unat f" "unat f - unat b - 1 \<le> length es"
    using f unat_plus_nat1(1) [OF bnd] by (simp_all add: Ab logLast_def u64_arith)
  then have len: "length (take (unat f - unat b - 1) es @ ents) = unat f - unat b - 1 + length ents"
    by simp
  have W: "logWrite A f ents = (b, bt, take (unat f - unat b - 1) es @ ents)"
    by (simp add: Ab logWrite_def)
  have new: "unat b + (unat f - unat b - 1 + length ents) + 1 < 2 ^ 64"
    using ok len by (simp only: W log_ok_def boundedLog_def prod.case)
  then show total: "unat f + length ents < 2 ^ 64" using fu by simp
  have "unat (b + of_nat (unat f - unat b - 1 + length ents)) = unat b + (unat f - unat b - 1 + length ents)"
    by (rule unat_plus_nat) (use new in simp)
  then show "unat (logLast (logWrite A f ents)) = unat f + length ents - 1"
    using fu by (simp only: W logLast_def prod.case len)
  show "logTerm (logWrite A f ents) i = logTerm A i" if "fst A \<le> i" "i < f"
    using that fu u64_neqD [of i b]
    by (auto simp: Ab logWrite_def logTerm_def nth_append u64_arith)
  show "logTerm (logWrite A f ents) (f + of_nat j) = e_Term (ents ! j)" if "j < length ents"
  proof -
    have u: "unat (f + of_nat j) = unat f + j" by (rule unat_plus_nat) (use total that in simp)
    then have "f + of_nat j \<noteq> b" using fu by auto
    moreover have "unat f + j - unat b - 1 = unat f - unat b - 1 + j" using fu by simp
    moreover have "(take (unat f - unat b - 1) es @ ents) ! (unat f - unat b - 1 + j) = ents ! j"
      using fu(2) by (simp add: nth_append)
    ultimately show ?thesis by (simp only: W logTerm_def prod.case u if_False)
  qed
qed

lemma logMerge_spec:
  assumes A: "log_ok A" and p: "fst A \<le> p" "p \<le> logLast A"
    and ents: "contiguous (p + 1) ents" and ok: "log_ok (logWrite A (p + 1) ents)"
  shows "\<forall>e \<in> set ents. logHas (logMerge A ents) e"
    "\<forall>i. fst A \<le> i \<and> i \<le> p \<longrightarrow> logTerm (logMerge A ents) i = logTerm A i"
proof -
  let ?k = "length (takeWhile (logHas A) ents)"
  obtain b bt es where Ab: "A = (b, bt, es)" by (cases A)
  have bnd: "unat b + length es + 1 < 2 ^ 64" using A by (simp add: Ab log_ok_def boundedLog_def)
  have pu: "unat b \<le> unat p" "unat p \<le> unat b + length es"
    using p unat_plus_nat [of b "length es"] bnd by (simp_all add: Ab logLast_def word_le_nat_alt)
  have p1: "unat (p + 1) = unat p + 1" using unat_plus_nat [of p 1] pu bnd by simp
  have last1: "unat (logLast A + 1) = unat b + length es + 1" "unat (logLast A) = unat b + length es"
    using unat_plus_nat1(1) [OF bnd] unat_plus_nat [of b "length es"] bnd by (simp_all add: Ab logLast_def)
  have "fst A < p + 1" "p + 1 \<le> logLast A + 1" using pu p1 last1 by (simp_all add: Ab u64_arith)
  note w0 = logWrite_facts [OF A this ok]
  have idx: "e_Index (ents ! j) = p + 1 + of_nat j" "unat (p + 1 + of_nat j) = unat p + 1 + j"
    if "j < length ents" for j
    using contiguous_nth [OF ents that] unat_plus_nat [of "p + 1" j] w0(4) that p1 by simp_all
  have pre: "logHas A (ents ! j)" if "j < ?k" for j
    using nth_mem [OF that] set_takeWhileD takeWhile_nth [OF that] by metis
  have kl: "?k \<le> length ents" by (rule length_takeWhile_le)
  have "(\<forall>e \<in> set ents. logHas (logMerge A ents) e) \<and>
    (\<forall>i. fst A \<le> i \<and> i \<le> p \<longrightarrow> logTerm (logMerge A ents) i = logTerm A i)"
  proof (cases "?k = length ents")
    case True
    then have "logMerge A ents = A" by (simp add: logMerge_def dropWhile_eq_drop)
    with pre True show ?thesis by (auto simp: in_set_conv_nth)
  next
    case False
    with kl have k: "?k < length ents" by simp
    let ?ci = "p + 1 + of_nat ?k" and ?new = "drop ?k ents"
    have new: "?new = ents ! ?k # drop (Suc ?k) ents" using k by (rule Cons_nth_drop_Suc [symmetric])
    have M: "logMerge A ents = logWrite A ?ci ?new"
      unfolding logMerge_def dropWhile_eq_drop new by (simp add: idx(1) [OF k])
    have matched: "unat p + ?k \<le> unat b + length es"
    proof (cases ?k)
      case (Suc n)
      then have n: "n < ?k" by simp
      have "e_Index (ents ! n) \<le> logLast A" using pre [OF n] by (simp add: logHas_def)
      with idx [of n] n kl last1 have "unat p + Suc n \<le> unat b + length es" by (simp add: word_le_nat_alt)
      then show ?thesis by (simp only: Suc)
    qed (use pu in simp)
    have ci: "fst A < ?ci" "?ci \<le> logLast A + 1"
      using idx(2) [OF k] pu matched last1 by (simp_all add: Ab u64_arith)
    have nb: "unat ?ci - unat b - 1 = unat p - unat b + ?k" "unat (p + 1) - unat b - 1 = unat p - unat b"
      using idx(2) [OF k] p1 pu by simp_all
    have okW: "log_ok (logWrite A ?ci ?new)"
    proof -
      have iff: "log_ok (logWrite A x y) \<longleftrightarrow> contiguous (b + 1) (take (unat x - unat b - 1) es @ y) \<and>
          boundedLog b (take (unat x - unat b - 1) es @ y)" for x y
        by (simp add: Ab logWrite_def log_ok_def)
      have c: "b + 1 + of_nat (unat p - unat b + ?k) = ?ci"
        using idx(2) [OF k] pu matched bnd by (intro u64_eqI) (subst unat_plus_nat1(2); simp)
      have es: "contiguous (b + 1) es" using A by (simp add: Ab log_ok_def)
      have cn: "contiguous ?ci ?new" using contiguous_drop [OF ents kl] by simp
      have l: "unat p - unat b + ?k \<le> length es" using matched pu by simp
      have "contiguous (b + 1) (take (unat p - unat b + ?k) es @ ?new)"
        using es cn l c by (simp only: contiguous_append contiguous_take length_take min_absorb2 simp_thms)
      moreover have "boundedLog b (take (unat p - unat b) es @ ents)"
        using ok nb(2) by (simp only: iff)
      then have "boundedLog b (take (unat p - unat b + ?k) es @ ?new)"
        using l kl by (simp add: boundedLog_def)
      ultimately show ?thesis by (simp only: iff nb)
    qed
    note w = logWrite_facts [OF A ci okW]
    have lastW: "unat (logLast (logWrite A ?ci ?new)) = unat p + length ents"
      using w(1) idx(2) [OF k] k by simp
    have "logHas (logWrite A ?ci ?new) (ents ! j)" if j: "j < length ents" for j
    proof -
      have r: "fst (logWrite A ?ci ?new) \<le> e_Index (ents ! j)" "e_Index (ents ! j) \<le> logLast (logWrite A ?ci ?new)"
        using idx [OF j] lastW pu j by (simp_all add: Ab logWrite_def word_le_nat_alt)
      show ?thesis
      proof (cases "j < ?k")
        case True
        have "fst A \<le> e_Index (ents ! j)" "e_Index (ents ! j) < ?ci"
          using idx [OF j] idx(2) [OF k] pu True by (simp_all add: Ab u64_arith)
        with w(2) pre [OF True] r show ?thesis by (simp add: logHas_def)
      next
        case False
        then have "e_Index (ents ! j) = ?ci + of_nat (j - ?k)"
          using idx(1) [OF j] by (simp add: algebra_simps flip: of_nat_add)
        with w(3) [of "j - ?k"] r False j show ?thesis by (simp add: logHas_def)
      qed
    qed
    moreover have "logTerm (logWrite A ?ci ?new) i = logTerm A i" if "fst A \<le> i" "i \<le> p" for i
    proof (rule w(2) [OF that(1)])
      show "i < ?ci" using that(2) idx(2) [OF k] by (simp add: u64_arith)
    qed
    ultimately show ?thesis unfolding M by (auto simp: in_set_conv_nth)
  qed
  then show "\<forall>e \<in> set ents. logHas (logMerge A ents) e"
    "\<forall>i. fst A \<le> i \<and> i \<le> p \<longrightarrow> logTerm (logMerge A ents) i = logTerm A i" by blast+
qed

section \<open>Properties: reading\<close>

text \<open>
  C14: reading a range of the log. Whether the range lies in storage, in the unstable tail
  or across both, \<open>slice\<close> returns what one contiguous log would return: the longest prefix
  of the range within the size limit. A range that starts in the compacted part is refused
  with \<open>ErrCompacted\<close>, and nothing in range panics.
\<close>

theorem slice_reads_log:
  assumes "l_inv E l L" "lo \<le> hi" "hi \<le> logLast (absLog (l_unstable l) L) + 1"
    and "totalSize E (logRange (absLog (l_unstable l) L) lo hi) < 2 ^ 64"
    and "\<And>e. e \<in> set (logRange (absLog (l_unstable l) L) lo hi) \<Longrightarrow> 0 < pb_Size E e"
  shows "l_slice E lo hi m l = Some
     (if lo \<le> fst (absLog (l_unstable l) L) then Inl ErrCompacted
      else Inr (limitSize E m (logRange (absLog (l_unstable l) L) lo hi)))"
proof (cases "lo \<le> fst (absLog (l_unstable l) L)")
  case True
  obtain b bt es where A: "absLog (l_unstable l) L = (b, bt, es)" by (cases "absLog (l_unstable l) L")
  have "unat (b + 1) = unat b + 1"
    using absLog_layout(5) [OF assms(1) A] unat_plus_nat [of b 1] by simp
  then have "lo < b + 1" using True by (simp add: A u64_arith)
  moreover have "\<not> hi < lo" using assms(2) by (simp add: linorder_not_less)
  ultimately show ?thesis
    using True by (simp add: l_slice_def l_mustCheckOutOfBounds_def l_firstIndex_eq [OF assms(1)] A)
next
  case False
  then show ?thesis using l_slice_eq [OF assms(1) _ assms(2-5)] by (simp add: linorder_not_le)
qed

theorem slice_reads_log_witness:
  "l_slice sampleLib 1 4 25 sampleLog = Some (Inr [ent 1 1, ent 2 1])"
  using slice_reads_log [OF sample_inv, of 1 4 25]
  by (simp add: sample_simps logLast_def logRange_def totalSize_def sampleLib_def)

lemma logRange_length:
  assumes "log_ok A" "fst A < lo" "lo \<le> hi" "hi \<le> logLast A + 1"
  shows "length (logRange A lo hi) = unat hi - unat lo"
proof -
  obtain b bt es where A: "A = (b, bt, es)" by (cases A)
  have bnd: "unat b + length es + 1 < 2 ^ 64" using assms(1) by (simp add: A log_ok_def boundedLog_def)
  have "unat b < unat lo" "unat lo \<le> unat hi" "unat hi \<le> unat b + length es + 1"
    using assms(2-4) unat_plus_nat1(1) [OF bnd] by (simp_all add: A logLast_def u64_arith)
  then show ?thesis by (simp add: A logRange_def)
qed

lemma l_inv_log_ok: "l_inv E l L \<Longrightarrow> log_ok (absLog (l_unstable l) L)"
  by (simp add: l_inv_def)

lemma scan_collects:
  assumes inv: "l_inv E l L"
  defines "A \<equiv> absLog (l_unstable l) L"
  assumes "fst A < lo" "lo \<le> hi" "hi \<le> logLast A + 1"
    and "totalSize E (logRange A lo hi) < 2 ^ 64"
    and "\<And>e. e \<in> set (logRange A lo hi) \<Longrightarrow> 0 < pb_Size E e"
  shows "l_scan E l lo hi m collect seen = Some (Some (None, seen @ logRange A lo hi))"
  using assms(3-)
proof (induction "unat hi - unat lo" arbitrary: lo seen rule: less_induct)
  case less
  have okA: "log_ok A" using inv by (simp add: A_def l_inv_log_ok)
  show ?case
  proof (cases "lo < hi")
    case False
    with less.prems(2) have "lo = hi" by simp
    moreover have "logRange A hi hi = []" by (cases A) (simp add: logRange_def)
    ultimately show ?thesis by (subst l_scan.simps) simp
  next
    case True
    let ?R = "logRange A lo hi" and ?P = "limitSize E m (logRange A lo hi)"
    let ?n = "length (limitSize E m (logRange A lo hi))"
    have len: "length ?R = unat hi - unat lo" by (rule logRange_length [OF okA less.prems(1-3)])
    then have ne: "?R \<noteq> []" using True by (auto simp: word_less_nat_alt)
    then have n: "0 < ?n" "?n \<le> unat hi - unat lo"
      using limitSize_length [of E m ?R] len by auto
    have sl: "l_slice E lo hi m l = Some (Inr ?P)"
      using l_slice_eq [OF inv] less.prems unfolding A_def by blast
    obtain lo' where lo': "lo' = lo + of_nat ?n" by simp
    have "unat lo + ?n < 2 ^ 64" using n(2) unat_u64_less [of hi] True by (simp add: word_less_nat_alt)
    then have lo: "unat lo' = unat lo + ?n" unfolding lo' by (rule unat_plus_nat)
    obtain b bt es where Ab: "A = (b, bt, es)" by (cases A)
    have le: "lo' \<le> hi" "lo \<le> lo'" using lo n True by (simp_all add: u64_arith)
    have split: "?R = logRange A lo lo' @ logRange A lo' hi"
      using less.prems(1) le unfolding Ab by (intro logRange_split) (simp_all add: u64_arith)
    have flt: "fst A < lo'" using less.prems(1) lo by (simp add: u64_arith)
    have sub: "totalSize E (logRange A lo' hi) < 2 ^ 64"
      "\<And>e. e \<in> set (logRange A lo' hi) \<Longrightarrow> 0 < pb_Size E e"
      using less.prems(4,5) unfolding split by simp_all
    have ih: "l_scan E l lo' hi m collect (seen @ ?P) = Some (Some (None, (seen @ ?P) @ logRange A lo' hi))"
    proof (rule less.hyps [OF _ flt le(1) less.prems(3) sub])
      show "unat hi - unat lo' < unat hi - unat lo"
        using n(1) True unfolding lo word_less_nat_alt by linarith
    qed
    have "length (logRange A lo lo') = ?n"
      using logRange_length [OF okA less.prems(1) le(2)] lo le(1) less.prems(3) by simp
    then have "take ?n (logRange A lo lo' @ logRange A lo' hi) = logRange A lo lo'" by simp
    then have P: "?P = logRange A lo lo'"
      using limitSize_take [of E m ?R] unfolding split [symmetric] by simp
    have "l_scan E l lo hi m collect seen = l_scan E l lo' hi m collect (seen @ ?P)"
      using True sl ne by (subst l_scan.simps) (simp add: collect_def lo')
    also have "\<dots> = Some (Some (None, (seen @ ?P) @ logRange A lo' hi))" by (rule ih)
    also have "(seen @ ?P) @ logRange A lo' hi = seen @ ?R" by (simp only: P append_assoc split [symmetric])
    finally show ?thesis .
  qed
qed

text \<open>
  C35: a scan ends and sees everything. For every page size, \<open>scan\<close> over an available
  range returns without an error and hands its callback exactly the entries of the range,
  in order, in however many pages it takes.
\<close>

theorem scan_visits_range:
  assumes "l_inv E l L" "fst (absLog (l_unstable l) L) < lo" "lo \<le> hi"
    "hi \<le> logLast (absLog (l_unstable l) L) + 1"
    and "totalSize E (logRange (absLog (l_unstable l) L) lo hi) < 2 ^ 64"
    and "\<And>e. e \<in> set (logRange (absLog (l_unstable l) L) lo hi) \<Longrightarrow> 0 < pb_Size E e"
  shows "l_scan E l lo hi m collect [] = Some (Some (None, logRange (absLog (l_unstable l) L) lo hi))"
  using scan_collects [OF assms(1-6), of m "[]"] by simp

theorem scan_visits_range_witness:
  "l_scan sampleLib sampleLog 1 4 15 collect [] = Some (Some (None, [ent 1 1, ent 2 1, ent 3 2]))"
  using scan_visits_range [OF sample_inv, of 1 4 15]
  by (simp add: sample_simps logLast_def logRange_def totalSize_def sampleLib_def)

section \<open>Properties: appending\<close>

text \<open>
  C3: log matching. An append request whose \<open>prev\<close> is in the log and whose entries do
  not contradict the committed part is accepted: afterwards every entry of the request is
  in the log, the log up to \<open>prev\<close> is as before, nothing is dropped when all entries were
  there already, and the commit index is the larger of the old one and the leader's,
  bounded by the last new index. A request whose \<open>prev\<close> is not in the log is refused and
  changes nothing.
\<close>

theorem maybeAppend_log_matching:
  assumes inv: "l_inv E l L" and A: "A = absLog (l_unstable l) L" and p: "p = eid_index (ls_prev a)"
    and "p \<noteq> maxU64" "contiguous (p + 1) (ls_entries a)"
    and "log_ok (logWrite A (p + 1) (ls_entries a))"
    and agree: "\<forall>e \<in> set (ls_entries a). e_Index e \<le> l_committed l \<longrightarrow> logHas A e"
  shows "if fst A \<le> p \<and> p \<le> logLast A \<and> logTerm A p = eid_term (ls_prev a)
    then \<exists>l'. l_maybeAppend a c l = Some ((p + of_nat (length (ls_entries a)), True), l') \<and>
      l_inv E l' L \<and>
      (\<forall>e \<in> set (ls_entries a). logHas (absLog (l_unstable l') L) e) \<and>
      (\<forall>i. fst A \<le> i \<and> i \<le> p \<longrightarrow> logTerm (absLog (l_unstable l') L) i = logTerm A i) \<and>
      ((\<forall>e \<in> set (ls_entries a). logHas A e) \<longrightarrow> absLog (l_unstable l') L = A) \<and>
      l_committed l' = max (l_committed l) (min c (p + of_nat (length (ls_entries a))))
    else l_maybeAppend a c l = Some ((0, False), l)"
proof (cases "fst A \<le> p \<and> p \<le> logLast A \<and> logTerm A p = eid_term (ls_prev a)")
  case True
  from l_maybeAppend_eq [OF inv, of a c] assms(3-) True obtain u' where
    r: "l_maybeAppend a c l = Some ((p + of_nat (length (ls_entries a)), True),
       l\<lparr>l_unstable := u', l_committed := max (l_committed l) (min c (p + of_nat (length (ls_entries a))))\<rparr>)"
    "l_inv E (l\<lparr>l_unstable := u'\<rparr>) L" "absLog u' L = logMerge A (ls_entries a)"
    unfolding A p by blast
  have "logMerge A (ls_entries a) = A" if "\<forall>e \<in> set (ls_entries a). logHas A e"
  proof -
    have "dropWhile (logHas A) (ls_entries a) = []" using that by simp
    then show ?thesis by (simp only: logMerge_def list.case)
  qed
  moreover have "log_ok A" using inv by (simp add: A l_inv_log_ok)
  note logMerge_spec [OF this _ _ assms(5,6)]
  ultimately show ?thesis using True r by (simp add: l_inv_def)
next
  case False
  then have "matchTerm (ls_prev a) l = Some False"
    using matchTerm_eq [OF inv, of "ls_prev a"] assms(4) by (auto simp: A p)
  then have "l_maybeAppend a c l = Some ((0, False), l)" by (simp add: l_maybeAppend_def)
  with False show ?thesis by (simp only: if_False)
qed

theorem maybeAppend_log_matching_witness:
  "\<exists>l'. l_maybeAppend \<lparr>ls_term = 3, ls_prev = EntryID 1 2, ls_entries = [ent 3 3]\<rparr> 2 sampleLog =
     Some ((3, True), l') \<and> l_committed l' = 2"
proof -
  have c: "l_committed sampleLog = 1" by (simp add: sampleLog_def)
  show ?thesis
    using maybeAppend_log_matching [OF sample_inv refl refl,
      of "\<lparr>ls_term = 3, ls_prev = EntryID 1 2, ls_entries = [ent 3 3]\<rparr>" 2]
    by (auto simp: sample_simps logLast_def logWrite_def log_ok_def boundedLog_def logTerm_def c
      max_def)
qed

text \<open>
  C36: the probe for a matching index. \<open>findConflictByTerm\<close> returns the largest index up to
  the given one whose term is at most the given term or is not known, with that term, or
  zero for an unknown one.
\<close>

theorem findConflictByTerm_spec:
  assumes "l_inv E l L" "index \<noteq> maxU64"
  shows "\<exists>gi gt. findConflictByTerm l index t = Some (gi, gt) \<and> gi \<le> index \<and>
     (\<forall>j. gi < j \<and> j \<le> index \<longrightarrow> (\<exists>tj. l_term j l = Some (Inr tj) \<and> t < tj)) \<and>
     (gi = 0 \<and> gt = 0 \<or> (\<exists>e. l_term gi l = Some (Inl e)) \<and> gt = 0 \<or>
      l_term gi l = Some (Inr gt) \<and> gt \<le> t)"
  using assms(2)
proof (induction "unat index" arbitrary: index rule: less_induct)
  case less
  from l_term_eq [OF assms(1) less.prems] obtain r where r: "l_term index l = Some r" by blast
  show ?case
  proof (cases "index = 0")
    case True
    then show ?thesis by (subst findConflictByTerm.simps) simp
  next
    case False
    then have pos: "0 < index" by (simp add: word_gt_0)
    have dec: "unat (index - 1) = unat index - 1" "0 < unat index"
      using pos by (simp_all add: unat_sub word_le_nat_alt word_less_nat_alt)
    have below: "j = index \<or> j \<le> index - 1" if "j \<le> index" for j
    proof (cases "j = index")
      case False
      with that dec u64_neqD [OF False] show ?thesis unfolding word_le_nat_alt by linarith
    qed simp
    show ?thesis
    proof (cases r)
      case (Inl e)
      with r pos show ?thesis by (subst findConflictByTerm.simps) auto
    next
      case (Inr tt)
      show ?thesis
      proof (cases "tt \<le> t")
        case True
        with r Inr pos show ?thesis by (subst findConflictByTerm.simps) auto
      next
        case False
        have "index - 1 \<noteq> maxU64" using dec unat_u64_less [of index] by auto
        with less.hyps [of "index - 1"] dec obtain gi gt where
          ih: "findConflictByTerm l (index - 1) t = Some (gi, gt)" "gi \<le> index - 1"
          "\<forall>j. gi < j \<and> j \<le> index - 1 \<longrightarrow> (\<exists>tj. l_term j l = Some (Inr tj) \<and> t < tj)"
          "gi = 0 \<and> gt = 0 \<or> (\<exists>e. l_term gi l = Some (Inl e)) \<and> gt = 0 \<or>
           l_term gi l = Some (Inr gt) \<and> gt \<le> t" by auto
        have "findConflictByTerm l index t = Some (gi, gt)"
          using r Inr pos False ih(1) by (subst findConflictByTerm.simps) simp
        moreover have "gi \<le> index" using ih(2) dec by (simp add: word_le_nat_alt)
        moreover have "\<exists>tj. l_term j l = Some (Inr tj) \<and> t < tj" if "gi < j" "j \<le> index" for j
          using below [OF that(2)] that(1) ih(3) r Inr False by (auto simp: linorder_not_le)
        ultimately show ?thesis using ih(4) by blast
      qed
    qed
  qed
qed

theorem findConflictByTerm_spec_witness:
  "\<exists>gi gt. findConflictByTerm sampleLog 3 1 = Some (gi, gt) \<and> gi \<le> 3"
  using findConflictByTerm_spec [OF sample_inv, of 3 1] by simp blast

section \<open>Properties: cursors\<close>

lemma l_inv_cong: "l_storage l' = l_storage l \<Longrightarrow> l_unstable l' = l_unstable l \<Longrightarrow> l_inv E l L \<Longrightarrow> l_inv E l' L"
  by (simp add: l_inv_def)

lemma absLog_acceptInProgress: "u_inv u \<Longrightarrow> absLog (acceptInProgress u) L = absLog u L"
  by (simp add: acceptInProgress_eq absLog_def split: option.split)

lemma l_inv_acceptUnstable: "l_inv E l L \<Longrightarrow> l_inv E (l_acceptUnstable l) L"
proof -
  assume a: "l_inv E l L"
  then have u: "u_inv (l_unstable l)" by (simp add: l_inv_def)
  from a show ?thesis
    using u_inv_acceptInProgress [OF u] absLog_acceptInProgress [OF u]
    by (simp add: l_inv_def l_acceptUnstable_def) (simp add: acceptInProgress_eq [OF u])
qed

lemma logLast_Suc: "log_ok A \<Longrightarrow> unat (logLast A + 1) = unat (logLast A) + 1"
  by (cases A) (auto simp: log_ok_def boundedLog_def logLast_def unat_plus_nat unat_plus_nat1)

lemma fst_le_logLast: "log_ok A \<Longrightarrow> fst A \<le> logLast A"
  by (cases A) (auto simp: log_ok_def boundedLog_def logLast_def unat_plus_nat word_le_nat_alt)

lemma request_keeps:
  assumes inv: "l_inv E l L" and A: "A = absLog (l_unstable l) L" and p: "p = eid_index (ls_prev a)"
    and cur: "l_cursors l A"
    and req: "p \<noteq> maxU64" "contiguous (p + 1) (ls_entries a)"
      "log_ok (logWrite A (p + 1) (ls_entries a))"
    and agree: "\<forall>e \<in> set (ls_entries a). e_Index e \<le> l_committed l \<longrightarrow> logHas A e"
    and run: "l_maybeAppend a c l = Some (r, l')"
  shows "l_inv E l' L \<and> l_cursors l' (absLog (l_unstable l') L) \<and> l_committed l \<le> l_committed l'"
proof (cases "fst A \<le> p \<and> p \<le> logLast A \<and> logTerm A p = eid_term (ls_prev a)")
  case True
  let ?n = "p + of_nat (length (ls_entries a))"
  from l_maybeAppend_eq [OF inv, of a c] req agree True obtain u' where
    r: "l_maybeAppend a c l = Some ((?n, True),
       l\<lparr>l_unstable := u', l_committed := max (l_committed l) (min c ?n)\<rparr>)"
    "l_inv E (l\<lparr>l_unstable := u'\<rparr>) L" "absLog u' L = logMerge A (ls_entries a)"
    "?n \<le> logLast (logMerge A (ls_entries a))"
    unfolding A p by blast
  have "l_committed l \<le> logLast (logMerge A (ls_entries a))"
  proof (cases "\<forall>e \<in> set (ls_entries a). logHas A e")
    case True
    then have "dropWhile (logHas A) (ls_entries a) = []" by simp
    then have "logMerge A (ls_entries a) = A" by (simp only: logMerge_def list.case)
    with cur show ?thesis by (simp add: l_cursors_def)
  next
    case False
    then obtain j where j: "j < length (ls_entries a)" "\<not> logHas A (ls_entries a ! j)"
      by (metis in_set_conv_nth)
    with agree have lt: "l_committed l < e_Index (ls_entries a ! j)"
      by (metis nth_mem linorder_not_less)
    have okA: "log_ok A" using inv by (simp add: A l_inv_log_ok)
    have p1: "unat (p + 1) = unat p + 1" using unat_add1 [OF req(1)] .
    have "fst A < p + 1" "p + 1 \<le> logLast A + 1"
      using True p1 logLast_Suc [OF okA] by (auto simp: u64_arith)
    from logWrite_facts(4) [OF okA this req(3)] have tot: "unat p + 1 + length (ls_entries a) < 2 ^ 64"
      by (simp add: p1)
    have "e_Index (ls_entries a ! j) \<le> ?n"
      using contiguous_nth [OF req(2) j(1)] unat_plus_nat1(2) [of p j] unat_plus_nat [of p "length (ls_entries a)"]
        tot j(1) by (simp add: word_le_nat_alt)
    with lt r(4) show ?thesis by simp
  qed
  then have "max (l_committed l) (min c ?n) \<le> logLast (logMerge A (ls_entries a))"
    using r(4) by (simp add: min_le_iff_disj)
  moreover have "l' = l\<lparr>l_unstable := u', l_committed := max (l_committed l) (min c ?n)\<rparr>"
    using run r(1) by simp
  moreover have "l_applying l \<le> max (l_committed l) (min c ?n)"
    using cur by (simp add: l_cursors_def le_max_iff_disj)
  ultimately show ?thesis
    using r(2,3) cur by (simp add: l_cursors_def l_inv_def)
next
  case False
  then have "matchTerm (ls_prev a) l = Some False"
    using matchTerm_eq [OF inv, of "ls_prev a"] req(1) by (auto simp: A p)
  then have "l' = l" using run by (simp add: l_maybeAppend_def)
  with inv cur show ?thesis by (simp add: A)
qed

lemma commitTo_keeps:
  assumes inv: "l_inv E l L" and cur: "l_cursors l (absLog (l_unstable l) L)"
    and run: "l_commitTo c l = Some l'"
  shows "l_inv E l' L \<and> l_cursors l' (absLog (l_unstable l') L) \<and> l_committed l \<le> l_committed l'"
proof (cases "l_committed l < c")
  case True
  with run l_lastIndex_eq [OF inv] have "c \<le> logLast (absLog (l_unstable l) L)" "l' = l\<lparr>l_committed := c\<rparr>"
    by (auto simp: l_commitTo_def panicIf_def linorder_not_less split: if_splits)
  with cur True l_inv_cong [OF _ _ inv, of l'] show ?thesis by (auto simp: l_cursors_def)
qed (use assms in \<open>simp add: l_commitTo_def\<close>)

lemma stored_tail:
  assumes inv: "l_inv E l L" and snap: "u_snapshot (l_unstable l) = None" and L: "L = (b, bt, es)"
  defines "off \<equiv> u_offset (l_unstable l)"
  shows "unat b < unat off" "unat off - unat b - 1 \<le> length es" "unat b + length es + 1 < 2 ^ 64"
    "absLog (l_unstable l) L = (b, bt, take (unat off - unat b - 1) es @ u_entries (l_unstable l))"
proof -
  have ok: "unat b + length es + 1 < 2 ^ 64" using inv by (auto simp: l_inv_def storageHas_def log_ok_def boundedLog_def L)
  then show "unat b + length es + 1 < 2 ^ 64" .
  have "b < off" "off \<le> b + of_nat (length es) + 1" using inv snap by (auto simp: l_inv_def L off_def logLast_def)
  then show "unat b < unat off" "unat off - unat b - 1 \<le> length es"
    using unat_plus_nat1(1) [OF ok] by (simp_all add: u64_arith)
  show "absLog (l_unstable l) L = (b, bt, take (unat off - unat b - 1) es @ u_entries (l_unstable l))"
    by (simp add: absLog_def snap L logWrite_def off_def)
qed

lemma l_inv_stored:
  assumes "storageHas E st L" "u_inv (l_unstable l)" "log_ok (absLog (l_unstable l) L)"
    "u_snapshot (l_unstable l) = None \<Longrightarrow> fst L < u_offset (l_unstable l) \<and> u_offset (l_unstable l) \<le> logLast L + 1 \<and>
       (u_entries (l_unstable l) = [] \<longrightarrow> u_offset (l_unstable l) = logLast L + 1)"
  shows "l_inv E (l\<lparr>l_storage := st\<rparr>) L"
  using assms by (simp add: l_inv_def)

text \<open>Storing the first unstable entries leaves the log as it is.\<close>

lemma store_keeps:
  assumes inv: "l_inv E l L" and snap: "u_snapshot (l_unstable l) = None"
    and k: "0 < k" "k \<le> length (u_entries (l_unstable l))"
    and L': "L' = logWrite L (u_offset (l_unstable l)) (take k (u_entries (l_unstable l)))" "storageHas E st L'"
  shows "l_inv E (l\<lparr>l_storage := st\<rparr>) L' \<and> absLog (l_unstable l) L' = absLog (l_unstable l) L"
proof -
  obtain b bt es where L: "L = (b, bt, es)" by (cases L)
  note t = stored_tail [OF inv snap L]
  let ?off = "u_offset (l_unstable l)" and ?n = "unat (u_offset (l_unstable l)) - unat b - 1"
  have w: "L' = (b, bt, take ?n es @ take k (u_entries (l_unstable l)))" by (simp add: L'(1) L logWrite_def)
  then have A: "absLog (l_unstable l) L' = absLog (l_unstable l) L" using t(2,4) by (simp add: absLog_def snap logWrite_def)
  have "unat b + length (take ?n es @ take k (u_entries (l_unstable l))) + 1 < 2 ^ 64"
    using L'(2) unfolding w by (auto simp: storageHas_def log_ok_def boundedLog_def)
  note last = unat_plus_nat1(1) [OF this]
  have fL: "fst L' = b" by (simp add: w)
  have "b < ?off" using t(1) by (simp add: word_less_nat_alt)
  moreover have "?off \<le> logLast L' + 1"
    using last t(1,2) by (simp add: w logLast_def word_le_nat_alt)
  ultimately have "l_inv E (l\<lparr>l_storage := st\<rparr>) L'"
    using inv k snap A fL by (intro l_inv_stored [OF L'(2)]) (auto simp: l_inv_def)
  then show ?thesis using A by simp
qed

lemma stable_keeps:
  assumes inv: "l_inv E l L" and snap: "u_snapshot (l_unstable l) = None"
    and k: "k \<le> length (u_entries (l_unstable l))"
    and L': "L = logWrite L (u_offset (l_unstable l)) (take k (u_entries (l_unstable l)))"
    and i: "unat (eid_index i) < unat (u_offset (l_unstable l)) + k" and run: "l_stableTo i l = Some l'"
  shows "l_inv E l' L \<and> absLog (l_unstable l') L = absLog (l_unstable l) L \<and> l_committed l' = l_committed l \<and>
    l_applied l' = l_applied l \<and> l_applying l' = l_applying l"
proof -
  let ?u = "l_unstable l" and ?off = "u_offset (l_unstable l)"
  have ui: "u_inv ?u" using inv by (simp add: l_inv_def)
  obtain u' where u': "u_stableTo i ?u = Some u'" "l' = l\<lparr>l_unstable := u'\<rparr>"
    using run by (auto simp: l_stableTo_def bind_eq_Some_conv)
  show ?thesis
  proof (cases "u' = ?u")
    case True
    then show ?thesis using u'(2) inv by (simp add: l_inv_def)
  next
    case False
    let ?d = "unat (eid_index i) + 1 - unat ?off"
    have c: "?off \<le> eid_index i" "u' = ?u\<lparr>u_entries := drop ?d (u_entries ?u), u_offset := eid_index i + 1,
        u_offsetInProgress := max (u_offsetInProgress ?u) (eid_index i + 1)\<rparr>"
      using u'(1) False unfolding u_stableTo_eq [OF ui] by (auto split: if_splits)
    then have d: "?d \<le> k" "unat ?off \<le> unat (eid_index i)" using i by (auto simp: word_le_nat_alt)
    obtain b bt es where L: "L = (b, bt, es)" by (cases L)
    note t = stored_tail [OF inv snap L]
    let ?n = "unat ?off - unat b - 1"
    have es: "es = take ?n es @ take k (u_entries ?u)" using L' by (simp add: L logWrite_def)
    have len: "length es = ?n + k" using arg_cong [OF es, of length] t(2) k by simp
    have i1: "unat (eid_index i + 1) = unat (eid_index i) + 1"
      using unat_plus_nat [of "eid_index i" 1] i t(1-3) len by simp
    have n': "unat (eid_index i + 1) - unat b - 1 = ?n + ?d" using d(2) t(1) i1 by simp
    have "absLog u' L = (b, bt, take (unat (eid_index i + 1) - unat b - 1) es @ drop ?d (u_entries ?u))"
      by (simp add: absLog_def c(2) snap L logWrite_def)
    also have "take (unat (eid_index i + 1) - unat b - 1) es = take ?n es @ take ?d (u_entries ?u)"
      unfolding n' by (subst es) (use t(2) d(1) in \<open>simp add: min_def\<close>)
    finally have A: "absLog u' L = absLog ?u L" using t(4) by simp
    have last: "unat (logLast L + 1) = unat b + length es + 1" using unat_plus_nat1(1) [OF t(3)] by (simp add: L logLast_def)
    have "fst L < u_offset u'" using t(1) d(2) i1 by (simp add: c(2) L word_less_nat_alt)
    moreover have "u_offset u' \<le> logLast L + 1" using i i1 len t(1) by (simp add: c(2) word_le_nat_alt last)
    moreover have "u_offset u' = logLast L + 1" if "u_entries u' = []"
      by (rule u64_eqI) (use that i i1 len t(1) k d in \<open>simp add: c(2) last\<close>)
    ultimately have "l_inv E l' L"
      using inv A u_inv_stableTo [OF ui snap u'(1)] by (simp add: l_inv_def u'(2))
    then show ?thesis using A u'(2) by simp
  qed
qed

lemma storeSnap_keeps:
  assumes "l_inv E l L" "u_snapshot (l_unstable l) = Some s" "storageHas E st L'"
  shows "l_inv E (l\<lparr>l_storage := st\<rparr>) L' \<and> absLog (l_unstable l) L' = absLog (l_unstable l) L"
  using assms by (simp add: l_inv_def absLog_def)

lemma stableSnap_keeps:
  assumes inv: "l_inv E l L" and snap: "u_snapshot (l_unstable l) = Some s"
    and L: "L = (snapI s, snapT s, take k (u_entries (l_unstable l)))"
  shows "l_inv E (l_stableSnapTo i l) L \<and> absLog (l_unstable (l_stableSnapTo i l)) L = absLog (l_unstable l) L"
proof (cases "snapI s = i")
  case True
  let ?u = "l_unstable l"
  have ui: "u_inv ?u" "snapI s = u_offset ?u - 1" using inv snap by (auto simp: l_inv_def u_inv_def)
  note off = u_inv_facts(2,3) [OF ui(1)]
  have A: "absLog (u_stableSnapTo i ?u) L = absLog ?u L"
    using True snap off ui(2) by (simp add: u_stableSnapTo_def absLog_def logWrite_def L)
  have "unat (snapI s) + length (take k (u_entries ?u)) + 1 < 2 ^ 64"
    using inv unfolding L by (auto simp: l_inv_def storageHas_def log_ok_def boundedLog_def)
  note last = unat_plus_nat1(1) [OF this]
  have "u_offset ?u \<le> logLast L + 1" "u_entries ?u = [] \<Longrightarrow> u_offset ?u = logLast L + 1"
    using last off ui(2) by (auto simp: L logLast_def word_le_nat_alt)
  moreover have "fst L < u_offset ?u" using off ui(2) by (simp add: L word_less_nat_alt)
  moreover have "u_inv (u_stableSnapTo i ?u)" using ui(1) True snap by (simp add: u_stableSnapTo_def u_inv_def)
  ultimately show ?thesis
    using inv A True snap by (simp add: l_inv_def l_stableSnapTo_def) (simp add: u_stableSnapTo_def)
next
  case False
  then have "l_stableSnapTo i l = l" using snap by (simp add: l_stableSnapTo_def u_stableSnapTo_def)
  then show ?thesis using inv by simp
qed

text \<open>Compaction drops a prefix of the log.\<close>

lemma compact_keeps:
  assumes inv: "l_inv E l L" and snap: "u_snapshot (l_unstable l) = None"
    and i: "fst L < i" "i < u_offset (l_unstable l)" and st: "storageHas E st (logCompact L i)"
  shows "l_inv E (l\<lparr>l_storage := st\<rparr>) (logCompact L i) \<and>
    logLast (absLog (l_unstable l) (logCompact L i)) = logLast (absLog (l_unstable l) L)"
proof -
  let ?u = "l_unstable l"
  obtain b bt es where L: "L = (b, bt, es)" by (cases L)
  note t = stored_tail [OF inv snap L]
  let ?n = "unat (u_offset ?u) - unat b - 1" and ?k = "unat i - unat b"
  have k: "unat b < unat i" "unat i < unat (u_offset ?u)" "?k \<le> ?n" "0 < ?k"
    using i by (auto simp: L word_less_nat_alt)
  have C: "logCompact L i = (i, logTerm L i, drop ?k es)" by (simp add: L logCompact_def)
  have "take (unat (u_offset ?u) - unat i - 1) (drop ?k es) = drop ?k (take ?n es)"
    using k by (simp add: drop_take)
  moreover define X where "X = take ?n es @ u_entries ?u"
  ultimately have A: "absLog ?u (logCompact L i) = (i, logTerm L i, drop ?k X)"
    using k t(2) by (simp add: absLog_def snap C logWrite_def)
  have bk: "b + of_nat ?k = i" by (rule u64_eqI) (use k unat_plus_nat [of b ?k] unat_u64_less [of i] in simp)
  have ok: "log_ok (b, bt, X)" using l_inv_log_ok [OF inv] t(4) by (simp add: X_def)
  have len: "?k \<le> length X" using k(3) t(2) by (simp add: X_def)
  have "contiguous (b + 1 + of_nat ?k) (drop ?k X)" using contiguous_drop [OF _ len] ok by (simp add: log_ok_def)
  moreover have "b + 1 + of_nat ?k = i + 1" using bk by (simp add: algebra_simps)
  moreover have "boundedLog i (drop ?k X)"
  proof -
    have b: "unat b + length X + 1 < 2 ^ 64" "length X + 1 < 2 ^ 63" using ok by (simp_all add: log_ok_def boundedLog_def)
    have e: "unat i + length (drop ?k X) = unat b + length X" using len k(1) by simp
    have "length (drop ?k X) + 1 \<le> length X + 1" by simp
    from order.strict_trans1 [OF this b(2)] show ?thesis unfolding boundedLog_def e using b(1) by (rule conjI [rotated])
  qed
  ultimately have ok': "log_ok (absLog ?u (logCompact L i))" by (simp add: A log_ok_def)
  have up: "i + of_nat (m - ?k) = b + of_nat m" if "?k \<le> m" for m
  proof -
    have "b + of_nat (?k + (m - ?k)) = b + of_nat ?k + of_nat (m - ?k)" by (simp only: of_nat_add add.assoc)
    then show ?thesis unfolding bk le_add_diff_inverse [OF that] by simp
  qed
  have "logLast (absLog ?u (logCompact L i)) = logLast (absLog ?u L)"
    unfolding A t(4) X_def [symmetric] using up [OF len] by (simp add: logLast_def)
  moreover have "logLast (logCompact L i) = logLast L"
  proof -
    have "?k \<le> length es" using k(3) t(2) by simp
    then show ?thesis using up [of "length es"] unfolding C unfolding L logLast_def by (simp only: prod.case length_drop)
  qed
  ultimately show ?thesis
    using inv ok' i(2) snap by (intro conjI l_inv_stored [OF st]) (simp_all add: l_inv_def, simp add: C)
qed

lemma propose_keeps:
  assumes inv: "l_inv E l L" and cur: "l_cursors l (absLog (l_unstable l) L)"
    and e: "ents \<noteq> []" "contiguous f ents" "f = logLast (absLog (l_unstable l) L) + 1"
      "log_ok (logWrite (absLog (l_unstable l) L) f ents)" and run: "l_append ents l = Some (li, l')"
  shows "l_inv E l' L \<and> l_cursors l' (absLog (l_unstable l') L) \<and> l_committed l \<le> l_committed l'"
proof -
  let ?A = "absLog (l_unstable l) L"
  have okA: "log_ok ?A" using inv by (rule l_inv_log_ok)
  note last1 = logLast_Suc [OF okA]
  have f: "fst ?A < f" "f \<le> logLast ?A + 1" "l_committed l < f"
    using cur e(3) last1 fst_le_logLast [OF okA] by (auto simp: l_cursors_def u64_arith)
  from l_append_eq [OF inv e(1,2) f e(4)] obtain u' where
    u': "l_append ents l = Some (logLast (logWrite ?A f ents), l\<lparr>l_unstable := u'\<rparr>)"
    "l_inv E (l\<lparr>l_unstable := u'\<rparr>) L" "absLog u' L = logWrite ?A f ents" by blast
  have "unat (logLast (logWrite ?A f ents)) = unat f + length ents - 1"
    by (rule logWrite_facts(1) [OF okA f(1,2) e(4)])
  then have "logLast ?A \<le> logLast (logWrite ?A f ents)"
    using e(1,3) last1 by (cases ents) (auto simp: word_le_nat_alt)
  with u' cur run show ?thesis by (auto simp: l_cursors_def intro: order_trans)
qed

lemma cursor_moves_keep:
  fixes l' :: raftLog
  assumes inv: "l_inv E l L" and cur: "l_cursors l (absLog (l_unstable l) L)"
  defines "ok \<equiv> l_inv E l' L \<and> l_cursors l' (absLog (l_unstable l') L) \<and> l_committed l \<le> l_committed l'"
  shows "l_maybeCommit at l = Some (b, l') \<Longrightarrow> ok"
    and "l_appliedTo i n l = Some l' \<Longrightarrow> ok"
    and "l_applying l \<le> i \<Longrightarrow> l_acceptApplying i n u l = Some l' \<Longrightarrow> ok"
    and "l' = l_acceptUnstable l \<Longrightarrow> ok"
    and "l_committed l < snapI s \<Longrightarrow> unat (snapI s) + 1 < 2 ^ 64 \<Longrightarrow> l' = l_restore s l \<Longrightarrow> ok"
proof -
  show "l_maybeCommit at l = Some (b, l') \<Longrightarrow> ok"
    using commitTo_keeps [OF inv cur, of "eid_index at" l'] inv cur
    by (auto simp: ok_def l_maybeCommit_def bind_eq_Some_conv split: if_splits)
  show ok if run: "l_appliedTo i n l = Some l'"
  proof -
    from run have "l_applied l \<le> i" "i \<le> l_committed l" "l_storage l' = l_storage l"
      "l_unstable l' = l_unstable l" "l_committed l' = l_committed l" "l_applied l' = i"
      "l_applying l' = max (l_applying l) i"
      by (auto simp: l_appliedTo_def bind_eq_Some_conv linorder_not_less Let_def)
    with inv cur l_inv_cong [of l' l E L] show ?thesis by (simp add: ok_def l_cursors_def)
  qed
  show ok if i: "l_applying l \<le> i" and run: "l_acceptApplying i n u l = Some l'"
  proof -
    from run have "i \<le> l_committed l" "l_storage l' = l_storage l"
      "l_unstable l' = l_unstable l" "l_committed l' = l_committed l" "l_applied l' = l_applied l"
      "l_applying l' = i"
      by (auto simp: l_acceptApplying_def bind_eq_Some_conv linorder_not_less Let_def)
    with i inv cur l_inv_cong [of l' l E L] show ?thesis by (auto simp: ok_def l_cursors_def)
  qed
  have "u_inv (l_unstable l)" using inv by (simp add: l_inv_def)
  with inv cur l_inv_acceptUnstable [of E l L] show "l' = l_acceptUnstable l \<Longrightarrow> ok"
    by (simp add: ok_def l_cursors_def l_acceptUnstable_def absLog_acceptInProgress)
  show ok if r: "l_committed l < snapI s" "unat (snapI s) + 1 < 2 ^ 64" "l' = l_restore s l"
  proof -
    have "absLog (l_unstable l') L = (snapI s, snapT s, [])" by (simp add: r(3) l_restore_def u_restore_def absLog_def)
    moreover have "log_ok (snapI s, snapT s, [])" using r(2) by (simp add: log_ok_def boundedLog_def)
    moreover have "u_inv (l_unstable l')" "u_snapshot (l_unstable l') = Some s"
      using u_inv_restore [OF r(2)] by (simp_all add: r(3) l_restore_def) (simp add: u_restore_def)
    ultimately have "l_inv E l' L" using inv by (simp add: l_inv_def r(3) l_restore_def)
    moreover have "l_cursors l' (snapI s, snapT s, [])"
      using cur r(1) by (auto simp: l_cursors_def r(3) l_restore_def logLast_def)
    ultimately show ?thesis
      using r(1) \<open>absLog (l_unstable l') L = (snapI s, snapT s, [])\<close> by (simp add: ok_def r(3) l_restore_def)
  qed
qed

lemma log_step_keeps:
  assumes step: "log_step E (L, l) (L', l')" and inv: "l_inv E l L" and cur: "l_cursors l (absLog (l_unstable l) L)"
  shows "l_inv E l' L' \<and> l_cursors l' (absLog (l_unstable l') L') \<and> l_committed l \<le> l_committed l'"
  using step
proof cases
  case (propose ents f li)
  then show ?thesis using propose_keeps [OF inv cur] by blast
next
  case (request a c r)
  then show ?thesis using request_keeps [OF inv refl refl cur] by blast
next
  case (commit c)
  then show ?thesis using commitTo_keeps [OF inv cur] by blast
next
  case (store k st)
  then show ?thesis using store_keeps [OF inv store(2-4) _ store(6)] cur by (simp add: l_cursors_def)
next
  case (stable k i)
  then show ?thesis using stable_keeps [OF inv] cur by (simp add: l_cursors_def)
next
  case (storeSnap s k st)
  then show ?thesis using storeSnap_keeps [OF inv] cur by (simp add: l_cursors_def)
next
  case (stableSnap s k i)
  then show ?thesis using stableSnap_keeps [OF inv, of s k i] cur by (simp add: l_cursors_def) (simp add: l_stableSnapTo_def)
next
  case (compact i st)
  then show ?thesis using compact_keeps [OF inv, of i st] cur by (simp add: l_cursors_def)
qed (use cursor_moves_keep [OF inv cur] in blast)+



section \<open>Properties: the hand-over to storage\<close>

context log_store
begin

lemma hand_over:
  assumes m: "invar m" and inv: "l_inv E l (stored m)"
    and u: "u_snapshot (l_unstable l) = None" "u_entries (l_unstable l) \<noteq> []"
      "u_offsetInProgress (l_unstable l) = u_offset (l_unstable l)"
  shows "\<exists>ents m' l'. l_nextUnstableEnts l = Some ents \<and> append ents m = Some (Inr m') \<and> invar m' \<and>
     l_stableTo (pbEntryID (ents ! (length ents - 1))) ((l_acceptUnstable l)\<lparr>l_storage := storage m'\<rparr>) = Some l' \<and>
     u_entries (l_unstable l') = [] \<and> l_inv E l' (stored m') \<and>
     absLog (l_unstable l') (stored m') = absLog (l_unstable l) (stored m)"
proof -
  let ?u = "l_unstable l" and ?L = "stored m"
  have ui: "u_inv ?u" and A: "absLog ?u ?L = logWrite ?L (u_offset ?u) (u_entries ?u)"
    and ok: "log_ok (absLog ?u ?L)"
    using inv u by (simp_all add: l_inv_def absLog_def)
  let ?n = "length (u_entries ?u)" and ?e = "u_entries ?u ! (length (u_entries ?u) - 1)"
  note e1 = last_entry_index [OF ui u(2)]
  have e: "unat (e_Index ?e) = unat (u_offset ?u) + ?n - 1"
    using e1 u_inv_facts(4) [OF ui u(2)] by (metis add_diff_cancel_right')
  have n: "0 < ?n" using u(2) by simp
  from inv u ok obtain m' where m': "append (u_entries ?u) m = Some (Inr m')" "invar m'"
    "stored m' = absLog ?u ?L"
    using append_stored [OF m u(2), of "u_offset ?u"] ui by (auto simp: l_inv_def A u_inv_def)
  let ?u1 = "acceptInProgress ?u"
  have u1: "u_inv ?u1" "u_snapshot ?u1 = None" "u_entries ?u1 = u_entries ?u" "u_offset ?u1 = u_offset ?u"
    using u_inv_acceptInProgress [OF ui] u(1) by (simp_all add: acceptInProgress_eq [OF ui])
  have "u_offset ?u \<le> e_Index ?e" "unat (e_Index ?e) < unat (u_offset ?u) + ?n"
    "unat (e_Index ?e) - unat (u_offset ?u) = ?n - 1" "?n \<le> unat (e_Index ?e) + 1 - unat (u_offset ?u)"
    using e n unfolding word_le_nat_alt by linarith+
  then obtain u' where u': "u_stableTo (pbEntryID ?e) ?u1 = Some u'" "u_entries u' = []"
    "u_offset u' = e_Index ?e + 1" "u_snapshot u' = None"
    using u_stableTo_eq [OF u1(1), of "pbEntryID ?e"] u1(2-4)
    by (simp add: pbEntryID_def del: One_nat_def)
  have ui': "u_inv u'" by (rule u_inv_stableTo [OF u1(1,2) u'(1)])
  obtain b bt es where Ab: "absLog ?u ?L = (b, bt, es)" by (cases "absLog ?u ?L")
  note lay = absLog_layout [OF inv Ab]
  have off: "unat (u_offset u') = unat b + length es + 1"
    using u'(3) e1 u_inv_facts(1) [OF ui] lay(1,2) n by simp
  have last1: "u_offset u' = logLast (absLog ?u ?L) + 1"
    by (rule u64_eqI) (simp add: off logLast_Suc [OF ok] lay(4) Ab [symmetric] flip: Ab lay(4))
  have A': "absLog u' (stored m') = absLog ?u ?L"
    using off unfolding absLog_def [of u'] u'(2,4) m'(3) Ab by (simp add: logWrite_def)
  have "l_inv E (l\<lparr>l_storage := storage m', l_unstable := u'\<rparr>) (stored m')"
    using storage_has [OF m'(2)] ui' A' ok last1 u'(2,4) off
    by (simp add: l_inv_def m'(3) Ab word_less_nat_alt)
  moreover have "l_nextUnstableEnts l = Some (u_entries ?u)"
    using nextEntries_eq [OF ui] u(3) by (simp add: l_nextUnstableEnts_def)
  ultimately show ?thesis
    using m' u'(1,2) A' by (auto simp: l_stableTo_def l_acceptUnstable_def)
qed

end



end
