(* ===== verification/ReadOnly.thy ===== *)
theory ReadOnly
  imports Tracker LogTypes
begin

text \<open>
  \<open>read_only.go\<close>: linearizable reads without a log entry. A request is queued with the
  commit index of its arrival; the heartbeats that follow carry, as their context, the
  number of requests queued so far, and an acknowledgement of that number by a quorum
  releases every request up to it. Positions count the requests a leader has queued since
  it was elected.
\<close>

section \<open>Model\<close>

datatype ReadOnlyOption = ReadOnlySafe | ReadOnlyLeaseBased

record ReadState =
  rs_Index :: u64
  rs_RequestCtx :: bytes

record readIndexRequest =
  rr_req :: Message
  rr_index :: u64

record readOnly =
  ro_option :: ReadOnlyOption
  ro_acks :: "u64 \<rightharpoonup> u64"
  ro_unconfirmedReads :: "readIndexRequest list"
  ro_confirmedReads :: u64

text \<open>\<open>encoding/binary\<close>: the eight bytes of an integer, lowest first; reading fewer panics.\<close>

definition PutUint64 :: "u64 \<Rightarrow> bytes" where
  "PutUint64 v = map (\<lambda>i. ucast (drop_bit (8 * i) v)) [0..<8]"

definition Uint64 :: "bytes \<Rightarrow> u64 option" where
  "Uint64 b = do {
     panicIf (length b < 8);
     Some (fold (\<lambda>i v. or v (push_bit (8 * i) (ucast (b ! i)))) [0..<8] 0)
   }"

definition newReadOnly :: "ReadOnlyOption \<Rightarrow> readOnly" where
  "newReadOnly option = \<lparr>ro_option = option, ro_acks = Map.empty, ro_unconfirmedReads = [],
     ro_confirmedReads = 0\<rparr>"

definition addRequest :: "u64 \<Rightarrow> Message \<Rightarrow> readOnly \<Rightarrow> readOnly" where
  "addRequest commitIndex req ro =
     ro\<lparr>ro_unconfirmedReads := ro_unconfirmedReads ro @ [\<lparr>rr_req = req, rr_index = commitIndex\<rparr>]\<rparr>"

definition recvAck :: "u64 \<Rightarrow> bytes \<Rightarrow> readOnly \<Rightarrow> readOnly option" where
  "recvAck from ctx ro =
     (if length ctx \<noteq> 0 then do {
        v \<leftarrow> Uint64 ctx;
        let old = (case ro_acks ro from of None \<Rightarrow> 0 | Some a \<Rightarrow> a);
        Some (ro\<lparr>ro_acks := (ro_acks ro)(from \<mapsto> max old v)\<rparr>)
      } else Some ro)"

definition ro_AckedIndex :: "readOnly \<Rightarrow> AckedIndexer" where
  "ro_AckedIndex ro voterID = ro_acks ro voterID"

definition maybeAdvance :: "JointConfig \<Rightarrow> readOnly \<Rightarrow> (readIndexRequest list \<times> readOnly) option" where
  "maybeAdvance c ro = (
     let newConfirmedReads = jc_CommittedIndex c (ro_AckedIndex ro) in
     if newConfirmedReads \<le> ro_confirmedReads ro then Some ([], ro)
     else do {
       let n = unat (newConfirmedReads - ro_confirmedReads ro);
       readStates \<leftarrow> go_slice (ro_unconfirmedReads ro) 0 n;
       rest \<leftarrow> go_from (ro_unconfirmedReads ro) n;
       Some (readStates,
         ro\<lparr>ro_unconfirmedReads := rest, ro_confirmedReads := newConfirmedReads\<rparr>)
     })"

definition heartbeatCtx :: "readOnly \<Rightarrow> bytes" where
  "heartbeatCtx ro =
     (if length (ro_unconfirmedReads ro) = 0 then []
      else PutUint64 (ro_confirmedReads ro + of_nat (length (ro_unconfirmedReads ro))))"

section \<open>Specification\<close>

text \<open>
  No position beyond the last queued request has been acknowledged. With it, an advance
  never reads past the queue.
\<close>

definition ro_last :: "readOnly \<Rightarrow> nat" where
  "ro_last ro = unat (ro_confirmedReads ro) + length (ro_unconfirmedReads ro)"

definition ro_inv :: "readOnly \<Rightarrow> bool" where
  "ro_inv ro \<longleftrightarrow> ro_last ro < 2 ^ 64 \<and> (\<forall>i a. ro_acks ro i = Some a \<longrightarrow> unat a \<le> ro_last ro)"

text \<open>The voters that acknowledged the position of a request, counted from the first one queued.\<close>

definition ackedBy :: "readOnly \<Rightarrow> nat \<Rightarrow> u64 set" where
  "ackedBy ro p = {i. \<exists>a. ro_acks ro i = Some a \<and> p \<le> unat a}"

text \<open>A leader of three voters with three queued reads: one voter has acknowledged all, another the first two.\<close>

definition sampleReads :: readOnly where
  "sampleReads = \<lparr>ro_option = ReadOnlySafe, ro_acks = [1 \<mapsto> 3, 2 \<mapsto> 2],
     ro_unconfirmedReads = [\<lparr>rr_req = emptyMessage, rr_index = 7\<rparr>, \<lparr>rr_req = emptyMessage, rr_index = 8\<rparr>,
       \<lparr>rr_req = emptyMessage, rr_index = 9\<rparr>],
     ro_confirmedReads = 0\<rparr>"

section \<open>Encoding\<close>

lemma bit_fold_or:
  "bit (fold (\<lambda>i w. or w (f i)) xs w) n \<longleftrightarrow> bit (w :: u64) n \<or> (\<exists>i \<in> set xs. bit (f i) n)"
  by (induction xs arbitrary: w) (auto simp: bit_or_iff)

lemma bit_byte: "i < 8 \<Longrightarrow> n < 64 \<Longrightarrow>
    bit (push_bit (8 * i) (ucast (PutUint64 v ! i)) :: u64) n \<longleftrightarrow> i = n div 8 \<and> bit v n"
  by (auto simp: PutUint64_def bit_push_bit_iff bit_ucast_iff bit_drop_bit_eq)

lemma Uint64_PutUint64: "Uint64 (PutUint64 v) = Some v"
proof -
  have "fold (\<lambda>i w. or w (push_bit (8 * i) (ucast (PutUint64 v ! i)))) [0..<8] 0 = v"
  proof (rule bit_word_eqI)
    fix n assume "n < LENGTH(64)"
    then have n: "n < 64" by simp
    have "bit (fold (\<lambda>i w. or w (push_bit (8 * i) (ucast (PutUint64 v ! i)))) [0..<8] (0 :: u64)) n \<longleftrightarrow>
        (\<exists>i \<in> {0..<8}. i = n div 8 \<and> bit v n)"
      using n by (simp add: bit_fold_or bit_byte)
    also have "\<dots> \<longleftrightarrow> bit v n" using n by auto
    finally show "bit (fold (\<lambda>i w. or w (push_bit (8 * i) (ucast (PutUint64 v ! i)))) [0..<8] (0 :: u64)) n = bit v n" .
  qed
  then show ?thesis by (simp add: Uint64_def) (simp add: PutUint64_def)
qed

lemma PutUint64_not_Nil [simp]: "PutUint64 v \<noteq> []" "length (PutUint64 v) = 8"
  by (simp_all add: PutUint64_def)

section \<open>Properties\<close>

lemma ro_step_inv:
  "ro_last ro + 1 < 2 ^ 64 \<Longrightarrow> ro_inv ro \<Longrightarrow> ro_inv (addRequest i m ro)"
  "ro_inv (newReadOnly opt)"
  by (auto simp: ro_inv_def addRequest_def ro_last_def newReadOnly_def intro: le_SucI)

lemma recvAck_inv:
  assumes "ro_inv ro" "unat v \<le> ro_last ro"
  shows "\<exists>ro'. recvAck i (PutUint64 v) ro = Some ro' \<and> ro_inv ro' \<and> ro_last ro' = ro_last ro"
  using assms
  by (auto simp: recvAck_def Uint64_PutUint64 ro_inv_def ro_last_def max_def split: option.split)

text \<open>A position is within what is confirmed exactly when a quorum has acknowledged it.\<close>

lemma confirmed_iff:
  assumes "p < 2 ^ 64" "0 < p"
  shows "p \<le> unat (jc_CommittedIndex c (ro_AckedIndex ro)) \<longleftrightarrow> jointMajorityOf c (ackedBy ro p)"
proof -
  have p: "unat (of_nat p :: u64) = p" using assms(1) by (simp add: unat_of_nat)
  then have "of_nat p \<noteq> (0 :: u64)" using assms(2) by auto
  moreover have "ackedAtLeast (ro_AckedIndex ro) (of_nat p) = ackedBy ro p"
    by (simp add: ackedAtLeast_def ackedBy_def ro_AckedIndex_def word_le_nat_alt p)
  ultimately show ?thesis
    using joint.committed_quorum [of "of_nat p" c "ro_AckedIndex ro"] by (simp add: word_le_nat_alt p)
qed

text \<open>
  C38: reads are released in order, exactly those with a quorum behind them. For a nonempty
  configuration \<open>maybeAdvance\<close> never panics. What it releases is the front of the queue, what
  it keeps is the rest, and its count of confirmed reads moves by the number released. A
  queued request is released if and only if the voters that acknowledged its position, with
  a heartbeat sent after it was queued, are a majority of each half of the configuration.
  The acknowledgements are kept.
\<close>

theorem maybeAdvance_releases_confirmed:
  assumes inv: "ro_inv ro" and c: "jc_IDs c \<noteq> {}"
  shows "\<exists>rss ro'. maybeAdvance c ro = Some (rss, ro') \<and> ro_inv ro' \<and> ro_acks ro' = ro_acks ro \<and>
    ro_unconfirmedReads ro = rss @ ro_unconfirmedReads ro' \<and>
    unat (ro_confirmedReads ro') = unat (ro_confirmedReads ro) + length rss \<and>
    (\<forall>k < length (ro_unconfirmedReads ro).
       k < length rss \<longleftrightarrow> jointMajorityOf c (ackedBy ro (unat (ro_confirmedReads ro) + k + 1)))"
proof -
  define n where "n = jc_CommittedIndex c (ro_AckedIndex ro)"
  have iff: "jointMajorityOf c (ackedBy ro (unat (ro_confirmedReads ro) + k + 1)) \<longleftrightarrow>
      unat (ro_confirmedReads ro) + k + 1 \<le> unat n" if "k < length (ro_unconfirmedReads ro)" for k
    using that inv unfolding n_def by (intro confirmed_iff [symmetric]) (simp_all add: ro_inv_def ro_last_def)
  show ?thesis
  proof (cases "n \<le> ro_confirmedReads ro")
    case True
    then have "unat n \<le> unat (ro_confirmedReads ro)" by (simp add: word_le_nat_alt)
    with True inv iff show ?thesis by (auto simp: maybeAdvance_def Let_def simp flip: n_def)
  next
    case False
    have gt: "unat (ro_confirmedReads ro) < unat n" using False by (simp add: u64_arith)
    then have "n \<noteq> 0" by auto
    then have q: "jointMajorityOf c (ackedAtLeast (ro_AckedIndex ro) n)"
      using joint.committed_quorum [of n c "ro_AckedIndex ro"] by (simp add: n_def)
    then obtain i a where "ro_acks ro i = Some a" "n \<le> a"
      using joint.quorum_meet [OF c q q] by (auto simp: ackedAtLeast_def ro_AckedIndex_def)
    then have le: "unat n \<le> ro_last ro"
      using inv by (auto simp: ro_inv_def word_le_nat_alt intro: le_trans)
    let ?k = "unat n - unat (ro_confirmedReads ro)"
    have k: "unat (n - ro_confirmedReads ro) = ?k" "?k \<le> length (ro_unconfirmedReads ro)"
      using gt le by (simp_all add: unat_sub word_le_nat_alt ro_last_def)
    let ?ro' = "ro\<lparr>ro_unconfirmedReads := drop ?k (ro_unconfirmedReads ro), ro_confirmedReads := n\<rparr>"
    have "maybeAdvance c ro = Some (take ?k (ro_unconfirmedReads ro), ?ro')"
      using False k by (simp add: maybeAdvance_def go_slice_def go_from_def Let_def flip: n_def)
    moreover have "ro_last ?ro' = ro_last ro" using gt le by (simp add: ro_last_def)
    then have "ro_inv ?ro'" using inv by (simp add: ro_inv_def)
    moreover have "j < length (take ?k (ro_unconfirmedReads ro)) \<longleftrightarrow>
        jointMajorityOf c (ackedBy ro (unat (ro_confirmedReads ro) + j + 1))"
      if "j < length (ro_unconfirmedReads ro)" for j
      unfolding iff [OF that] using k(2) by (simp add: min_def) linarith
    ultimately show ?thesis using gt k(2) by simp
  qed
qed

theorem maybeAdvance_releases_confirmed_witness:
  "\<exists>ro'. maybeAdvance (Some {1, 2, 3}, None) sampleReads =
     Some ([\<lparr>rr_req = emptyMessage, rr_index = 7\<rparr>, \<lparr>rr_req = emptyMessage, rr_index = 8\<rparr>], ro') \<and>
     ro_unconfirmedReads ro' = [\<lparr>rr_req = emptyMessage, rr_index = 9\<rparr>] \<and> unat (ro_confirmedReads ro') = 2"
proof -
  have inv: "ro_inv sampleReads" by (simp add: ro_inv_def ro_last_def sampleReads_def)
  have ids: "jc_IDs (Some {1, 2, 3}, None) \<noteq> {}" by (simp add: jc_IDs_def mc_ids_def)
  obtain rss ro' where r: "maybeAdvance (Some {1, 2, 3}, None) sampleReads = Some (rss, ro')"
    "ro_unconfirmedReads sampleReads = rss @ ro_unconfirmedReads ro'"
    "unat (ro_confirmedReads ro') = unat (ro_confirmedReads sampleReads) + length rss"
    "\<forall>k < length (ro_unconfirmedReads sampleReads). k < length rss \<longleftrightarrow>
       jointMajorityOf (Some {1, 2, 3}, None) (ackedBy sampleReads (unat (ro_confirmedReads sampleReads) + k + 1))"
    using maybeAdvance_releases_confirmed [OF inv ids] by blast
  have yes: "ackedBy sampleReads 2 \<inter> {1, 2, 3} = {1, 2}"
    and no: "ackedBy sampleReads 3 \<inter> {1, 2, 3} = {1}"
    by (auto simp: ackedBy_def sampleReads_def split: if_splits)
  have len: "length (ro_unconfirmedReads sampleReads) = 3" "ro_confirmedReads sampleReads = 0" by (simp_all add: sampleReads_def)
  have "1 < length rss" "\<not> 2 < length rss"
    using r(4) [rule_format, of 1] r(4) [rule_format, of 2] yes no
    by (simp_all add: jointMajorityOf_def majorityOf_def mc_ids_def len flip: numeral_2_eq_2 numeral_3_eq_3)
  then obtain a b where "rss = [a, b]" by (cases rss; cases "tl rss"; cases "tl (tl rss)") auto
  with r show ?thesis by (simp add: sampleReads_def)
qed

end
