(* ===== verification/Raft.thy ===== *)
theory Raft
  imports RaftLog ReadOnly Restore
begin

text \<open>
  \<open>raft.go\<close>, first part: the state of a node, its configuration, sending messages,
  replication, proposals, role changes and elections. The second part, \<open>RaftStep\<close>, holds
  the message handlers, membership changes and the clock.

  A method that changes the node takes it as its last argument and returns it; \<open>None\<close> is a
  panic. Log lines are left out, but the calls in their arguments that may panic are kept.
  A \<open>*Progress\<close> taken from the tracker is looked up again after a call that may have
  changed it. Random numbers come from the stream \<open>r_rand\<close>, one element per draw; the
  ticks are \<open>int\<close>s and do not overflow.
\<close>

section \<open>Configuration\<close>

abbreviation None_id :: u64 where
  "None_id \<equiv> 0"

datatype CampaignType = campaignPreElection | campaignElection | campaignTransfer

definition campaignBytes :: "CampaignType \<Rightarrow> bytes" where
  "campaignBytes t = map of_char
     (case t of campaignPreElection \<Rightarrow> ''CampaignPreElection''
      | campaignElection \<Rightarrow> ''CampaignElection''
      | campaignTransfer \<Rightarrow> ''CampaignTransfer'')"

datatype RaftState = StateFollower | StateCandidate | StateLeader | StatePreCandidate

text \<open>A nil \<open>Storage\<close> is \<open>None\<close>; the loggers have no field.\<close>

record RaftConfig =
  cfg_ID :: u64
  cfg_ElectionTick :: int
  cfg_HeartbeatTick :: int
  cfg_Storage :: "Storage option"
  cfg_Applied :: u64
  cfg_AsyncStorageWrites :: bool
  cfg_MaxSizePerMsg :: u64
  cfg_MaxCommittedSizePerReady :: u64
  cfg_MaxUncommittedEntriesSize :: u64
  cfg_MaxInflightMsgs :: int
  cfg_MaxInflightBytes :: u64
  cfg_CheckQuorum :: bool
  cfg_PreVote :: bool
  cfg_ReadOnlyOption :: ReadOnlyOption
  cfg_DisableProposalForwarding :: bool
  cfg_DisableConfChangeValidation :: bool
  cfg_StepDownOnRemoval :: bool

datatype config_error =
    IdNone | IdLocalTarget | HeartbeatTickNotPositive | ElectionTickTooSmall | StorageNil
  | MaxInflightNotPositive | MaxInflightBytesTooSmall | LeaseWithoutCheckQuorum

definition validate :: "RaftConfig \<Rightarrow> config_error + RaftConfig" where
  "validate c =
     (if cfg_ID c = None_id then Inl IdNone
      else if IsLocalMsgTarget (cfg_ID c) then Inl IdLocalTarget
      else if cfg_HeartbeatTick c \<le> 0 then Inl HeartbeatTickNotPositive
      else if cfg_ElectionTick c \<le> cfg_HeartbeatTick c then Inl ElectionTickTooSmall
      else if cfg_Storage c = None then Inl StorageNil
      else
        let c1 = (if cfg_MaxUncommittedEntriesSize c = 0
                  then c\<lparr>cfg_MaxUncommittedEntriesSize := noLimit\<rparr> else c);
            c2 = (if cfg_MaxCommittedSizePerReady c1 = 0
                  then c1\<lparr>cfg_MaxCommittedSizePerReady := cfg_MaxSizePerMsg c1\<rparr> else c1)
        in if cfg_MaxInflightMsgs c2 \<le> 0 then Inl MaxInflightNotPositive
           else if cfg_MaxInflightBytes c2 \<noteq> 0 \<and> cfg_MaxInflightBytes c2 < cfg_MaxSizePerMsg c2
           then Inl MaxInflightBytesTooSmall
           else
             let c3 = (if cfg_MaxInflightBytes c2 = 0
                       then c2\<lparr>cfg_MaxInflightBytes := noLimit\<rparr> else c2)
             in if cfg_ReadOnlyOption c3 = ReadOnlyLeaseBased \<and> \<not> cfg_CheckQuorum c3
                then Inl LeaseWithoutCheckQuorum
                else Inr c3)"

section \<open>The node\<close>

text \<open>The values of the function fields \<open>step\<close> and \<open>tick\<close>.\<close>

datatype stepFunc = StepLeader | StepCandidate | StepFollower
datatype tickFunc = TickElection | TickHeartbeat

record raft =
  r_id :: u64
  r_Term :: u64
  r_Vote :: u64
  r_readStates :: "ReadState list"
  r_raftLog :: raftLog
  r_maxMsgSize :: u64
  r_maxUncommittedSize :: u64
  r_trk :: ProgressTracker
  r_state :: RaftState
  r_isLearner :: bool
  r_msgs :: "Message list"
  r_msgsAfterAppend :: "Message list"
  r_lead :: u64
  r_leadTransferee :: u64
  r_pendingConfIndex :: u64
  r_disableConfChangeValidation :: bool
  r_uncommittedSize :: u64
  r_readOnly :: readOnly
  r_electionElapsed :: int
  r_heartbeatElapsed :: int
  r_checkQuorum :: bool
  r_preVote :: bool
  r_heartbeatTimeout :: int
  r_electionTimeout :: int
  r_randomizedElectionTimeout :: int
  r_disableProposalForwarding :: bool
  r_stepDownOnRemoval :: bool
  r_tick :: tickFunc
  r_step :: stepFunc
  r_pendingReadIndexMessages :: "Message list"
  r_rand :: "nat \<Rightarrow> nat"

datatype raft_error = ErrProposalDropped

record SoftState =
  ss_Lead :: u64
  ss_RaftState :: RaftState

definition hasLeader :: "raft \<Rightarrow> bool" where
  "hasLeader r \<longleftrightarrow> r_lead r \<noteq> None_id"

definition softState :: "raft \<Rightarrow> SoftState" where
  "softState r = \<lparr>ss_Lead = r_lead r, ss_RaftState = r_state r\<rparr>"

definition hardState :: "raft \<Rightarrow> HardState" where
  "hardState r = \<lparr>hs_Term = r_Term r, hs_Vote = r_Vote r, hs_Commit = l_committed (r_raftLog r)\<rparr>"

definition isHardStateEqual :: "HardState \<Rightarrow> HardState \<Rightarrow> bool" where
  "isHardStateEqual a b \<longleftrightarrow> hs_Term a = hs_Term b \<and> hs_Vote a = hs_Vote b \<and> hs_Commit a = hs_Commit b"

definition emptyState :: HardState where
  "emptyState = \<lparr>hs_Term = 0, hs_Vote = 0, hs_Commit = 0\<rparr>"

definition IsEmptyHardState :: "HardState option \<Rightarrow> bool" where
  "IsEmptyHardState st = (case st of None \<Rightarrow> True | Some h \<Rightarrow> isHardStateEqual h emptyState)"

text \<open>The accessors of a nil message return zero values.\<close>

definition IsEmptySnap :: "Snapshot option \<Rightarrow> bool" where
  "IsEmptySnap sp = (case sp of None \<Rightarrow> True | Some s \<Rightarrow> snapI s = 0)"

definition getProgress :: "u64 \<Rightarrow> raft \<Rightarrow> Progress option" where
  "getProgress i r = t_Progress (r_trk r) i"

definition setProgress :: "u64 \<Rightarrow> Progress \<Rightarrow> raft \<Rightarrow> raft" where
  "setProgress i pr r =
     r\<lparr>r_trk := (r_trk r)\<lparr>t_Progress := (t_Progress (r_trk r))(i \<mapsto> pr)\<rparr>\<rparr>"

definition Intn :: "int \<Rightarrow> raft \<Rightarrow> (int \<times> raft) option" where
  "Intn n r = do {
     panicIf (n \<le> 0);
     Some (int (r_rand r 0) mod n, r\<lparr>r_rand := \<lambda>i. r_rand r (i + 1)\<rparr>)
   }"

section \<open>Sending\<close>

definition send :: "Message \<Rightarrow> raft \<Rightarrow> raft option" where
  "send m r = do {
     let m1 = (if m_From m = None_id then m\<lparr>m_From := r_id r\<rparr> else m);
     m2 \<leftarrow> (if m_Type m1 = MsgVote \<or> m_Type m1 = MsgVoteResp \<or> m_Type m1 = MsgPreVote \<or>
               m_Type m1 = MsgPreVoteResp
           then do { panicIf (m_Term m1 = 0); Some m1 }
           else do {
             panicIf (m_Term m1 \<noteq> 0);
             Some (if m_Type m1 \<noteq> MsgProp \<and> m_Type m1 \<noteq> MsgReadIndex
                   then m1\<lparr>m_Term := r_Term r\<rparr> else m1)
           });
     if m_Type m2 = MsgAppResp \<or> m_Type m2 = MsgVoteResp \<or> m_Type m2 = MsgPreVoteResp
     then Some (r\<lparr>r_msgsAfterAppend := r_msgsAfterAppend r @ [m2]\<rparr>)
     else do {
       panicIf (m_To m2 = r_id r);
       Some (r\<lparr>r_msgs := r_msgs r @ [m2]\<rparr>)
     }
   }"

definition maybeSendSnapshot :: "u64 \<Rightarrow> Progress \<Rightarrow> raft \<Rightarrow> (bool \<times> raft) option" where
  "maybeSendSnapshot to pr r =
     (if \<not> pr_RecentActive pr then Some (False, r)
      else do {
        res \<leftarrow> l_snapshot (r_raftLog r);
        case res of
          Inl err \<Rightarrow>
            if err = ErrSnapshotTemporarilyUnavailable then Some (False, r) else None
        | Inr snapshot \<Rightarrow> do {
            panicIf (IsEmptySnap (Some snapshot));
            l_firstIndex (r_raftLog r);
            let r1 = setProgress to (BecomeSnapshot (snapI snapshot) pr) r;
            r2 \<leftarrow> send (emptyMessage\<lparr>m_To := to, m_Type := MsgSnap, m_Snapshot := Some snapshot\<rparr>) r1;
            Some (True, r2)
          }
      })"

definition maybeSendAppend :: "proto_lib \<Rightarrow> u64 \<Rightarrow> bool \<Rightarrow> raft \<Rightarrow> (bool \<times> raft) option" where
  "maybeSendAppend E to sendIfEmpty r = do {
     pr \<leftarrow> getProgress to r;
     if IsPaused pr then Some (False, r)
     else do {
       let prevIndex = pr_Next pr - 1;
       t \<leftarrow> l_term prevIndex (r_raftLog r);
       case t of
         Inl err \<Rightarrow> maybeSendSnapshot to pr r
       | Inr prevTerm \<Rightarrow> do {
           res \<leftarrow> (if pr_State pr \<noteq> StateReplicate \<or> \<not> in_Full (pr_Inflights pr)
                  then l_entries E (pr_Next pr) (r_maxMsgSize r) (r_raftLog r)
                  else Some (Inr []));
           let ents = (case res of Inl err \<Rightarrow> [] | Inr es \<Rightarrow> es);
           if length ents = 0 \<and> \<not> sendIfEmpty then Some (False, r)
           else case res of
             Inl err \<Rightarrow> maybeSendSnapshot to pr r
           | Inr es \<Rightarrow> do {
               r1 \<leftarrow> send (emptyMessage\<lparr>m_To := to, m_Type := MsgApp, m_Index := prevIndex,
                       m_LogTerm := prevTerm, m_Entries := ents,
                       m_Commit := l_committed (r_raftLog r)\<rparr>) r;
               pr1 \<leftarrow> SentEntries (length ents) (payloadsSize ents) pr;
               Some (True, setProgress to (SentCommit (l_committed (r_raftLog r)) pr1) r1)
             }
         }
     }
   }"

definition sendAppend :: "proto_lib \<Rightarrow> u64 \<Rightarrow> raft \<Rightarrow> raft option" where
  "sendAppend E to r = do { (_, r1) \<leftarrow> maybeSendAppend E to True r; Some r1 }"

text \<open>The loop \<open>for r.maybeSendAppend(to, false) {}\<close>; \<open>None\<close> also when it does not end.\<close>

partial_function (option) sendAppends :: "proto_lib \<Rightarrow> u64 \<Rightarrow> raft \<Rightarrow> raft option" where
  "sendAppends E to r = Option.bind (maybeSendAppend E to False r) (\<lambda>x.
     if fst x then sendAppends E to (snd x) else Some (snd x))"

definition sendHeartbeat :: "u64 \<Rightarrow> bytes \<Rightarrow> raft \<Rightarrow> raft option" where
  "sendHeartbeat to ctx r = do {
     pr \<leftarrow> getProgress to r;
     let commit = min (pr_Match pr) (l_committed (r_raftLog r));
     r1 \<leftarrow> send (emptyMessage\<lparr>m_To := to, m_Type := MsgHeartbeat, m_Commit := commit,
             m_Context := ctx\<rparr>) r;
     Some (setProgress to (SentCommit commit pr) r1)
   }"

definition bcastAppend :: "proto_lib \<Rightarrow> raft \<Rightarrow> raft option" where
  "bcastAppend E r = Visit (\<lambda>i r'. if i = r_id r' then Some r' else sendAppend E i r') (r_trk r) r"

definition bcastHeartbeatWithCtx :: "bytes \<Rightarrow> raft \<Rightarrow> raft option" where
  "bcastHeartbeatWithCtx ctx r =
     Visit (\<lambda>i r'. if i = r_id r' then Some r' else sendHeartbeat i ctx r') (r_trk r) r"

definition bcastHeartbeat :: "raft \<Rightarrow> raft option" where
  "bcastHeartbeat r = bcastHeartbeatWithCtx (heartbeatCtx (r_readOnly r)) r"

definition sendTimeoutNow :: "u64 \<Rightarrow> raft \<Rightarrow> raft option" where
  "sendTimeoutNow to r = send (emptyMessage\<lparr>m_To := to, m_Type := MsgTimeoutNow\<rparr>) r"

section \<open>Commit, size limits and proposals\<close>

definition raft_maybeCommit :: "raft \<Rightarrow> (bool \<times> raft) option" where
  "raft_maybeCommit r = do {
     (b, l) \<leftarrow> l_maybeCommit (EntryID (r_Term r) (Committed (r_trk r))) (r_raftLog r);
     Some (b, r\<lparr>r_raftLog := l\<rparr>)
   }"

definition increaseUncommittedSize :: "Entry list \<Rightarrow> raft \<Rightarrow> bool \<times> raft" where
  "increaseUncommittedSize ents r =
     (let s = payloadsSize ents in
      if r_uncommittedSize r > 0 \<and> s > 0 \<and> r_uncommittedSize r + s > r_maxUncommittedSize r
      then (False, r)
      else (True, r\<lparr>r_uncommittedSize := r_uncommittedSize r + s\<rparr>))"

definition reduceUncommittedSize :: "u64 \<Rightarrow> raft \<Rightarrow> raft" where
  "reduceUncommittedSize s r =
     (if s > r_uncommittedSize r then r\<lparr>r_uncommittedSize := 0\<rparr>
      else r\<lparr>r_uncommittedSize := r_uncommittedSize r - s\<rparr>)"

text \<open>Numbering the entries of a proposal.\<close>

fun stampEntries :: "u64 \<Rightarrow> u64 \<Rightarrow> Entry list \<Rightarrow> Entry list" where
  "stampEntries t i [] = []"
| "stampEntries t i (e # es) = e\<lparr>e_Term := t, e_Index := i\<rparr> # stampEntries t (i + 1) es"

definition appendEntry :: "Entry list \<Rightarrow> raft \<Rightarrow> (bool \<times> raft) option" where
  "appendEntry es r = do {
     li \<leftarrow> l_lastIndex (r_raftLog r);
     let cloned = stampEntries (r_Term r) (li + 1) es;
     let (ok, r1) = increaseUncommittedSize cloned r;
     if \<not> ok then Some (False, r1)
     else do {
       (li1, l) \<leftarrow> l_append cloned (r_raftLog r1);
       r2 \<leftarrow> send (emptyMessage\<lparr>m_To := r_id r, m_Type := MsgAppResp, m_Index := li1\<rparr>)
               (r1\<lparr>r_raftLog := l\<rparr>);
       Some (True, r2)
     }
   }"

section \<open>Roles\<close>

definition abortLeaderTransfer :: "raft \<Rightarrow> raft" where
  "abortLeaderTransfer r = r\<lparr>r_leadTransferee := None_id\<rparr>"

definition resetRandomizedElectionTimeout :: "raft \<Rightarrow> raft option" where
  "resetRandomizedElectionTimeout r = do {
     (n, r1) \<leftarrow> Intn (r_electionTimeout r) r;
     Some (r1\<lparr>r_randomizedElectionTimeout := r_electionTimeout r + n\<rparr>)
   }"

definition resetProgress :: "u64 \<Rightarrow> raft \<Rightarrow> raft option" where
  "resetProgress i r = do {
     pr \<leftarrow> getProgress i r;
     li \<leftarrow> l_lastIndex (r_raftLog r);
     Some (setProgress i
       \<lparr>pr_Match = if i = r_id r then li else 0, pr_Next = li + 1, pr_sentCommit = 0,
        pr_State = StateProbe, pr_PendingSnapshot = 0, pr_RecentActive = False,
        pr_MsgAppFlowPaused = False,
        pr_Inflights = NewInflights (t_MaxInflight (r_trk r)) (t_MaxInflightBytes (r_trk r)),
        pr_IsLearner = pr_IsLearner pr\<rparr> r)
   }"

definition raft_reset :: "u64 \<Rightarrow> raft \<Rightarrow> raft option" where
  "raft_reset t r = do {
     let r1 = (if r_Term r \<noteq> t then r\<lparr>r_Term := t, r_Vote := None_id\<rparr> else r);
     let r2 = r1\<lparr>r_lead := None_id, r_electionElapsed := 0, r_heartbeatElapsed := 0\<rparr>;
     r3 \<leftarrow> resetRandomizedElectionTimeout r2;
     let r4 = abortLeaderTransfer r3;
     let r5 = r4\<lparr>r_trk := ResetVotes (r_trk r4)\<rparr>;
     r6 \<leftarrow> Visit resetProgress (r_trk r5) r5;
     Some (r6\<lparr>r_pendingConfIndex := 0, r_uncommittedSize := 0,
              r_readOnly := newReadOnly (ro_option (r_readOnly r6))\<rparr>)
   }"

definition becomeFollower :: "u64 \<Rightarrow> u64 \<Rightarrow> raft \<Rightarrow> raft option" where
  "becomeFollower t lead r = do {
     r1 \<leftarrow> raft_reset t (r\<lparr>r_step := StepFollower\<rparr>);
     Some (r1\<lparr>r_tick := TickElection, r_lead := lead, r_state := StateFollower\<rparr>)
   }"

definition becomeCandidate :: "raft \<Rightarrow> raft option" where
  "becomeCandidate r = do {
     panicIf (r_state r = StateLeader);
     r1 \<leftarrow> raft_reset (r_Term r + 1) (r\<lparr>r_step := StepCandidate\<rparr>);
     Some (r1\<lparr>r_tick := TickElection, r_Vote := r_id r1, r_state := StateCandidate\<rparr>)
   }"

definition becomePreCandidate :: "raft \<Rightarrow> raft option" where
  "becomePreCandidate r = do {
     panicIf (r_state r = StateLeader);
     Some (r\<lparr>r_step := StepCandidate, r_trk := ResetVotes (r_trk r), r_tick := TickElection,
             r_lead := None_id, r_state := StatePreCandidate\<rparr>)
   }"

definition becomeLeader :: "raft \<Rightarrow> raft option" where
  "becomeLeader r = do {
     panicIf (r_state r = StateFollower);
     r1 \<leftarrow> raft_reset (r_Term r) (r\<lparr>r_step := StepLeader\<rparr>);
     let r2 = r1\<lparr>r_tick := TickHeartbeat, r_lead := r_id r1, r_state := StateLeader\<rparr>;
     pr \<leftarrow> getProgress (r_id r2) r2;
     let r3 = setProgress (r_id r2) ((BecomeReplicate pr)\<lparr>pr_RecentActive := True\<rparr>) r2;
     li \<leftarrow> l_lastIndex (r_raftLog r3);
     let r4 = r3\<lparr>r_pendingConfIndex := li\<rparr>;
     (ok, r5) \<leftarrow> appendEntry [emptyEntry] r4;
     panicIf (\<not> ok);
     Some r5
   }"

section \<open>Elections\<close>

definition promotable :: "raft \<Rightarrow> bool" where
  "promotable r =
     (case getProgress (r_id r) r of
        None \<Rightarrow> False
      | Some pr \<Rightarrow> \<not> pr_IsLearner pr \<and> \<not> l_hasNextOrInProgressSnapshot (r_raftLog r))"

text \<open>The callback of the scan; its only error is \<open>errBreak\<close>.\<close>

definition isConfChange :: "Entry \<Rightarrow> bool" where
  "isConfChange e \<longleftrightarrow> e_Type e = EntryConfChange \<or> e_Type e = EntryConfChangeV2"

definition findConfChange :: "Entry list \<Rightarrow> bool \<Rightarrow> unit option \<times> bool" where
  "findConfChange ents found =
     (if list_ex isConfChange ents then (Some (), True) else (None, found))"

definition hasUnappliedConfChanges :: "proto_lib \<Rightarrow> raft \<Rightarrow> bool option" where
  "hasUnappliedConfChanges E r =
     (let l = r_raftLog r in
      if l_applied l \<ge> l_committed l then Some False
      else case l_scan E l (l_applied l + 1) (l_committed l + 1) (l_maxApplyingEntsSize l)
                  findConfChange False of
        None \<Rightarrow> None
      | Some None \<Rightarrow> None
      | Some (Some (err, found)) \<Rightarrow>
          (case err of
             None \<Rightarrow> Some found
           | Some (ScanCallback _) \<Rightarrow> Some found
           | Some _ \<Rightarrow> None))"

text \<open>The request to one voter, and the response a candidate sends to itself.\<close>

definition campaignSend :: "CampaignType \<Rightarrow> u64 \<Rightarrow> MessageType \<Rightarrow> u64 \<Rightarrow> raft \<Rightarrow> raft option" where
  "campaignSend t term' voteMsg i r =
     (if i = r_id r then do {
        typ \<leftarrow> voteRespMsgType voteMsg;
        send (emptyMessage\<lparr>m_To := i, m_Term := term', m_Type := typ\<rparr>) r
      }
      else do {
        last \<leftarrow> l_lastEntryID (r_raftLog r);
        let ctx = (if t = campaignTransfer then campaignBytes t else []);
        send (emptyMessage\<lparr>m_To := i, m_Term := term', m_Type := voteMsg, m_Index := eid_index last,
          m_LogTerm := eid_term last, m_Context := ctx\<rparr>) r
      })"

definition campaign :: "CampaignType \<Rightarrow> raft \<Rightarrow> raft option" where
  "campaign t r = do {
     (term', voteMsg, r1) \<leftarrow>
       (if t = campaignPreElection then do {
          r1 \<leftarrow> becomePreCandidate r;
          Some (r_Term r1 + 1, MsgPreVote, r1)
        } else do {
          r1 \<leftarrow> becomeCandidate r;
          Some (r_Term r1, MsgVote, r1)
        });
     let ids = sorted_list_of_set (jc_IDs (c_Voters (t_Config (r_trk r1))));
     foldO (campaignSend t term' voteMsg) ids r1
   }"

definition hup :: "proto_lib \<Rightarrow> CampaignType \<Rightarrow> raft \<Rightarrow> raft option" where
  "hup E t r =
     (if r_state r = StateLeader then Some r
      else if \<not> promotable r then Some r
      else do {
        b \<leftarrow> hasUnappliedConfChanges E r;
        if b then Some r else campaign t r
      })"

text \<open>\<open>(granted, rejected, result)\<close>.\<close>

definition poll :: "u64 \<Rightarrow> bool \<Rightarrow> raft \<Rightarrow> (nat \<times> nat \<times> VoteResult) \<times> raft" where
  "poll i v r =
     (let r1 = r\<lparr>r_trk := RecordVote i v (r_trk r)\<rparr> in (TallyVotes (r_trk r1), r1))"

end
