(* ===== verification/RaftStep.thy ===== *)
theory RaftStep
  imports Raft
begin

text \<open>
  \<open>raft.go\<close>, second part: the message handlers and \<open>Step\<close>, snapshots, membership changes,
  the clock and the construction of a node.

  A step returns the error, if any, with the node; \<open>None\<close> is a panic. \<open>stepLeader\<close> is
  split by message type. \<open>appliedTo\<close> steps a proposal from within \<open>Step\<close>; it calls
  the handlers of proposals directly, and \<open>Step_proposal\<close> shows that this is what \<open>Step\<close>
  does with that message.
\<close>

section \<open>Read-only requests\<close>

definition committedEntryInCurrentTerm :: "raft \<Rightarrow> bool option" where
  "committedEntryInCurrentTerm r = do {
     t \<leftarrow> l_term (l_committed (r_raftLog r)) (r_raftLog r);
     t' \<leftarrow> zeroTermOnOutOfBounds t;
     Some (t' = r_Term r)
   }"

definition responseToReadIndexReq :: "Message \<Rightarrow> u64 \<Rightarrow> raft \<Rightarrow> (Message \<times> raft) option" where
  "responseToReadIndexReq req readIndex r =
     (if m_From req = None_id \<or> m_From req = r_id r then do {
        e \<leftarrow> go_index (m_Entries req) 0;
        Some (emptyMessage, r\<lparr>r_readStates := r_readStates r @
          [\<lparr>rs_Index = readIndex, rs_RequestCtx = e_Data e\<rparr>]\<rparr>)
      }
      else Some (emptyMessage\<lparr>m_Type := MsgReadIndexResp, m_To := m_From req, m_Index := readIndex,
        m_Entries := m_Entries req\<rparr>, r))"

text \<open>The statement \<open>if resp := ...; resp.GetTo() != None { r.send(resp) }\<close>.\<close>

definition respondReadIndex :: "Message \<Rightarrow> u64 \<Rightarrow> raft \<Rightarrow> raft option" where
  "respondReadIndex req readIndex r = do {
     (resp, r1) \<leftarrow> responseToReadIndexReq req readIndex r;
     if m_To resp \<noteq> None_id then send resp r1 else Some r1
   }"

definition sendMsgReadIndexResponse :: "Message \<Rightarrow> raft \<Rightarrow> raft option" where
  "sendMsgReadIndexResponse m r =
     (case ro_option (r_readOnly r) of
        ReadOnlySafe \<Rightarrow> do {
          let ro = addRequest (l_committed (r_raftLog r)) m (r_readOnly r);
          ro1 \<leftarrow> recvAck (r_id r) (heartbeatCtx ro) ro;
          bcastHeartbeat (r\<lparr>r_readOnly := ro1\<rparr>)
        }
      | ReadOnlyLeaseBased \<Rightarrow> respondReadIndex m (l_committed (r_raftLog r)) r)"

definition releasePendingReadIndexMessages :: "raft \<Rightarrow> raft option" where
  "releasePendingReadIndexMessages r =
     (if length (r_pendingReadIndexMessages r) = 0 then Some r
      else do {
        b \<leftarrow> committedEntryInCurrentTerm r;
        if \<not> b then Some r
        else foldO sendMsgReadIndexResponse (r_pendingReadIndexMessages r)
               (r\<lparr>r_pendingReadIndexMessages := []\<rparr>)
      })"

section \<open>Proposals\<close>

definition unmarshalConfChange :: "proto_lib \<Rightarrow> Entry \<Rightarrow> ConfChangeI option option" where
  "unmarshalConfChange E e =
     (case e_Type e of
        EntryConfChange \<Rightarrow> map_option (\<lambda>c. Some (CCV1 c)) (pb_UnmarshalCC E (e_Data e))
      | EntryConfChangeV2 \<Rightarrow> map_option (\<lambda>c. Some (CCV2 c)) (pb_UnmarshalCCV2 E (e_Data e))
      | EntryNormal \<Rightarrow> Some None)"

text \<open>Whether a proposed configuration change fails the check against the active configuration.\<close>

definition failedCheck :: "ConfChangeI \<Rightarrow> raft \<Rightarrow> bool" where
  "failedCheck cc r =
     (let alreadyPending = r_pendingConfIndex r > l_applied (r_raftLog r);
          alreadyJoint = card (mc_ids (outgoing (t_Config (r_trk r)))) > 0;
          wantsLeaveJoint = length (cc2_Changes (AsV2 cc)) = 0
      in alreadyPending \<or> alreadyJoint \<and> \<not> wantsLeaveJoint \<or> \<not> alreadyJoint \<and> wantsLeaveJoint)"

definition proposeEntry :: "proto_lib \<Rightarrow> nat \<Rightarrow> Entry \<Rightarrow> raft \<Rightarrow> (Entry \<times> raft) option" where
  "proposeEntry E i e r = do {
     cc \<leftarrow> unmarshalConfChange E e;
     case cc of
       None \<Rightarrow> Some (e, r)
     | Some c \<Rightarrow>
         if failedCheck c r \<and> \<not> r_disableConfChangeValidation r
         then Some (emptyEntry\<lparr>e_Type := EntryNormal\<rparr>, r)
         else do {
           li \<leftarrow> l_lastIndex (r_raftLog r);
           Some (e, r\<lparr>r_pendingConfIndex := li + of_nat i + 1\<rparr>)
         }
   }"

fun proposeEntries :: "proto_lib \<Rightarrow> nat \<Rightarrow> Entry list \<Rightarrow> raft \<Rightarrow> (Entry list \<times> raft) option" where
  "proposeEntries E i [] r = Some ([], r)"
| "proposeEntries E i (e # es) r = do {
     (e', r1) \<leftarrow> proposeEntry E i e r;
     (es', r2) \<leftarrow> proposeEntries E (i + 1) es r1;
     Some (e' # es', r2)
   }"

definition leaderProp :: "proto_lib \<Rightarrow> Message \<Rightarrow> raft \<Rightarrow> (raft_error option \<times> raft) option" where
  "leaderProp E m r = do {
     panicIf (length (m_Entries m) = 0);
     if getProgress (r_id r) r = None then Some (Some ErrProposalDropped, r)
     else if r_leadTransferee r \<noteq> None_id then Some (Some ErrProposalDropped, r)
     else do {
       (es, r1) \<leftarrow> proposeEntries E 0 (m_Entries m) r;
       (ok, r2) \<leftarrow> appendEntry es r1;
       if \<not> ok then Some (Some ErrProposalDropped, r2)
       else do { r3 \<leftarrow> bcastAppend E r2; Some (None, r3) }
     }
   }"

definition followerProp :: "Message \<Rightarrow> raft \<Rightarrow> (raft_error option \<times> raft) option" where
  "followerProp m r =
     (if r_lead r = None_id then Some (Some ErrProposalDropped, r)
      else if r_disableProposalForwarding r then Some (Some ErrProposalDropped, r)
      else do { r1 \<leftarrow> send (m\<lparr>m_To := r_lead r\<rparr>) r; Some (None, r1) })"

definition stepProp :: "proto_lib \<Rightarrow> Message \<Rightarrow> raft \<Rightarrow> (raft_error option \<times> raft) option" where
  "stepProp E m r =
     (case r_step r of
        StepLeader \<Rightarrow> leaderProp E m r
      | StepCandidate \<Rightarrow> Some (Some ErrProposalDropped, r)
      | StepFollower \<Rightarrow> followerProp m r)"

definition confChangeToMsg :: "proto_lib \<Rightarrow> ConfChangeI option \<Rightarrow> Message option" where
  "confChangeToMsg E c = do {
     (typ, data) \<leftarrow> MarshalConfChange E c;
     Some (emptyMessage\<lparr>m_Type := MsgProp, m_Entries := [emptyEntry\<lparr>e_Type := typ, e_Data := data\<rparr>]\<rparr>)
   }"

definition raft_appliedTo :: "proto_lib \<Rightarrow> u64 \<Rightarrow> u64 \<Rightarrow> raft \<Rightarrow> raft option" where
  "raft_appliedTo E index sz r = do {
     let newApplied = max index (l_applied (r_raftLog r));
     l \<leftarrow> l_appliedTo newApplied sz (r_raftLog r);
     let r1 = r\<lparr>r_raftLog := l\<rparr>;
     if c_AutoLeave (t_Config (r_trk r1)) \<and> newApplied \<ge> r_pendingConfIndex r1 \<and>
        r_state r1 = StateLeader
     then do {
       m \<leftarrow> confChangeToMsg E None;
       (err, r2) \<leftarrow> stepProp E m r1;
       Some r2
     }
     else Some r1
   }"

definition appliedSnap :: "proto_lib \<Rightarrow> Snapshot \<Rightarrow> raft \<Rightarrow> raft option" where
  "appliedSnap E snap r =
     raft_appliedTo E (snapI snap) 0 (r\<lparr>r_raftLog := l_stableSnapTo (snapI snap) (r_raftLog r)\<rparr>)"

section \<open>Snapshots and membership changes\<close>

definition switchToConfig :: "proto_lib \<Rightarrow> Config \<Rightarrow> ProgressMap \<Rightarrow> raft \<Rightarrow> (ConfState \<times> raft) option" where
  "switchToConfig E cfg trk r = do {
     let r1 = r\<lparr>r_trk := (r_trk r)\<lparr>t_Config := cfg, t_Progress := trk\<rparr>\<rparr>;
     let cs = trk_ConfState (r_trk r1);
     let pr = getProgress (r_id r1) r1;
     let learner = (case pr of None \<Rightarrow> False | Some p \<Rightarrow> pr_IsLearner p);
     let r2 = r1\<lparr>r_isLearner := learner\<rparr>;
     if (pr = None \<or> learner) \<and> r_state r2 = StateLeader then
       (if r_stepDownOnRemoval r2 then do {
          r3 \<leftarrow> becomeFollower (r_Term r2) None_id r2;
          Some (cs, r3)
        } else Some (cs, r2))
     else if r_state r2 \<noteq> StateLeader \<or> length (cs_Voters cs) = 0 then Some (cs, r2)
     else do {
       (b, r3) \<leftarrow> raft_maybeCommit r2;
       r4 \<leftarrow> (if b then bcastAppend E r3
             else Visit (\<lambda>i r'. if i = r_id r' then Some r'
                    else do { (_, r'') \<leftarrow> maybeSendAppend E i False r'; Some r'' }) (r_trk r3) r3);
       Some (cs, if r_leadTransferee r4 \<notin> jc_IDs (c_Voters (t_Config (r_trk r4))) \<and>
                    r_leadTransferee r4 \<noteq> 0
                 then abortLeaderTransfer r4 else r4)
     }
   }"

definition applyConfChange :: "proto_lib \<Rightarrow> ConfChangeV2 \<Rightarrow> raft \<Rightarrow> (ConfState \<times> raft) option" where
  "applyConfChange E cc r = do {
     li \<leftarrow> l_lastIndex (r_raftLog r);
     let changer = \<lparr>ch_Tracker = r_trk r, ch_LastIndex = li\<rparr>;
     res \<leftarrow> (if CC_LeaveJoint cc then LeaveJoint changer
            else do {
              (autoLeave, ok) \<leftarrow> CC_EnterJoint cc;
              if ok then EnterJoint changer autoLeave (cc2_Changes cc)
              else Simple changer (cc2_Changes cc)
            });
     case res of
       Inl err \<Rightarrow> None
     | Inr (cfg, trk) \<Rightarrow> switchToConfig E cfg trk r
   }"

definition raft_restore :: "proto_lib \<Rightarrow> Snapshot \<Rightarrow> raft \<Rightarrow> (bool \<times> raft) option" where
  "raft_restore E s r =
     (if snapI s \<le> l_committed (r_raftLog r) then Some (False, r)
      else if r_state r \<noteq> StateFollower then do {
        r1 \<leftarrow> becomeFollower (r_Term r + 1) None_id r;
        Some (False, r1)
      }
      else
        let cs = md_ConfState (sn_Metadata s);
            found = (r_id r \<in> set (cs_Voters cs) \<or> r_id r \<in> set (cs_Learners cs) \<or>
                     r_id r \<in> set (cs_VotersOutgoing cs))
        in if \<not> found then Some (False, r)
           else do {
             m \<leftarrow> matchTerm (EntryID (snapT s) (snapI s)) (r_raftLog r);
             if m then do {
               l_lastEntryID (r_raftLog r);
               l \<leftarrow> l_commitTo (snapI s) (r_raftLog r);
               Some (False, r\<lparr>r_raftLog := l\<rparr>)
             }
             else do {
               let r1 = r\<lparr>r_raftLog := l_restore s (r_raftLog r)\<rparr>;
               let r2 = r1\<lparr>r_trk := MakeProgressTracker (t_MaxInflight (r_trk r1))
                                   (t_MaxInflightBytes (r_trk r1))\<rparr>;
               li \<leftarrow> l_lastIndex (r_raftLog r2);
               res \<leftarrow> Restore \<lparr>ch_Tracker = r_trk r2, ch_LastIndex = li\<rparr> cs;
               case res of
                 Inl err \<Rightarrow> None
               | Inr (cfg, trk) \<Rightarrow> do {
                   (cs2, r3) \<leftarrow> switchToConfig E cfg trk r2;
                   assertConfStatesEquivalent cs cs2;
                   l_lastEntryID (r_raftLog r3);
                   Some (True, r3)
                 }
             }
           })"

section \<open>Requests of the leader\<close>

definition logSliceFromMsgApp :: "Message \<Rightarrow> logSlice" where
  "logSliceFromMsgApp m = \<lparr>ls_term = m_Term m, ls_prev = EntryID (m_LogTerm m) (m_Index m),
     ls_entries = m_Entries m\<rparr>"

definition handleAppendEntries :: "Message \<Rightarrow> raft \<Rightarrow> raft option" where
  "handleAppendEntries m r = (
     let a = logSliceFromMsgApp m in
     if eid_index (ls_prev a) < l_committed (r_raftLog r)
     then send (emptyMessage\<lparr>m_To := m_From m, m_Type := MsgAppResp,
            m_Index := l_committed (r_raftLog r)\<rparr>) r
     else do {
       ((mlastIndex, ok), l) \<leftarrow> l_maybeAppend a (m_Commit m) (r_raftLog r);
       let r1 = r\<lparr>r_raftLog := l\<rparr>;
       if ok then send (emptyMessage\<lparr>m_To := m_From m, m_Type := MsgAppResp, m_Index := mlastIndex\<rparr>) r1
       else do {
         t \<leftarrow> l_term (m_Index m) (r_raftLog r1);
         zeroTermOnOutOfBounds t;
         li \<leftarrow> l_lastIndex (r_raftLog r1);
         (hintIndex, hintTerm) \<leftarrow> findConflictByTerm (r_raftLog r1) (min (m_Index m) li) (m_LogTerm m);
         send (emptyMessage\<lparr>m_To := m_From m, m_Type := MsgAppResp, m_Index := m_Index m,
           m_Reject := True, m_RejectHint := hintIndex, m_LogTerm := hintTerm\<rparr>) r1
       }
     })"

definition handleHeartbeat :: "Message \<Rightarrow> raft \<Rightarrow> raft option" where
  "handleHeartbeat m r = do {
     l \<leftarrow> l_commitTo (m_Commit m) (r_raftLog r);
     send (emptyMessage\<lparr>m_To := m_From m, m_Type := MsgHeartbeatResp, m_Context := m_Context m\<rparr>)
       (r\<lparr>r_raftLog := l\<rparr>)
   }"

definition handleSnapshot :: "proto_lib \<Rightarrow> Message \<Rightarrow> raft \<Rightarrow> raft option" where
  "handleSnapshot E m r = do {
     let s = (case m_Snapshot m of None \<Rightarrow> emptySnapshot | Some s \<Rightarrow> s);
     (restored, r1) \<leftarrow> raft_restore E s r;
     if restored then do {
       li \<leftarrow> l_lastIndex (r_raftLog r1);
       send (emptyMessage\<lparr>m_To := m_From m, m_Type := MsgAppResp, m_Index := li\<rparr>) r1
     }
     else send (emptyMessage\<lparr>m_To := m_From m, m_Type := MsgAppResp,
            m_Index := l_committed (r_raftLog r1)\<rparr>) r1
   }"

section \<open>\<open>stepLeader\<close>\<close>

definition leaderCheckQuorum :: "raft \<Rightarrow> raft option" where
  "leaderCheckQuorum r = do {
     q \<leftarrow> QuorumActive (r_trk r);
     r1 \<leftarrow> (if \<not> q then becomeFollower (r_Term r) None_id r else Some r);
     Visit (\<lambda>i r'. if i \<noteq> r_id r' then do {
               pr \<leftarrow> getProgress i r';
               Some (setProgress i (pr\<lparr>pr_RecentActive := False\<rparr>) r')
             } else Some r') (r_trk r1) r1
   }"

definition leaderReadIndex :: "Message \<Rightarrow> raft \<Rightarrow> raft option" where
  "leaderReadIndex m r =
     (if IsSingleton (r_trk r) then respondReadIndex m (l_committed (r_raftLog r)) r
      else do {
        b \<leftarrow> committedEntryInCurrentTerm r;
        if \<not> b then Some (r\<lparr>r_pendingReadIndexMessages := r_pendingReadIndexMessages r @ [m]\<rparr>)
        else sendMsgReadIndexResponse m r
      })"

definition leaderAppRespReject :: "proto_lib \<Rightarrow> Message \<Rightarrow> Progress \<Rightarrow> raft \<Rightarrow> raft option" where
  "leaderAppRespReject E m pr r = do {
     nextProbeIdx \<leftarrow> (if m_LogTerm m > 0
       then map_option fst (findConflictByTerm (r_raftLog r) (m_RejectHint m) (m_LogTerm m))
       else Some (m_RejectHint m));
     let (decr, pr1) = MaybeDecrTo (m_Index m) nextProbeIdx pr;
     if decr then do {
       let pr2 = (if pr_State pr1 = StateReplicate then BecomeProbe pr1 else pr1);
       sendAppend E (m_From m) (setProgress (m_From m) pr2 r)
     }
     else Some (setProgress (m_From m) pr1 r)
   }"

text \<open>What an acknowledgement changes in the progress of its sender.\<close>

definition ackProgress :: "Message \<Rightarrow> Progress \<Rightarrow> raft \<Rightarrow> Progress option" where
  "ackProgress m pr r =
     (if pr_State pr = StateProbe then Some (BecomeReplicate pr)
      else if pr_State pr = StateSnapshot then do {
        fi \<leftarrow> l_firstIndex (r_raftLog r);
        Some (if pr_Match pr + 1 \<ge> fi then BecomeReplicate (BecomeProbe pr) else pr)
      }
      else do {
        ins \<leftarrow> in_FreeLE (m_Index m) (pr_Inflights pr);
        Some (pr\<lparr>pr_Inflights := ins\<rparr>)
      })"

definition ackCommit :: "proto_lib \<Rightarrow> Message \<Rightarrow> raft \<Rightarrow> raft option" where
  "ackCommit E m r = do {
     (b, r1) \<leftarrow> raft_maybeCommit r;
     if b then do {
       r2 \<leftarrow> releasePendingReadIndexMessages r1;
       bcastAppend E r2
     }
     else if r_id r1 \<noteq> m_From m then do {
       pr \<leftarrow> getProgress (m_From m) r1;
       if CanBumpCommit (l_committed (r_raftLog r1)) pr then sendAppend E (m_From m) r1 else Some r1
     }
     else Some r1
   }"

definition ackTransfer :: "Message \<Rightarrow> raft \<Rightarrow> raft option" where
  "ackTransfer m r =
     (if m_From m = r_leadTransferee r then do {
        pr \<leftarrow> getProgress (m_From m) r;
        li \<leftarrow> l_lastIndex (r_raftLog r);
        if pr_Match pr = li then sendTimeoutNow (m_From m) r else Some r
      }
      else Some r)"

definition leaderAppRespAccept :: "proto_lib \<Rightarrow> Message \<Rightarrow> Progress \<Rightarrow> raft \<Rightarrow> raft option" where
  "leaderAppRespAccept E m pr r = (
     let (updated, pr1) = MaybeUpdate (m_Index m) pr in
     if updated \<or> pr_Match pr1 = m_Index m \<and> pr_State pr1 = StateProbe then do {
       pr2 \<leftarrow> ackProgress m pr1 r;
       r1 \<leftarrow> ackCommit E m (setProgress (m_From m) pr2 r);
       r2 \<leftarrow> (if r_id r1 \<noteq> m_From m then sendAppends E (m_From m) r1 else Some r1);
       ackTransfer m r2
     }
     else Some (setProgress (m_From m) pr1 r))"

definition leaderAppResp :: "proto_lib \<Rightarrow> Message \<Rightarrow> Progress \<Rightarrow> raft \<Rightarrow> raft option" where
  "leaderAppResp E m pr r = (
     let pr1 = pr\<lparr>pr_RecentActive := True\<rparr> in
     if m_Reject m then leaderAppRespReject E m pr1 r else leaderAppRespAccept E m pr1 r)"

definition leaderHeartbeatResp :: "proto_lib \<Rightarrow> Message \<Rightarrow> Progress \<Rightarrow> raft \<Rightarrow> raft option" where
  "leaderHeartbeatResp E m pr r = do {
     let pr1 = pr\<lparr>pr_RecentActive := True, pr_MsgAppFlowPaused := False\<rparr>;
     let r1 = setProgress (m_From m) pr1 r;
     li \<leftarrow> l_lastIndex (r_raftLog r1);
     r2 \<leftarrow> (if pr_Match pr1 < li \<or> pr_State pr1 = StateProbe then sendAppend E (m_From m) r1 else Some r1);
     if ro_option (r_readOnly r2) \<noteq> ReadOnlySafe \<or> length (m_Context m) = 0 then Some r2
     else do {
       ro \<leftarrow> recvAck (m_From m) (m_Context m) (r_readOnly r2);
       (rss, ro1) \<leftarrow> maybeAdvance (c_Voters (t_Config (r_trk r2))) ro;
       foldO (\<lambda>rs. respondReadIndex (rr_req rs) (rr_index rs)) rss (r2\<lparr>r_readOnly := ro1\<rparr>)
     }
   }"

definition leaderSnapStatus :: "Message \<Rightarrow> Progress \<Rightarrow> raft \<Rightarrow> raft" where
  "leaderSnapStatus m pr r =
     (if pr_State pr \<noteq> StateSnapshot then r
      else
        let pr1 = (if \<not> m_Reject m then BecomeProbe pr else BecomeProbe (pr\<lparr>pr_PendingSnapshot := 0\<rparr>))
        in setProgress (m_From m) (pr1\<lparr>pr_MsgAppFlowPaused := True\<rparr>) r)"

definition leaderUnreachable :: "Message \<Rightarrow> Progress \<Rightarrow> raft \<Rightarrow> raft" where
  "leaderUnreachable m pr r =
     (if pr_State pr = StateReplicate then setProgress (m_From m) (BecomeProbe pr) r else r)"

definition leaderTransfer :: "proto_lib \<Rightarrow> Message \<Rightarrow> Progress \<Rightarrow> raft \<Rightarrow> raft option" where
  "leaderTransfer E m pr r =
     (if pr_IsLearner pr then Some r
      else
        let leadTransferee = m_From m;
            lastLeadTransferee = r_leadTransferee r
        in if lastLeadTransferee \<noteq> None_id \<and> lastLeadTransferee = leadTransferee then Some r
           else
             let r1 = (if lastLeadTransferee \<noteq> None_id then abortLeaderTransfer r else r)
             in if leadTransferee = r_id r1 then Some r1
                else do {
                  let r2 = r1\<lparr>r_electionElapsed := 0, r_leadTransferee := leadTransferee\<rparr>;
                  li \<leftarrow> l_lastIndex (r_raftLog r2);
                  if pr_Match pr = li then sendTimeoutNow leadTransferee r2
                  else sendAppend E leadTransferee r2
                })"

text \<open>The messages that need a progress for their sender.\<close>

definition leaderFromPeer :: "proto_lib \<Rightarrow> Message \<Rightarrow> raft \<Rightarrow> raft option" where
  "leaderFromPeer E m r =
     (case getProgress (m_From m) r of
        None \<Rightarrow> Some r
      | Some pr \<Rightarrow>
          (case m_Type m of
             MsgAppResp \<Rightarrow> leaderAppResp E m pr r
           | MsgHeartbeatResp \<Rightarrow> leaderHeartbeatResp E m pr r
           | MsgSnapStatus \<Rightarrow> Some (leaderSnapStatus m pr r)
           | MsgUnreachable \<Rightarrow> Some (leaderUnreachable m pr r)
           | MsgTransferLeader \<Rightarrow> leaderTransfer E m pr r
           | _ \<Rightarrow> Some r))"

definition noErr :: "raft option \<Rightarrow> (raft_error option \<times> raft) option" where
  "noErr x = map_option (Pair None) x"

definition stepLeader :: "proto_lib \<Rightarrow> Message \<Rightarrow> raft \<Rightarrow> (raft_error option \<times> raft) option" where
  "stepLeader E m r =
     (case m_Type m of
        MsgBeat \<Rightarrow> noErr (bcastHeartbeat r)
      | MsgCheckQuorum \<Rightarrow> noErr (leaderCheckQuorum r)
      | MsgProp \<Rightarrow> leaderProp E m r
      | MsgReadIndex \<Rightarrow> noErr (leaderReadIndex m r)
      | MsgForgetLeader \<Rightarrow> noErr (Some r)
      | _ \<Rightarrow> noErr (leaderFromPeer E m r))"

section \<open>\<open>stepCandidate\<close> and \<open>stepFollower\<close>\<close>

definition candidateVoteResp :: "proto_lib \<Rightarrow> Message \<Rightarrow> raft \<Rightarrow> raft option" where
  "candidateVoteResp E m r = (
     let ((gr, rj, res), r1) = poll (m_From m) (\<not> m_Reject m) r in
     case res of
       VoteWon \<Rightarrow>
         if r_state r1 = StatePreCandidate then campaign campaignElection r1
         else do { r2 \<leftarrow> becomeLeader r1; bcastAppend E r2 }
     | VoteLost \<Rightarrow> becomeFollower (r_Term r1) None_id r1
     | VotePending \<Rightarrow> Some r1)"

definition stepCandidate :: "proto_lib \<Rightarrow> Message \<Rightarrow> raft \<Rightarrow> (raft_error option \<times> raft) option" where
  "stepCandidate E m r = (
     let myVoteRespType = (if r_state r = StatePreCandidate then MsgPreVoteResp else MsgVoteResp) in
     case m_Type m of
       MsgProp \<Rightarrow> Some (Some ErrProposalDropped, r)
     | MsgApp \<Rightarrow> noErr (do { r1 \<leftarrow> becomeFollower (m_Term m) (m_From m) r; handleAppendEntries m r1 })
     | MsgHeartbeat \<Rightarrow> noErr (do { r1 \<leftarrow> becomeFollower (m_Term m) (m_From m) r; handleHeartbeat m r1 })
     | MsgSnap \<Rightarrow> noErr (do { r1 \<leftarrow> becomeFollower (m_Term m) (m_From m) r; handleSnapshot E m r1 })
     | t \<Rightarrow> if t = myVoteRespType then noErr (candidateVoteResp E m r) else noErr (Some r))"

definition followerReadIndexResp :: "Message \<Rightarrow> raft \<Rightarrow> raft" where
  "followerReadIndexResp m r =
     (case m_Entries m of
        [e] \<Rightarrow> r\<lparr>r_readStates := r_readStates r @ [\<lparr>rs_Index = m_Index m, rs_RequestCtx = e_Data e\<rparr>]\<rparr>
      | _ \<Rightarrow> r)"

definition stepFollower :: "proto_lib \<Rightarrow> Message \<Rightarrow> raft \<Rightarrow> (raft_error option \<times> raft) option" where
  "stepFollower E m r = (
     let heard = r\<lparr>r_electionElapsed := 0, r_lead := m_From m\<rparr>;
         forward = (if r_lead r = None_id then Some r else send (m\<lparr>m_To := r_lead r\<rparr>) r)
     in case m_Type m of
          MsgProp \<Rightarrow> followerProp m r
        | MsgApp \<Rightarrow> noErr (handleAppendEntries m heard)
        | MsgHeartbeat \<Rightarrow> noErr (handleHeartbeat m heard)
        | MsgSnap \<Rightarrow> noErr (handleSnapshot E m heard)
        | MsgTransferLeader \<Rightarrow> noErr forward
        | MsgForgetLeader \<Rightarrow>
            noErr (Some (if ro_option (r_readOnly r) = ReadOnlyLeaseBased then r
                         else r\<lparr>r_lead := None_id\<rparr>))
        | MsgTimeoutNow \<Rightarrow> noErr (hup E campaignTransfer r)
        | MsgReadIndex \<Rightarrow> noErr forward
        | MsgReadIndexResp \<Rightarrow> noErr (Some (followerReadIndexResp m r))
        | _ \<Rightarrow> noErr (Some r))"

section \<open>\<open>Step\<close>\<close>

text \<open>A message of a higher term; \<open>True\<close> if its handling goes on.\<close>

definition stepHigherTerm :: "Message \<Rightarrow> raft \<Rightarrow> (bool \<times> raft) option" where
  "stepHigherTerm m r = (
     let isVote = (m_Type m = MsgVote \<or> m_Type m = MsgPreVote);
         force = (m_Context m = campaignBytes campaignTransfer);
         inLease = (r_checkQuorum r \<and> r_lead r \<noteq> None_id \<and> r_electionElapsed r < r_electionTimeout r)
     in if isVote \<and> \<not> force \<and> inLease then do {
          l_lastEntryID (r_raftLog r);
          Some (False, r)
        }
        else if m_Type m = MsgPreVote then Some (True, r)
        else if m_Type m = MsgPreVoteResp \<and> \<not> m_Reject m then Some (True, r)
        else do {
          r1 \<leftarrow> (if m_Type m = MsgApp \<or> m_Type m = MsgHeartbeat \<or> m_Type m = MsgSnap
                then becomeFollower (m_Term m) (m_From m) r
                else becomeFollower (m_Term m) None_id r);
          Some (True, r1)
        })"

definition stepLowerTerm :: "proto_lib \<Rightarrow> Message \<Rightarrow> raft \<Rightarrow> raft option" where
  "stepLowerTerm E m r =
     (if (r_checkQuorum r \<or> r_preVote r) \<and> (m_Type m = MsgHeartbeat \<or> m_Type m = MsgApp)
      then send (emptyMessage\<lparr>m_To := m_From m, m_Type := MsgAppResp\<rparr>) r
      else if m_Type m = MsgPreVote then do {
        l_lastEntryID (r_raftLog r);
        send (emptyMessage\<lparr>m_To := m_From m, m_Term := r_Term r, m_Type := MsgPreVoteResp,
          m_Reject := True\<rparr>) r
      }
      else if m_Type m = MsgStorageAppendResp then
        (case m_Snapshot m of None \<Rightarrow> Some r | Some s \<Rightarrow> appliedSnap E s r)
      else Some r)"

definition canVote :: "Message \<Rightarrow> raft \<Rightarrow> bool" where
  "canVote m r \<longleftrightarrow> r_Vote r = m_From m \<or> r_Vote r = None_id \<and> r_lead r = None_id \<or>
     m_Type m = MsgPreVote \<and> m_Term m > r_Term r"

definition stepVote :: "Message \<Rightarrow> raft \<Rightarrow> raft option" where
  "stepVote m r = do {
     lastID \<leftarrow> l_lastEntryID (r_raftLog r);
     let candLastID = EntryID (m_LogTerm m) (m_Index m);
     ok \<leftarrow> (if canVote m r then isUpToDate candLastID (r_raftLog r) else Some False);
     typ \<leftarrow> voteRespMsgType (m_Type m);
     if ok then do {
       r1 \<leftarrow> send (emptyMessage\<lparr>m_To := m_From m, m_Term := m_Term m, m_Type := typ\<rparr>) r;
       Some (if m_Type m = MsgVote then r1\<lparr>r_electionElapsed := 0, r_Vote := m_From m\<rparr> else r1)
     }
     else send (emptyMessage\<lparr>m_To := m_From m, m_Term := r_Term r, m_Type := typ, m_Reject := True\<rparr>) r
   }"

definition stepStorageAppendResp :: "proto_lib \<Rightarrow> Message \<Rightarrow> raft \<Rightarrow> raft option" where
  "stepStorageAppendResp E m r = do {
     r1 \<leftarrow> (if m_Index m \<noteq> 0 then do {
             l \<leftarrow> l_stableTo (EntryID (m_LogTerm m) (m_Index m)) (r_raftLog r);
             Some (r\<lparr>r_raftLog := l\<rparr>)
           } else Some r);
     case m_Snapshot m of None \<Rightarrow> Some r1 | Some s \<Rightarrow> appliedSnap E s r1
   }"

definition stepStorageApplyResp :: "proto_lib \<Rightarrow> Message \<Rightarrow> raft \<Rightarrow> raft option" where
  "stepStorageApplyResp E m r =
     (if length (m_Entries m) > 0 then do {
        e \<leftarrow> go_index (m_Entries m) (length (m_Entries m) - 1);
        r1 \<leftarrow> raft_appliedTo E (e_Index e) (entsSize E (m_Entries m)) r;
        Some (reduceUncommittedSize (payloadsSize (m_Entries m)) r1)
      }
      else Some r)"

definition stepMessage :: "proto_lib \<Rightarrow> Message \<Rightarrow> raft \<Rightarrow> (raft_error option \<times> raft) option" where
  "stepMessage E m r =
     (case m_Type m of
        MsgHup \<Rightarrow> noErr (hup E (if r_preVote r then campaignPreElection else campaignElection) r)
      | MsgStorageAppendResp \<Rightarrow> noErr (stepStorageAppendResp E m r)
      | MsgStorageApplyResp \<Rightarrow> noErr (stepStorageApplyResp E m r)
      | MsgVote \<Rightarrow> noErr (stepVote m r)
      | MsgPreVote \<Rightarrow> noErr (stepVote m r)
      | _ \<Rightarrow>
          (case r_step r of
             StepLeader \<Rightarrow> stepLeader E m r
           | StepCandidate \<Rightarrow> stepCandidate E m r
           | StepFollower \<Rightarrow> stepFollower E m r))"

definition Step :: "proto_lib \<Rightarrow> Message \<Rightarrow> raft \<Rightarrow> (raft_error option \<times> raft) option" where
  "Step E m r =
     (if m_Term m = 0 then stepMessage E m r
      else if m_Term m > r_Term r then do {
        (goes, r1) \<leftarrow> stepHigherTerm m r;
        if goes then stepMessage E m r1 else Some (None, r1)
      }
      else if m_Term m < r_Term r then noErr (stepLowerTerm E m r)
      else stepMessage E m r)"

section \<open>The clock\<close>

definition pastElectionTimeout :: "raft \<Rightarrow> bool" where
  "pastElectionTimeout r \<longleftrightarrow> r_electionElapsed r \<ge> r_randomizedElectionTimeout r"

definition tickElection :: "proto_lib \<Rightarrow> raft \<Rightarrow> raft option" where
  "tickElection E r = (
     let r1 = r\<lparr>r_electionElapsed := r_electionElapsed r + 1\<rparr> in
     if promotable r1 \<and> pastElectionTimeout r1 then do {
       (err, r2) \<leftarrow> Step E (emptyMessage\<lparr>m_From := r_id r1, m_Type := MsgHup\<rparr>)
                     (r1\<lparr>r_electionElapsed := 0\<rparr>);
       Some r2
     }
     else Some r1)"

definition tickQuorum :: "proto_lib \<Rightarrow> raft \<Rightarrow> raft option" where
  "tickQuorum E r =
     (if r_electionElapsed r \<ge> r_electionTimeout r then do {
        let r1 = r\<lparr>r_electionElapsed := 0\<rparr>;
        r2 \<leftarrow> (if r_checkQuorum r1 then do {
                (err, r') \<leftarrow> Step E (emptyMessage\<lparr>m_From := r_id r1, m_Type := MsgCheckQuorum\<rparr>) r1;
                Some r'
              } else Some r1);
        Some (if r_state r2 = StateLeader \<and> r_leadTransferee r2 \<noteq> None_id
              then abortLeaderTransfer r2 else r2)
      }
      else Some r)"

definition tickHeartbeat :: "proto_lib \<Rightarrow> raft \<Rightarrow> raft option" where
  "tickHeartbeat E r = do {
     r1 \<leftarrow> tickQuorum E (r\<lparr>r_heartbeatElapsed := r_heartbeatElapsed r + 1,
                            r_electionElapsed := r_electionElapsed r + 1\<rparr>);
     if r_state r1 \<noteq> StateLeader then Some r1
     else if r_heartbeatElapsed r1 \<ge> r_heartbeatTimeout r1 then do {
       (err, r2) \<leftarrow> Step E (emptyMessage\<lparr>m_From := r_id r1, m_Type := MsgBeat\<rparr>)
                     (r1\<lparr>r_heartbeatElapsed := 0\<rparr>);
       Some r2
     }
     else Some r1
   }"

definition tick :: "proto_lib \<Rightarrow> raft \<Rightarrow> raft option" where
  "tick E r = (case r_tick r of TickElection \<Rightarrow> tickElection E r | TickHeartbeat \<Rightarrow> tickHeartbeat E r)"

section \<open>Construction\<close>

definition loadState :: "HardState \<Rightarrow> raft \<Rightarrow> raft option" where
  "loadState state r = do {
     li \<leftarrow> l_lastIndex (r_raftLog r);
     panicIf (hs_Commit state < l_committed (r_raftLog r) \<or> hs_Commit state > li);
     Some (r\<lparr>r_raftLog := (r_raftLog r)\<lparr>l_committed := hs_Commit state\<rparr>, r_Term := hs_Term state,
             r_Vote := hs_Vote state\<rparr>)
   }"

text \<open>
  The fields a composite literal leaves out are zero. The function fields are nil there;
  they are set by \<open>becomeFollower\<close> before anything reads them.
\<close>

definition initRaft :: "RaftConfig \<Rightarrow> raftLog \<Rightarrow> (nat \<Rightarrow> nat) \<Rightarrow> raft" where
  "initRaft c raftlog rand =
     \<lparr>r_id = cfg_ID c, r_Term = 0, r_Vote = 0, r_readStates = [], r_raftLog = raftlog,
      r_maxMsgSize = cfg_MaxSizePerMsg c, r_maxUncommittedSize = cfg_MaxUncommittedEntriesSize c,
      r_trk = MakeProgressTracker (nat (cfg_MaxInflightMsgs c)) (cfg_MaxInflightBytes c),
      r_state = StateFollower, r_isLearner = False, r_msgs = [], r_msgsAfterAppend = [],
      r_lead = None_id, r_leadTransferee = 0, r_pendingConfIndex = 0,
      r_disableConfChangeValidation = cfg_DisableConfChangeValidation c, r_uncommittedSize = 0,
      r_readOnly = newReadOnly (cfg_ReadOnlyOption c), r_electionElapsed = 0,
      r_heartbeatElapsed = 0, r_checkQuorum = cfg_CheckQuorum c, r_preVote = cfg_PreVote c,
      r_heartbeatTimeout = cfg_HeartbeatTick c, r_electionTimeout = cfg_ElectionTick c,
      r_randomizedElectionTimeout = 0,
      r_disableProposalForwarding = cfg_DisableProposalForwarding c,
      r_stepDownOnRemoval = cfg_StepDownOnRemoval c, r_tick = TickElection,
      r_step = StepFollower, r_pendingReadIndexMessages = [], r_rand = rand\<rparr>"

definition newRaft :: "proto_lib \<Rightarrow> (nat \<Rightarrow> nat) \<Rightarrow> RaftConfig \<Rightarrow> raft option" where
  "newRaft E rand c0 =
     (case validate c0 of
        Inl err \<Rightarrow> None
      | Inr c \<Rightarrow> do {
          storage \<leftarrow> cfg_Storage c;
          raftlog \<leftarrow> newLogWithSize storage (cfg_MaxCommittedSizePerReady c);
          (hs, cs) \<leftarrow> mustOk (st_InitialState storage);
          let r = initRaft c raftlog rand;
          lastID \<leftarrow> l_lastEntryID (r_raftLog r);
          (cfg, trk) \<leftarrow> mustOk (Restore \<lparr>ch_Tracker = r_trk r, ch_LastIndex = eid_index lastID\<rparr> cs);
          (cs2, r1) \<leftarrow> switchToConfig E cfg trk r;
          assertConfStatesEquivalent cs cs2;
          r2 \<leftarrow> (case hs of
                  None \<Rightarrow> Some r1
                | Some h \<Rightarrow> if IsEmptyHardState hs then Some r1 else loadState h r1);
          r3 \<leftarrow> (if cfg_Applied c > 0 then do {
                  l \<leftarrow> l_appliedTo (cfg_Applied c) 0 (r_raftLog r2);
                  Some (r2\<lparr>r_raftLog := l\<rparr>)
                } else Some r2);
          becomeFollower (r_Term r3) None_id r3
        })"

section \<open>Proposals within \<open>Step\<close>\<close>

lemma Step_proposal: "m_Type m = MsgProp \<Longrightarrow> m_Term m = 0 \<Longrightarrow> Step E m r = stepProp E m r"
  by (simp add: Step_def stepMessage_def stepProp_def stepLeader_def stepCandidate_def stepFollower_def Let_def
    split: stepFunc.split)

end
