(* ===== verification/RaftOrder.thy ===== *)
theory RaftOrder
  imports RaftStep
begin

text \<open>
  What every operation of a node respects, whatever message it handles: the node keeps
  its identity and its settings, terms and votes only move forward, the outgoing messages
  are only added to and each goes to the right queue, and the cursors of the log never move
  back. The relation is a \<open>step_preorder\<close>, so it carries over to sequences and loops.
\<close>

section \<open>Specification\<close>

text \<open>Terms grow, and within a term a vote, once given, stays.\<close>

definition tv_le :: "u64 \<Rightarrow> u64 \<Rightarrow> u64 \<Rightarrow> u64 \<Rightarrow> bool" where
  "tv_le t v t' v' \<longleftrightarrow> t < t' \<or> t = t' \<and> (v = v' \<or> v = None_id)"

text \<open>The responses that may only leave once the state they speak of is durable.\<close>

definition afterAppend :: "MessageType \<Rightarrow> bool" where
  "afterAppend t \<longleftrightarrow> t = MsgAppResp \<or> t = MsgVoteResp \<or> t = MsgPreVoteResp"

definition sent :: "raft \<Rightarrow> raft \<Rightarrow> bool" where
  "sent r r' \<longleftrightarrow>
     (\<exists>ms. r_msgs r' = r_msgs r @ ms \<and> (\<forall>m \<in> set ms. \<not> afterAppend (m_Type m) \<and> m_To m \<noteq> r_id r)) \<and>
     (\<exists>ms. r_msgsAfterAppend r' = r_msgsAfterAppend r @ ms \<and> (\<forall>m \<in> set ms. afterAppend (m_Type m)))"

definition log_le :: "raftLog \<Rightarrow> raftLog \<Rightarrow> bool" where
  "log_le l l' \<longleftrightarrow> l_storage l' = l_storage l \<and> l_maxApplyingEntsSize l' = l_maxApplyingEntsSize l \<and>
     l_committed l \<le> l_committed l' \<and> l_applied l \<le> l_applied l' \<and> l_applying l \<le> l_applying l'"

definition settings :: "raft \<Rightarrow> (u64 \<times> u64 \<times> u64) \<times> (int \<times> int) \<times> (bool \<times> bool \<times> bool \<times> bool \<times> bool)" where
  "settings r = ((r_id r, r_maxMsgSize r, r_maxUncommittedSize r),
     (r_heartbeatTimeout r, r_electionTimeout r),
     (r_checkQuorum r, r_preVote r, r_disableConfChangeValidation r,
      r_disableProposalForwarding r, r_stepDownOnRemoval r))"

definition raft_le :: "raft \<Rightarrow> raft \<Rightarrow> bool" where
  "raft_le r r' \<longleftrightarrow> settings r' = settings r \<and> tv_le (r_Term r) (r_Vote r) (r_Term r') (r_Vote r') \<and>
     sent r r' \<and> log_le (r_raftLog r) (r_raftLog r')"

text \<open>A loop that only changes progress, and what \<open>reset\<close> sets and leaves.\<close>

definition learnerFlags :: "raft \<Rightarrow> u64 \<rightharpoonup> bool" where
  "learnerFlags r = (\<lambda>i. map_option pr_IsLearner (t_Progress (r_trk r) i))"

definition progress_only :: "raft \<Rightarrow> raft \<Rightarrow> bool" where
  "progress_only r r' \<longleftrightarrow> r' = r\<lparr>r_trk := (r_trk r)\<lparr>t_Progress := t_Progress (r_trk r')\<rparr>\<rparr> \<and>
     learnerFlags r' = learnerFlags r"

definition reset_to :: "u64 \<Rightarrow> raft \<Rightarrow> raft \<Rightarrow> bool" where
  "reset_to t r r' \<longleftrightarrow> r_Term r' = t \<and> r_Vote r' = (if r_Term r = t then r_Vote r else None_id) \<and>
     r_raftLog r' = r_raftLog r \<and> r_msgs r' = r_msgs r \<and> r_msgsAfterAppend r' = r_msgsAfterAppend r \<and>
     r_state r' = r_state r \<and> r_step r' = r_step r \<and> r_tick r' = r_tick r \<and> settings r' = settings r \<and>
     r_lead r' = None_id \<and> t_Config (r_trk r') = t_Config (r_trk r) \<and>
     t_Votes (r_trk r') = Map.empty \<and> learnerFlags r' = learnerFlags r"

text \<open>The messages a node only ever receives from the leader of a term.\<close>

definition fromLeader :: "Message \<Rightarrow> bool" where
  "fromLeader m \<longleftrightarrow> m_Type m = MsgApp \<or> m_Type m = MsgHeartbeat \<or> m_Type m = MsgSnap"

section \<open>The preorder\<close>

lemma log_le_refl [simp]: "log_le l l" and log_le_trans: "log_le l l' \<Longrightarrow> log_le l' l'' \<Longrightarrow> log_le l l''"
  by (auto simp: log_le_def)

lemma tv_le_refl [simp]: "tv_le t v t v" and
  tv_le_trans: "tv_le t v t' v' \<Longrightarrow> tv_le t' v' t'' v'' \<Longrightarrow> tv_le t v t'' v''"
  by (auto simp: tv_le_def)

lemma raft_le_refl [simp, intro]: "raft_le r r"
  by (simp add: raft_le_def sent_def)

lemma raft_le_trans: "raft_le r s \<Longrightarrow> raft_le s t \<Longrightarrow> raft_le r t"
proof -
  assume a: "raft_le r s" "raft_le s t"
  have i: "r_id s = r_id r" using a(1) by (auto simp: raft_le_def settings_def)
  have "sent r t"
    using a i unfolding raft_le_def sent_def by (auto simp: ball_Un)
  with a show ?thesis by (auto simp: raft_le_def intro: tv_le_trans log_le_trans)
qed

interpretation ro: step_preorder raft_le
  by unfold_locales (rule raft_le_refl, rule raft_le_trans)

lemma raft_le_update [simp]:
  "raft_le r (r'\<lparr>r_readStates := a1\<rparr>) = raft_le r r'" "raft_le (r\<lparr>r_readStates := a1\<rparr>) r' = raft_le r r'"
  "raft_le r (r'\<lparr>r_trk := a2\<rparr>) = raft_le r r'" "raft_le (r\<lparr>r_trk := a2\<rparr>) r' = raft_le r r'"
  "raft_le r (r'\<lparr>r_state := a3\<rparr>) = raft_le r r'" "raft_le (r\<lparr>r_state := a3\<rparr>) r' = raft_le r r'"
  "raft_le r (r'\<lparr>r_isLearner := a4\<rparr>) = raft_le r r'" "raft_le (r\<lparr>r_isLearner := a4\<rparr>) r' = raft_le r r'"
  "raft_le r (r'\<lparr>r_lead := a5\<rparr>) = raft_le r r'" "raft_le (r\<lparr>r_lead := a5\<rparr>) r' = raft_le r r'"
  "raft_le r (r'\<lparr>r_leadTransferee := a6\<rparr>) = raft_le r r'" "raft_le (r\<lparr>r_leadTransferee := a6\<rparr>) r' = raft_le r r'"
  "raft_le r (r'\<lparr>r_pendingConfIndex := a6\<rparr>) = raft_le r r'" "raft_le (r\<lparr>r_pendingConfIndex := a6\<rparr>) r' = raft_le r r'"
  "raft_le r (r'\<lparr>r_uncommittedSize := a6\<rparr>) = raft_le r r'" "raft_le (r\<lparr>r_uncommittedSize := a6\<rparr>) r' = raft_le r r'"
  "raft_le r (r'\<lparr>r_readOnly := a7\<rparr>) = raft_le r r'" "raft_le (r\<lparr>r_readOnly := a7\<rparr>) r' = raft_le r r'"
  "raft_le r (r'\<lparr>r_electionElapsed := a8\<rparr>) = raft_le r r'" "raft_le (r\<lparr>r_electionElapsed := a8\<rparr>) r' = raft_le r r'"
  "raft_le r (r'\<lparr>r_heartbeatElapsed := a8\<rparr>) = raft_le r r'" "raft_le (r\<lparr>r_heartbeatElapsed := a8\<rparr>) r' = raft_le r r'"
  "raft_le r (r'\<lparr>r_randomizedElectionTimeout := a8\<rparr>) = raft_le r r'"
  "raft_le (r\<lparr>r_randomizedElectionTimeout := a8\<rparr>) r' = raft_le r r'"
  "raft_le r (r'\<lparr>r_tick := a9\<rparr>) = raft_le r r'" "raft_le (r\<lparr>r_tick := a9\<rparr>) r' = raft_le r r'"
  "raft_le r (r'\<lparr>r_step := a10\<rparr>) = raft_le r r'" "raft_le (r\<lparr>r_step := a10\<rparr>) r' = raft_le r r'"
  "raft_le r (r'\<lparr>r_pendingReadIndexMessages := a11\<rparr>) = raft_le r r'"
  "raft_le (r\<lparr>r_pendingReadIndexMessages := a11\<rparr>) r' = raft_le r r'"
  "raft_le r (r'\<lparr>r_rand := a12\<rparr>) = raft_le r r'" "raft_le (r\<lparr>r_rand := a12\<rparr>) r' = raft_le r r'"
  "raft_le r (setProgress i pr r') = raft_le r r'" "raft_le (setProgress i pr r) r' = raft_le r r'"
  by (simp_all add: raft_le_def settings_def sent_def setProgress_def)

lemma raft_le_log: "log_le (r_raftLog r) l \<Longrightarrow> raft_le r (r\<lparr>r_raftLog := l\<rparr>)"
  by (simp add: raft_le_def settings_def sent_def)

lemma raft_le_logD: "raft_le (r\<lparr>r_raftLog := l\<rparr>) s \<Longrightarrow> log_le (r_raftLog r) l \<Longrightarrow> raft_le r s"
  by (rule raft_le_trans [OF raft_le_log])

lemma raft_le_term: "r_Term r < t \<Longrightarrow> raft_le r (r\<lparr>r_Term := t, r_Vote := v\<rparr>)"
  by (simp add: raft_le_def settings_def sent_def tv_le_def)

lemma raft_le_termD: "raft_le (r\<lparr>r_Term := t, r_Vote := v\<rparr>) s \<Longrightarrow> r_Term r < t \<Longrightarrow> raft_le r s"
  by (rule raft_le_trans [OF raft_le_term])

section \<open>The log\<close>

lemma log_ops_le:
  "post (l_commitTo c l) (log_le l)"
  "post (l_append es l) (\<lambda>(i, l'). log_le l l')"
  "post (l_maybeCommit e l) (\<lambda>(b, l'). log_le l l')"
  "post (l_appliedTo i n l) (log_le l)"
  "post (l_stableTo e l) (log_le l)"
  "log_le l (l_stableSnapTo i l)"
  by (auto simp: post_def l_commitTo_def l_append_def l_maybeCommit_def l_appliedTo_def l_stableTo_def
    l_stableSnapTo_def bind_eq_Some_conv log_le_def Let_def split: if_splits)

lemma l_maybeAppend_le: "post (l_maybeAppend a c l) (\<lambda>(x, l'). log_le l l')"
proof (rule postI)
  fix x assume "l_maybeAppend a c l = Some x"
  then show "case x of (x, l') \<Rightarrow> log_le l l'"
    using postD [OF log_ops_le(1)] postD [OF log_ops_le(2)]
    by (fastforce simp: l_maybeAppend_def bind_eq_Some_conv Let_def split: if_splits intro: log_le_trans)
qed

section \<open>Rules for calls\<close>

text \<open>Calls that only compute something.\<close>

lemmas pure_calls [calls] =
  postI [of "getProgress i r" for i r] postI [of "l_term i l" for i l]
  postI [of "l_entries E i n l" for E i n l] postI [of "l_lastIndex l" for l]
  postI [of "l_firstIndex l" for l] postI [of "l_snapshot l" for l]
  postI [of "l_lastEntryID l" for l] postI [of "SentEntries n b pr" for n b pr]
  postI [of "findConflictByTerm l i t" for l i t] postI [of "matchTerm e l" for e l]
  postI [of "isUpToDate e l" for e l] postI [of "zeroTermOnOutOfBounds t" for t]
  postI [of "voteRespMsgType t" for t] postI [of "in_FreeLE i ins" for i ins]
  postI [of "QuorumActive p" for p] postI [of "recvAck i c ro" for i c ro]
  postI [of "maybeAdvance c ro" for c ro] postI [of "go_index xs i" for xs i]
  postI [of "hasUnappliedConfChanges E r" for E r] postI [of "committedEntryInCurrentTerm r" for r]
  postI [of "unmarshalConfChange E e" for E e] postI [of "confChangeToMsg E c" for E c]
  postI [of "Restore c cs" for c cs] postI [of "LeaveJoint c" for c]
  postI [of "EnterJoint c b ccs" for c b ccs] postI [of "Simple c ccs" for c ccs]
  postI [of "CC_EnterJoint cc" for cc] postI [of "assertConfStatesEquivalent a b" for a b]
  postI [of "ackProgress m pr r" for m pr r]

text \<open>Calls that change the log.\<close>

lemmas log_calls [calls] =
  post_weaken [OF log_ops_le(1)] post_weaken [OF log_ops_le(2)] post_weaken [OF log_ops_le(3)]
  post_weaken [OF log_ops_le(4)] post_weaken [OF log_ops_le(5)] post_weaken [OF l_maybeAppend_le]

lemma send_le: "post (send m r) (raft_le r)"
  by (auto simp: send_def post_simps Let_def raft_le_def settings_def sent_def afterAppend_def)

lemmas send_call [calls] = ro.call [OF send_le]

lemma maybeSendSnapshot_le: "post (maybeSendSnapshot to pr r) (\<lambda>(b, r'). raft_le r r')"
  by (auto simp: maybeSendSnapshot_def post_simps post_case Let_def intro!: calls)

lemmas maybeSendSnapshot_call [calls] = ro.call_pair [OF maybeSendSnapshot_le]

lemma maybeSendAppend_le: "post (maybeSendAppend E to b r) (\<lambda>(b, r'). raft_le r r')"
  by (auto simp: maybeSendAppend_def post_simps post_case Let_def intro!: calls)

lemmas maybeSendAppend_call [calls] = ro.call_pair [OF maybeSendAppend_le]

lemma sendAppend_le: "post (sendAppend E to r) (raft_le r)"
  by (auto simp: sendAppend_def post_simps post_case intro!: calls)

lemmas sendAppend_call [calls] = ro.call [OF sendAppend_le]

lemma sendAppends_le: "post (sendAppends E to r) (raft_le r)"
proof (rule postI)
  fix r' assume run: "sendAppends E to r = Some r'"
  show "raft_le r r'"
  proof (rule sendAppends.raw_induct [where P = "\<lambda>E to r r'. raft_le r r'", OF _ run])
    fix f E to r r'
    assume "\<And>E to r r'. f E to r = Some r' \<Longrightarrow> raft_le r r'"
      "Option.bind (maybeSendAppend E to False r) (\<lambda>x. if fst x then f E to (snd x) else Some (snd x)) = Some r'"
    then show "raft_le r r'"
      using postD [OF maybeSendAppend_le [of E to False r]]
      by (fastforce simp: bind_eq_Some_conv split: if_splits intro: raft_le_trans)
  qed
qed

lemma Visit_le:
  assumes "\<And>i t. raft_le r t \<Longrightarrow> post (f i t) (raft_le t)" shows "post (Visit f p r) (raft_le r)"
  unfolding Visit_def by (rule ro.post_foldO) (rule assms)

lemma sendHeartbeat_le: "post (sendHeartbeat to c r) (raft_le r)"
  by (auto simp: sendHeartbeat_def post_simps Let_def intro!: calls)

lemma bcastAppend_le: "post (bcastAppend E r) (raft_le r)"
  unfolding bcastAppend_def by (rule Visit_le) (auto simp: post_simps intro!: sendAppend_le)

lemma bcastHeartbeat_le: "post (bcastHeartbeat r) (raft_le r)"
  unfolding bcastHeartbeat_def bcastHeartbeatWithCtx_def
  by (rule Visit_le) (auto simp: post_simps intro!: sendHeartbeat_le)

lemma raft_maybeCommit_le: "post (raft_maybeCommit r) (\<lambda>(b, r'). raft_le r r')"
  by (auto simp: raft_maybeCommit_def post_simps post_case intro!: calls raft_le_log)

lemma appendEntry_le: "post (appendEntry es r) (\<lambda>(b, r'). raft_le r r')"
  by (auto simp: appendEntry_def increaseUncommittedSize_def post_simps post_case Let_def
    split: if_splits intro!: calls dest: raft_le_logD)

lemma sendTimeoutNow_le: "post (sendTimeoutNow to r) (raft_le r)"
  unfolding sendTimeoutNow_def by (rule send_le)

lemmas replication_calls [calls] =
  ro.call [OF sendAppends_le] ro.call [OF bcastAppend_le] ro.call [OF bcastHeartbeat_le]
  ro.call_pair [OF raft_maybeCommit_le] ro.call_pair [OF appendEntry_le] ro.call [OF sendTimeoutNow_le]

section \<open>Role changes\<close>

lemma progress_only_set:
  "getProgress i r = Some pr \<Longrightarrow> pr_IsLearner pr' = pr_IsLearner pr \<Longrightarrow> progress_only r (setProgress i pr' r)"
  by (auto simp: progress_only_def setProgress_def getProgress_def learnerFlags_def fun_eq_iff)

interpretation po: step_preorder progress_only
proof
  show "progress_only s s" for s by (simp add: progress_only_def)
next
  fix r s t assume rs: "progress_only r s" and st: "progress_only s t"
  have "t = s\<lparr>r_trk := (r_trk s)\<lparr>t_Progress := t_Progress (r_trk t)\<rparr>\<rparr>"
    using st unfolding progress_only_def by blast
  also have "s = r\<lparr>r_trk := (r_trk r)\<lparr>t_Progress := t_Progress (r_trk s)\<rparr>\<rparr>"
    using rs unfolding progress_only_def by blast
  finally have "t = r\<lparr>r_trk := (r_trk r)\<lparr>t_Progress := t_Progress (r_trk t)\<rparr>\<rparr>" by simp
  with rs st show "progress_only r t" by (simp add: progress_only_def)
qed

lemma resetProgress_only: "post (resetProgress i r) (progress_only r)"
  by (auto simp: resetProgress_def post_simps intro!: calls progress_only_set)

lemma Visit_resetProgress: "post (Visit resetProgress p r) (progress_only r)"
  unfolding Visit_def by (rule po.post_foldO) (rule resetProgress_only)

lemma progress_onlyD:
  assumes "progress_only r r'"
  shows "r_Term r' = r_Term r" "r_Vote r' = r_Vote r" "r_raftLog r' = r_raftLog r" "r_msgs r' = r_msgs r"
    "r_msgsAfterAppend r' = r_msgsAfterAppend r" "r_state r' = r_state r" "r_step r' = r_step r"
    "r_tick r' = r_tick r" "settings r' = settings r" "r_lead r' = r_lead r"
    "t_Config (r_trk r') = t_Config (r_trk r)" "t_Votes (r_trk r') = t_Votes (r_trk r)"
    "learnerFlags r' = learnerFlags r"
proof -
  obtain p where p: "r' = r\<lparr>r_trk := (r_trk r)\<lparr>t_Progress := p\<rparr>\<rparr>"
    using assms unfolding progress_only_def by blast
  show "r_Term r' = r_Term r" "r_Vote r' = r_Vote r" "r_raftLog r' = r_raftLog r" "r_msgs r' = r_msgs r"
    "r_msgsAfterAppend r' = r_msgsAfterAppend r" "r_state r' = r_state r" "r_step r' = r_step r"
    "r_tick r' = r_tick r" "settings r' = settings r" "r_lead r' = r_lead r"
    "t_Config (r_trk r') = t_Config (r_trk r)" "t_Votes (r_trk r') = t_Votes (r_trk r)"
    by (simp_all add: p settings_def)
  show "learnerFlags r' = learnerFlags r" using assms by (simp add: progress_only_def)
qed

lemma settings_update [simp]:
  "settings (r\<lparr>r_trk := a\<rparr>) = settings r" "settings (r\<lparr>r_lead := i\<rparr>) = settings r"
  "settings (r\<lparr>r_Term := i\<rparr>) = settings r" "settings (r\<lparr>r_Vote := i\<rparr>) = settings r"
  "settings (r\<lparr>r_electionElapsed := n\<rparr>) = settings r" "settings (r\<lparr>r_heartbeatElapsed := n\<rparr>) = settings r"
  "settings (r\<lparr>r_leadTransferee := i\<rparr>) = settings r" "settings (r\<lparr>r_pendingConfIndex := i\<rparr>) = settings r"
  "settings (r\<lparr>r_uncommittedSize := i\<rparr>) = settings r" "settings (r\<lparr>r_readOnly := ro\<rparr>) = settings r"
  "settings (r\<lparr>r_randomizedElectionTimeout := n\<rparr>) = settings r" "settings (r\<lparr>r_rand := f\<rparr>) = settings r"
  "settings (r\<lparr>r_step := st\<rparr>) = settings r" "settings (r\<lparr>r_tick := ti\<rparr>) = settings r"
  "settings (r\<lparr>r_state := s\<rparr>) = settings r" "settings (r\<lparr>r_raftLog := l\<rparr>) = settings r"
  "settings (r\<lparr>r_isLearner := x\<rparr>) = settings r" "settings (setProgress j pr r) = settings r"
  by (simp_all add: settings_def setProgress_def)

lemma raft_reset_to: "post (raft_reset t r) (reset_to t r)"
proof -
  have aux: "reset_to t r (x\<lparr>r_pendingConfIndex := 0, r_uncommittedSize := 0, r_readOnly := ro\<rparr>)"
    if "progress_only s x" "s = u\<lparr>r_lead := None_id, r_electionElapsed := 0, r_heartbeatElapsed := 0,
         r_rand := f, r_randomizedElectionTimeout := n, r_leadTransferee := None_id, r_trk := ResetVotes (r_trk r)\<rparr>"
      "u = (if r_Term r \<noteq> t then r\<lparr>r_Term := t, r_Vote := None_id\<rparr> else r)" for s x u f n ro
    using progress_onlyD [OF that(1)] that(2,3)
    by (simp add: reset_to_def learnerFlags_def ResetVotes_def)
  show ?thesis
  proof (cases "r_Term r = t")
    case True
    then show ?thesis
      by (simp add: raft_reset_def Let_def abortLeaderTransfer_def resetRandomizedElectionTimeout_def
          Intn_def post_simps)
        (intro impI post_weaken [OF Visit_resetProgress], erule aux, rule refl, simp)
  next
    case False
    then show ?thesis
      by (simp add: raft_reset_def Let_def abortLeaderTransfer_def resetRandomizedElectionTimeout_def
          Intn_def post_simps)
        (intro impI post_weaken [OF Visit_resetProgress], erule aux, rule refl, simp)
  qed
qed

lemma reset_to_le: "reset_to t r r' \<Longrightarrow> r_Term r \<le> t \<Longrightarrow> raft_le r r'"
  by (auto simp: reset_to_def raft_le_def tv_le_def sent_def)

lemma becomeFollower_to: "post (becomeFollower t lead r)
    (\<lambda>r'. \<exists>s. reset_to t (r\<lparr>r_step := StepFollower\<rparr>) s \<and>
       r' = s\<lparr>r_tick := TickElection, r_lead := lead, r_state := StateFollower\<rparr>)"
  by (auto simp: becomeFollower_def post_simps intro!: post_weaken [OF raft_reset_to])

lemma becomeCandidate_to: "post (becomeCandidate r)
    (\<lambda>r'. \<exists>s. r_state r \<noteq> StateLeader \<and> reset_to (r_Term r + 1) (r\<lparr>r_step := StepCandidate\<rparr>) s \<and>
       r' = s\<lparr>r_tick := TickElection, r_Vote := r_id s, r_state := StateCandidate\<rparr>)"
  by (auto simp: becomeCandidate_def post_simps intro!: post_weaken [OF raft_reset_to])

lemma becomeFollower_at: "r_Term r \<le> t \<Longrightarrow>
    post (becomeFollower t lead r) (\<lambda>r'. raft_le r r' \<and> r_Term r' = t)"
proof (rule post_weaken [OF becomeFollower_to], elim exE conjE)
  fix r' s assume "r_Term r \<le> t" and s: "reset_to t (r\<lparr>r_step := StepFollower\<rparr>) s"
    "r' = s\<lparr>r_tick := TickElection, r_lead := lead, r_state := StateFollower\<rparr>"
  then show "raft_le r r' \<and> r_Term r' = t" using reset_to_le [OF s(1)] by (simp add: reset_to_def)
qed

lemma becomeFollower_le: "r_Term r \<le> t \<Longrightarrow> post (becomeFollower t lead r) (raft_le r)"
  by (rule post_weaken [OF becomeFollower_at]) auto

lemma becomeCandidate_le: "r_Term r \<noteq> maxU64 \<Longrightarrow> post (becomeCandidate r) (raft_le r)"
  by (rule post_weaken [OF becomeCandidate_to])
    (clarsimp simp: reset_to_def raft_le_def tv_le_def sent_def u64_less_add1)

lemma becomePreCandidate_le: "post (becomePreCandidate r) (raft_le r)"
  by (simp add: becomePreCandidate_def post_simps)

lemma becomeLeader_le: "post (becomeLeader r) (raft_le r)"
proof -
  have aux: "raft_le r t" if "reset_to (r_Term r) (r\<lparr>r_step := StepLeader\<rparr>) s" "raft_le s t" for s t
    using raft_le_trans [OF reset_to_le [OF that(1)] that(2)] by simp
  show ?thesis
    by (auto simp: becomeLeader_def post_simps post_case Let_def
        intro!: calls post_weaken [OF raft_reset_to] aux)
qed

section \<open>Elections\<close>

lemma campaignSend_le: "post (campaignSend t n v i r) (raft_le r)"
  by (auto simp: campaignSend_def post_simps Let_def intro!: calls)

lemma campaign_le: "r_Term r \<noteq> maxU64 \<Longrightarrow> post (campaign t r) (raft_le r)"
  by (auto simp: campaign_def post_simps post_case Let_def
      intro!: ro.call [OF becomePreCandidate_le] ro.call [OF becomeCandidate_le]
        ro.call [OF ro.post_foldO [OF campaignSend_le]] intro: raft_le_trans)

lemma hup_le: "r_Term r \<noteq> maxU64 \<Longrightarrow> post (hup E t r) (raft_le r)"
  by (auto simp: hup_def post_simps intro!: calls campaign_le)

section \<open>Reads and proposals\<close>

lemma respondReadIndex_le: "post (respondReadIndex m i r) (raft_le r)"
  by (auto simp: respondReadIndex_def responseToReadIndexReq_def post_simps post_case intro!: calls)

lemmas respondReadIndex_call [calls] = ro.call [OF respondReadIndex_le]

lemma sendMsgReadIndexResponse_le: "post (sendMsgReadIndexResponse m r) (raft_le r)"
  by (auto simp: sendMsgReadIndexResponse_def post_simps Let_def split: ReadOnlyOption.split intro!: calls)

lemma releasePendingReadIndexMessages_le: "post (releasePendingReadIndexMessages r) (raft_le r)"
  by (auto simp: releasePendingReadIndexMessages_def post_simps
    intro!: calls ro.call [OF ro.post_foldO [OF sendMsgReadIndexResponse_le]])

lemmas read_calls [calls] =
  ro.call [OF sendMsgReadIndexResponse_le] ro.call [OF releasePendingReadIndexMessages_le]

lemma proposeEntries_le: "post (proposeEntries E i es r) (\<lambda>(es', r'). raft_le r r')"
proof (induction E i es r rule: proposeEntries.induct)
  case (2 E i e es r)
  have "post (proposeEntry E i e r) (\<lambda>(e', r'). raft_le r r')"
    by (auto simp: proposeEntry_def post_simps post_case intro!: calls)
  with 2 show ?case by (fastforce simp: post_def bind_eq_Some_conv intro: raft_le_trans)
qed (simp add: post_simps)

lemma leaderProp_le: "post (leaderProp E m r) (\<lambda>(e, r'). raft_le r r')"
  by (auto simp: leaderProp_def post_simps post_case intro!: calls ro.call_pair [OF proposeEntries_le]
    intro: raft_le_trans)

lemma followerProp_le: "post (followerProp m r) (\<lambda>(e, r'). raft_le r r')"
  by (auto simp: followerProp_def post_simps intro!: calls)

lemma stepProp_le: "post (stepProp E m r) (\<lambda>(e, r'). raft_le r r')"
  by (auto simp: stepProp_def post_simps leaderProp_le followerProp_le split: stepFunc.split)

lemmas prop_calls [calls] = ro.call_pair [OF stepProp_le]

lemma raft_appliedTo_le: "post (raft_appliedTo E i n r) (raft_le r)"
  by (auto simp: raft_appliedTo_def post_simps post_case Let_def intro!: calls raft_le_log dest: raft_le_logD)

lemma appliedSnap_le: "post (appliedSnap E s r) (raft_le r)"
  unfolding appliedSnap_def
  by (rule post_weaken [OF raft_appliedTo_le]) (auto dest: raft_le_logD intro: log_ops_le(6))

lemmas applied_calls [calls] = ro.call [OF raft_appliedTo_le] ro.call [OF appliedSnap_le]

section \<open>Snapshots and membership changes\<close>

lemma maybeSend_all_le: "post (Visit (\<lambda>i r'. if i = r_id r' then Some r'
    else do { (_, r'') \<leftarrow> maybeSendAppend E i False r'; Some r'' }) p r) (raft_le r)"
  by (rule Visit_le) (auto simp: post_simps post_case intro!: calls)

lemma switchToConfig_le: "post (switchToConfig E cfg trk r) (\<lambda>(cs, r'). raft_le r r')"
  unfolding switchToConfig_def
  by (simp add: post_simps post_case Let_def abortLeaderTransfer_def)
    (auto intro!: calls ro.call [OF becomeFollower_le] ro.call [OF maybeSend_all_le] intro: raft_le_trans)

lemma applyConfChange_le: "post (applyConfChange E cc r) (\<lambda>(cs, r'). raft_le r r')"
  by (auto simp: applyConfChange_def post_simps post_case Let_def switchToConfig_le intro!: calls)

lemma l_restore_le: "\<not> snapI s \<le> l_committed l \<Longrightarrow> log_le l (l_restore s l)"
  by (simp add: log_le_def l_restore_def)

lemma raft_restore_le: "r_Term r \<noteq> maxU64 \<Longrightarrow> post (raft_restore E s r) (\<lambda>(b, r'). raft_le r r')"
  unfolding raft_restore_def Let_def
  by (auto simp: post_simps post_case u64_less_add1 less_imp_le
      intro!: calls raft_le_log ro.call [OF becomeFollower_le] ro.call_pair [OF switchToConfig_le]
      dest!: raft_le_logD intro: l_restore_le)

lemmas config_calls [calls] = ro.call_pair [OF switchToConfig_le] ro.call_pair [OF raft_restore_le]

section \<open>Handlers\<close>

lemma handleAppendEntries_le: "post (handleAppendEntries m r) (raft_le r)"
  unfolding handleAppendEntries_def Let_def
  by (auto simp: post_simps post_case intro!: calls dest!: raft_le_logD)

lemma handleHeartbeat_le: "post (handleHeartbeat m r) (raft_le r)"
  by (auto simp: handleHeartbeat_def post_simps intro!: calls dest: raft_le_logD)

lemma handleSnapshot_le: "r_Term r \<noteq> maxU64 \<Longrightarrow> post (handleSnapshot E m r) (raft_le r)"
  by (auto simp: handleSnapshot_def post_simps post_case Let_def intro!: calls intro: raft_le_trans)

lemma deactivate_le: "post (Visit (\<lambda>i r'. if i \<noteq> r_id r' then do {
      pr \<leftarrow> getProgress i r'; Some (setProgress i (pr\<lparr>pr_RecentActive := False\<rparr>) r')
    } else Some r') p r) (raft_le r)"
  by (rule Visit_le) (auto simp: post_simps intro!: calls)

lemma leaderCheckQuorum_le: "post (leaderCheckQuorum r) (raft_le r)"
  unfolding leaderCheckQuorum_def
  by (simp add: post_simps)
    (auto intro!: calls ro.call [OF becomeFollower_le] ro.call [OF deactivate_le] intro: raft_le_trans)

lemma leaderReadIndex_le: "post (leaderReadIndex m r) (raft_le r)"
  by (auto simp: leaderReadIndex_def post_simps intro!: calls)

lemma leaderAppRespReject_le: "post (leaderAppRespReject E m pr r) (raft_le r)"
  by (auto simp: leaderAppRespReject_def post_simps post_case Let_def intro!: calls)

lemma ackCommit_le: "post (ackCommit E m r) (raft_le r)"
  by (auto simp: ackCommit_def post_simps post_case intro!: calls intro: raft_le_trans)

lemma ackTransfer_le: "post (ackTransfer m r) (raft_le r)"
  by (auto simp: ackTransfer_def post_simps intro!: calls)

lemma leaderAppRespAccept_le: "post (leaderAppRespAccept E m pr r) (raft_le r)"
  by (auto simp: leaderAppRespAccept_def post_simps post_case Let_def
      intro!: calls ro.call [OF ackCommit_le] ro.call [OF ackTransfer_le] intro: raft_le_trans)

lemma leaderHeartbeatResp_le: "post (leaderHeartbeatResp E m pr r) (raft_le r)"
  by (auto simp: leaderHeartbeatResp_def post_simps post_case Let_def
      intro!: calls ro.call [OF ro.post_foldO [OF respondReadIndex_le]] intro: raft_le_trans)

lemma leaderTransfer_le: "post (leaderTransfer E m pr r) (raft_le r)"
  unfolding leaderTransfer_def Let_def
  by (auto simp: post_simps abortLeaderTransfer_def intro!: calls)

lemma leaderFromPeer_le: "post (leaderFromPeer E m r) (raft_le r)"
  by (auto simp: leaderFromPeer_def leaderAppResp_def post_simps Let_def leaderAppRespReject_le
      leaderAppRespAccept_le leaderHeartbeatResp_le leaderTransfer_le leaderSnapStatus_def
      leaderUnreachable_def split: option.split MessageType.split)

lemma noErr_le: "post X (raft_le r) \<Longrightarrow> post (noErr X) (\<lambda>(e, r'). raft_le r r')"
  by (simp add: noErr_def post_simps)

lemma stepLeader_le: "post (stepLeader E m r) (\<lambda>(e, r'). raft_le r r')"
  by (auto simp: stepLeader_def bcastHeartbeat_le leaderCheckQuorum_le leaderProp_le leaderReadIndex_le
      leaderFromPeer_le post_simps split: MessageType.split intro!: noErr_le)

lemma candidateVoteResp_le: "r_Term r \<noteq> maxU64 \<Longrightarrow> post (candidateVoteResp E m r) (raft_le r)"
  unfolding candidateVoteResp_def
  by (auto simp: poll_def Let_def post_simps split: VoteResult.split prod.split
      intro!: calls ro.call [OF campaign_le] ro.call [OF becomeLeader_le] ro.call [OF becomeFollower_le]
      intro: raft_le_trans)

text \<open>
  A candidate takes over the term of a leader's request. That is its own term when the
  request carries one; \<open>Step\<close> lets a request with term zero through as well.
\<close>

lemma stepCandidate_le:
  assumes t: "r_Term r \<noteq> maxU64" and m: "fromLeader m \<Longrightarrow> m_Term m = r_Term r"
  shows "post (stepCandidate E m r) (\<lambda>(e, r'). raft_le r r')"
proof -
  have bf: "post (becomeFollower (m_Term m) (m_From m) r) (\<lambda>r'. raft_le r r' \<and> r_Term r' = r_Term r)"
    if "fromLeader m"
    using becomeFollower_at [of r "m_Term m"] m [OF that] by simp
  have hs: "post (handleSnapshot E m x) (raft_le r)" if "raft_le r x" "r_Term x = r_Term r" for x
    using ro.call [OF handleSnapshot_le, of x "raft_le r" E m] raft_le_trans [OF that(1)] that(2) t by simp
  show ?thesis
    unfolding stepCandidate_def Let_def
    by (auto simp: post_simps fromLeader_def split: MessageType.split
      intro!: noErr_le candidateVoteResp_le [OF t] post_weaken [OF bf] ro.call [OF handleAppendEntries_le]
        ro.call [OF handleHeartbeat_le] hs intro: raft_le_trans)
qed

lemma stepFollower_le: "r_Term r \<noteq> maxU64 \<Longrightarrow> post (stepFollower E m r) (\<lambda>(e, r'). raft_le r r')"
  unfolding stepFollower_def Let_def
  by (auto simp: post_simps followerProp_le followerReadIndexResp_def split: MessageType.split list.split
      intro!: noErr_le calls hup_le ro.call [OF handleAppendEntries_le] ro.call [OF handleHeartbeat_le]
        ro.call [OF handleSnapshot_le])

section \<open>\<open>Step\<close>\<close>

lemma stepHigherTerm_le: "r_Term r < m_Term m \<Longrightarrow> post (stepHigherTerm m r) (\<lambda>(b, r'). raft_le r r')"
  unfolding stepHigherTerm_def Let_def
  by (auto simp: post_simps less_imp_le intro!: calls ro.call [OF becomeFollower_le])

lemma stepLowerTerm_le: "post (stepLowerTerm E m r) (raft_le r)"
  by (auto simp: stepLowerTerm_def post_simps post_case intro!: calls)

lemma send_to: "post (send m r) (\<lambda>r'. raft_le r r' \<and>
    (\<exists>a b. r' = r\<lparr>r_msgs := a, r_msgsAfterAppend := b\<rparr>))"
proof (rule postI)
  fix r' assume run: "send m r = Some r'"
  then have "raft_le r r'" by (rule postD [OF send_le])
  moreover from run obtain m2 where
    "r' = r\<lparr>r_msgs := r_msgs r @ [m2]\<rparr> \<or> r' = r\<lparr>r_msgsAfterAppend := r_msgsAfterAppend r @ [m2]\<rparr>"
    by (auto simp: send_def bind_eq_Some_conv Let_def split: if_splits)
  then have "r' = r\<lparr>r_msgs := r_msgs r', r_msgsAfterAppend := r_msgsAfterAppend r'\<rparr>" by auto
  ultimately show "raft_le r r' \<and> (\<exists>a b. r' = r\<lparr>r_msgs := a, r_msgsAfterAppend := b\<rparr>)" by blast
qed

lemma stepVote_le: "post (stepVote m r) (raft_le r)"
proof -
  have aux: "raft_le r (t\<lparr>r_electionElapsed := 0, r_Vote := m_From m\<rparr>)"
    if "raft_le r t" "canVote m r" "m_Type m = MsgVote" "t = r\<lparr>r_msgs := a, r_msgsAfterAppend := b\<rparr>" for t a b
    using that by (auto simp: raft_le_def tv_le_def canVote_def settings_def sent_def)
  show ?thesis
    by (auto simp: stepVote_def post_simps Let_def intro!: calls post_weaken [OF send_to] intro: aux)
qed

lemma storageResp_le:
  "post (stepStorageAppendResp E m r) (raft_le r)" "post (stepStorageApplyResp E m r) (raft_le r)"
  by (auto simp: stepStorageAppendResp_def stepStorageApplyResp_def reduceUncommittedSize_def
    post_simps post_case intro!: calls raft_le_log dest: raft_le_logD)

lemma stepMessage_le:
  assumes "r_Term r \<noteq> maxU64" and "fromLeader m \<Longrightarrow> m_Term m = r_Term r"
  shows "post (stepMessage E m r) (\<lambda>(e, r'). raft_le r r')"
  using stepCandidate_le [OF assms] stepFollower_le [OF assms(1)]
  by (auto simp: stepMessage_def stepLeader_le stepVote_le storageResp_le hup_le [OF assms(1)]
    split: MessageType.split stepFunc.split intro!: noErr_le)

lemma stepHigherTerm_to:
  "r_Term r < m_Term m \<Longrightarrow> post (stepHigherTerm m r) (\<lambda>(b, r'). raft_le r r' \<and>
     (r_Term r' = m_Term m \<or> r_Term r' = r_Term r \<and> \<not> (b \<and> fromLeader m)))"
  unfolding stepHigherTerm_def Let_def
  by (auto simp: post_simps less_imp_le fromLeader_def intro!: calls post_weaken [OF becomeFollower_at])

lemma Step_le:
  assumes "r_Term r \<noteq> maxU64" "m_Term m \<noteq> maxU64" "fromLeader m \<Longrightarrow> m_Term m \<noteq> 0"
  shows "post (Step E m r) (\<lambda>(e, r'). raft_le r r')"
proof (cases "m_Term m = 0 \<or> m_Term m \<le> r_Term r")
  case True
  with assms stepMessage_le [OF assms(1), of m E] noErr_le [OF stepLowerTerm_le] show ?thesis
    by (auto simp: Step_def not_less)
next
  case False
  have "post (stepMessage E m t) (\<lambda>(e, r'). raft_le r r')"
    if "raft_le r t" "r_Term t = m_Term m \<or> r_Term t = r_Term r \<and> \<not> fromLeader m" for t
  proof (rule post_weaken)
    show "post (stepMessage E m t) (\<lambda>(e, r'). raft_le t r')"
      by (rule stepMessage_le) (use that assms in auto)
  qed (use that(1) in \<open>auto intro: raft_le_trans\<close>)
  with False show ?thesis
    by (auto simp: Step_def not_le post_simps post_case intro!: post_weaken [OF stepHigherTerm_to])
qed

section \<open>The clock\<close>

lemma Step_local_le: "r_Term r \<noteq> maxU64 \<Longrightarrow> m_Term m = 0 \<Longrightarrow> \<not> fromLeader m \<Longrightarrow>
    post (Step E m r) (\<lambda>(e, r'). raft_le r r')"
  by (rule Step_le) auto

lemma emptyMessage_Term [simp]: "m_Term emptyMessage = 0"
  by (simp add: emptyMessage_def)

lemma tickElection_le: "r_Term r \<noteq> maxU64 \<Longrightarrow> post (tickElection E r) (raft_le r)"
  by (auto simp: tickElection_def post_simps post_case Let_def fromLeader_def
    intro!: ro.call_pair [OF Step_local_le])

lemma Step_beat_le: "m_Term m = 0 \<Longrightarrow> m_Type m = MsgBeat \<or> m_Type m = MsgCheckQuorum \<Longrightarrow>
    post (Step E m r) (\<lambda>(e, r'). raft_le r r')"
  using stepLeader_le [of E m r]
  by (auto simp: Step_def stepMessage_def stepCandidate_def stepFollower_def post_simps
    split: stepFunc.split intro!: noErr_le)

lemma tickQuorum_le: "post (tickQuorum E r) (raft_le r)"
  by (auto simp: tickQuorum_def post_simps post_case Let_def abortLeaderTransfer_def
    intro!: ro.call_pair [OF Step_beat_le])

lemma tickHeartbeat_le: "post (tickHeartbeat E r) (raft_le r)"
  by (auto simp: tickHeartbeat_def post_simps post_case
    intro!: ro.call [OF tickQuorum_le] ro.call_pair [OF Step_beat_le] intro: raft_le_trans)

lemma tick_le: "r_Term r \<noteq> maxU64 \<Longrightarrow> post (tick E r) (raft_le r)"
  by (auto simp: tick_def tickElection_le tickHeartbeat_le split: tickFunc.split)

end
