(* ===== verification/RaftRoles.thy ===== *)
theory RaftRoles
  imports RaftOrder
begin

text \<open>
  The roles of a node. Sending and replication leave the role, the log, the configuration
  and the recorded votes alone; with that, the transitions between roles are read off the
  handlers: which of them are possible at all, what holds in each role, and what it takes
  to become leader.
\<close>

section \<open>Specification\<close>

text \<open>What sending and replication leave alone.\<close>

definition core :: "raft \<Rightarrow> (RaftState \<times> stepFunc \<times> tickFunc) \<times> (u64 \<times> u64 \<times> u64) \<times> raftLog \<times>
    Config \<times> (u64 \<rightharpoonup> bool)" where
  "core r = ((r_state r, r_step r, r_tick r), (r_Term r, r_Vote r, r_lead r), r_raftLog r,
     t_Config (r_trk r), t_Votes (r_trk r))"

definition voteResps :: "raft \<Rightarrow> Message list" where
  "voteResps r = filter (\<lambda>m. m_Type m = MsgVoteResp) (r_msgsAfterAppend r)"

definition quiet :: "raft \<Rightarrow> raft \<Rightarrow> bool" where
  "quiet r r' \<longleftrightarrow> settings r' = settings r \<and> core r' = core r \<and> voteResps r' = voteResps r"

text \<open>The same without the log: what the handlers in a role leave alone.\<close>

definition roleCore :: "raft \<Rightarrow> (RaftState \<times> stepFunc \<times> tickFunc) \<times> (u64 \<times> u64 \<times> u64) \<times>
    Config \<times> (u64 \<rightharpoonup> bool)" where
  "roleCore r = ((r_state r, r_step r, r_tick r), (r_Term r, r_Vote r, r_lead r),
     t_Config (r_trk r), t_Votes (r_trk r))"

definition steady :: "raft \<Rightarrow> raft \<Rightarrow> bool" where
  "steady r r' \<longleftrightarrow> settings r' = settings r \<and> roleCore r' = roleCore r \<and> voteResps r' = voteResps r"

text \<open>What holds in each role.\<close>

definition role_ok :: "raft \<Rightarrow> bool" where
  "role_ok r \<longleftrightarrow> r_id r \<noteq> None_id \<and>
     (case r_state r of
        StateFollower \<Rightarrow> r_step r = StepFollower \<and> r_tick r = TickElection
      | StatePreCandidate \<Rightarrow> r_step r = StepCandidate \<and> r_tick r = TickElection \<and> r_lead r = None_id
      | StateCandidate \<Rightarrow> r_step r = StepCandidate \<and> r_tick r = TickElection \<and> r_lead r = None_id \<and>
          r_Vote r = r_id r
      | StateLeader \<Rightarrow> r_step r = StepLeader \<and> r_tick r = TickHeartbeat \<and> r_lead r = r_id r \<and>
          r_Vote r = r_id r)"

text \<open>The state right after a transition.\<close>

definition asFollower :: "u64 \<Rightarrow> u64 \<Rightarrow> raft \<Rightarrow> raft \<Rightarrow> bool" where
  "asFollower t lead r r' \<longleftrightarrow> settings r' = settings r \<and>
     roleCore r' = ((StateFollower, StepFollower, TickElection),
       (t, if r_Term r = t then r_Vote r else None_id, lead), t_Config (r_trk r), Map.empty) \<and>
     r_raftLog r' = r_raftLog r \<and> voteResps r' = voteResps r"

definition asCandidate :: "raft \<Rightarrow> raft \<Rightarrow> bool" where
  "asCandidate r r' \<longleftrightarrow> r_state r \<noteq> StateLeader \<and> settings r' = settings r \<and>
     roleCore r' = ((StateCandidate, StepCandidate, TickElection),
       (r_Term r + 1, r_id r, None_id), t_Config (r_trk r), Map.empty) \<and>
     (\<exists>ms. voteResps r' = voteResps r @ ms \<and>
        (\<forall>m \<in> set ms. m_Term m = r_Term r + 1 \<and> m_Term m \<noteq> 0 \<and> m_To m = r_id r \<and> m_From m = r_id r))"

definition asPreCandidate :: "raft \<Rightarrow> raft \<Rightarrow> bool" where
  "asPreCandidate r r' \<longleftrightarrow> r_state r \<noteq> StateLeader \<and> settings r' = settings r \<and>
     roleCore r' = ((StatePreCandidate, StepCandidate, TickElection),
       (r_Term r, r_Vote r, None_id), t_Config (r_trk r), Map.empty) \<and> voteResps r' = voteResps r"

definition asLeader :: "raft \<Rightarrow> raft \<Rightarrow> bool" where
  "asLeader r r' \<longleftrightarrow> r_state r \<noteq> StateFollower \<and> settings r' = settings r \<and>
     roleCore r' = ((StateLeader, StepLeader, TickHeartbeat),
       (r_Term r, r_Vote r, r_id r), t_Config (r_trk r), Map.empty) \<and> voteResps r' = voteResps r"

definition withConfig :: "Config \<Rightarrow> ProgressMap \<Rightarrow> raft \<Rightarrow> raft" where
  "withConfig cfg trk r = r\<lparr>r_trk := (r_trk r)\<lparr>t_Config := cfg, t_Progress := trk\<rparr>\<rparr>"

text \<open>
  What handling a message can do to an election: the votes given out are for the
  candidate the node has voted for in its current term; the votes a candidate has
  counted come, one by one, from responses of its term; and only such a response, the one
  that completes a quorum, makes a candidate a leader.
\<close>

definition counts :: "Message \<Rightarrow> raft \<Rightarrow> bool" where
  "counts m r \<longleftrightarrow> r_state r = StateCandidate \<and> m_Type m = MsgVoteResp \<and> (m_Term m = r_Term r \<or> m_Term m = 0)"

definition votesWith :: "Message \<Rightarrow> raft \<Rightarrow> u64 \<rightharpoonup> bool" where
  "votesWith m r = t_Votes (RecordVote (m_From m) (\<not> m_Reject m) (r_trk r))"

definition elect :: "Message \<Rightarrow> raft \<Rightarrow> raft \<Rightarrow> bool" where
  "elect m r r' \<longleftrightarrow>
     (\<exists>ms. voteResps r' = voteResps r @ ms \<and> (\<forall>m' \<in> set ms. \<not> m_Reject m' \<longrightarrow>
        m_Term m' = r_Term r' \<and> m_Term m' \<noteq> 0 \<and> m_To m' = r_Vote r' \<and> m_From m' = r_id r')) \<and>
     (r_state r' = StateCandidate \<longrightarrow> t_Votes (r_trk r') = Map.empty \<or>
        r_state r = StateCandidate \<and> r_Term r' = r_Term r \<and>
        (t_Votes (r_trk r') = t_Votes (r_trk r) \<or> counts m r \<and> t_Votes (r_trk r') = votesWith m r)) \<and>
     (r_state r' = StateLeader \<longrightarrow> r_Term r' = r_Term r \<and>
        (r_state r = StateLeader \<or>
         counts m r \<and> jc_VoteResult (c_Voters (t_Config (r_trk r))) (votesWith m r) = VoteWon))"

definition localStep :: "raft \<Rightarrow> raft \<Rightarrow> bool" where
  "localStep r r' \<longleftrightarrow> elect (emptyMessage\<lparr>m_Type := MsgHup\<rparr>) r r'"

section \<open>Sending and replication\<close>

interpretation qu: step_preorder quiet
  by unfold_locales (auto simp: quiet_def)

lemma core_update [simp]:
  "core (r\<lparr>r_readStates := a1\<rparr>) = core r" "core (r\<lparr>r_isLearner := a4\<rparr>) = core r"
  "core (r\<lparr>r_leadTransferee := a6\<rparr>) = core r" "core (r\<lparr>r_pendingConfIndex := a6\<rparr>) = core r"
  "core (r\<lparr>r_uncommittedSize := a6\<rparr>) = core r" "core (r\<lparr>r_readOnly := a7\<rparr>) = core r"
  "core (r\<lparr>r_electionElapsed := a8\<rparr>) = core r" "core (r\<lparr>r_heartbeatElapsed := a8\<rparr>) = core r"
  "core (r\<lparr>r_pendingReadIndexMessages := a11\<rparr>) = core r"
  "core (r\<lparr>r_msgs := a12\<rparr>) = core r" "core (r\<lparr>r_msgsAfterAppend := a12\<rparr>) = core r"
  "core (setProgress i pr r) = core r"
  by (simp_all add: core_def setProgress_def)

lemma voteResps_update [simp]:
  "voteResps (r\<lparr>r_readStates := a1\<rparr>) = voteResps r" "voteResps (r\<lparr>r_isLearner := a4\<rparr>) = voteResps r"
  "voteResps (r\<lparr>r_leadTransferee := a6\<rparr>) = voteResps r" "voteResps (r\<lparr>r_pendingConfIndex := a6\<rparr>) = voteResps r"
  "voteResps (r\<lparr>r_uncommittedSize := a6\<rparr>) = voteResps r" "voteResps (r\<lparr>r_readOnly := a7\<rparr>) = voteResps r"
  "voteResps (r\<lparr>r_electionElapsed := a8\<rparr>) = voteResps r" "voteResps (r\<lparr>r_heartbeatElapsed := a8\<rparr>) = voteResps r"
  "voteResps (r\<lparr>r_pendingReadIndexMessages := a11\<rparr>) = voteResps r"
  "voteResps (r\<lparr>r_msgs := a12\<rparr>) = voteResps r" "voteResps (setProgress i pr r) = voteResps r"
  "voteResps (r\<lparr>r_raftLog := a13\<rparr>) = voteResps r" "voteResps (r\<lparr>r_trk := a14\<rparr>) = voteResps r"
  "voteResps (r\<lparr>r_lead := a6\<rparr>) = voteResps r" "voteResps (r\<lparr>r_Vote := a6\<rparr>) = voteResps r"
  "voteResps (r\<lparr>r_step := a15\<rparr>) = voteResps r" "voteResps (r\<lparr>r_tick := a16\<rparr>) = voteResps r"
  "voteResps (r\<lparr>r_state := a17\<rparr>) = voteResps r"
  by (simp_all add: voteResps_def setProgress_def)

lemma settings_more [simp]:
  "settings (r\<lparr>r_readStates := a1\<rparr>) = settings r"
  "settings (r\<lparr>r_pendingReadIndexMessages := a11\<rparr>) = settings r"
  "settings (r\<lparr>r_msgs := a12\<rparr>) = settings r" "settings (r\<lparr>r_msgsAfterAppend := a12\<rparr>) = settings r"
  by (simp_all add: settings_def)

lemma quiet_update [simp]:
  "quiet r (r'\<lparr>r_readStates := a1\<rparr>) = quiet r r'" "quiet (r\<lparr>r_readStates := a1\<rparr>) r' = quiet r r'"
  "quiet r (r'\<lparr>r_leadTransferee := a6\<rparr>) = quiet r r'" "quiet (r\<lparr>r_leadTransferee := a6\<rparr>) r' = quiet r r'"
  "quiet r (r'\<lparr>r_pendingConfIndex := a6\<rparr>) = quiet r r'" "quiet (r\<lparr>r_pendingConfIndex := a6\<rparr>) r' = quiet r r'"
  "quiet r (r'\<lparr>r_uncommittedSize := a6\<rparr>) = quiet r r'" "quiet (r\<lparr>r_uncommittedSize := a6\<rparr>) r' = quiet r r'"
  "quiet r (r'\<lparr>r_readOnly := a7\<rparr>) = quiet r r'" "quiet (r\<lparr>r_readOnly := a7\<rparr>) r' = quiet r r'"
  "quiet r (r'\<lparr>r_electionElapsed := a8\<rparr>) = quiet r r'" "quiet (r\<lparr>r_electionElapsed := a8\<rparr>) r' = quiet r r'"
  "quiet r (r'\<lparr>r_heartbeatElapsed := a8\<rparr>) = quiet r r'" "quiet (r\<lparr>r_heartbeatElapsed := a8\<rparr>) r' = quiet r r'"
  "quiet r (r'\<lparr>r_pendingReadIndexMessages := a11\<rparr>) = quiet r r'"
  "quiet (r\<lparr>r_pendingReadIndexMessages := a11\<rparr>) r' = quiet r r'"
  "quiet r (setProgress i pr r') = quiet r r'" "quiet (setProgress i pr r) r' = quiet r r'"
  by (simp_all add: quiet_def)

named_theorems qcalls \<open>calls that only send and replicate\<close>

lemma send_queue: "post (send m r) (\<lambda>r'. \<exists>m'. m_Type m' = m_Type m \<and> m_To m' = m_To m \<and> m_Reject m' = m_Reject m \<and>
    (m_From m = None_id \<longrightarrow> m_From m' = r_id r) \<and> (m_Type m = MsgVoteResp \<longrightarrow> m_Term m' = m_Term m \<and> m_Term m \<noteq> 0) \<and>
    (r' = r\<lparr>r_msgs := r_msgs r @ [m']\<rparr> \<and> \<not> afterAppend (m_Type m) \<or>
     r' = r\<lparr>r_msgsAfterAppend := r_msgsAfterAppend r @ [m']\<rparr> \<and> afterAppend (m_Type m)))"
proof (rule postI)
  fix r' assume run: "send m r = Some r'"
  let ?m1 = "if m_From m = None_id then m\<lparr>m_From := r_id r\<rparr> else m"
  obtain m2 where m2: "m2 = ?m1 \<or> m2 = ?m1\<lparr>m_Term := r_Term r\<rparr> \<and> m_Type m \<noteq> MsgVoteResp"
    and r': "if afterAppend (m_Type m) then r' = r\<lparr>r_msgsAfterAppend := r_msgsAfterAppend r @ [m2]\<rparr>
      else r' = r\<lparr>r_msgs := r_msgs r @ [m2]\<rparr>"
    using run unfolding send_def Let_def afterAppend_def
    by (simp add: bind_eq_Some_conv split: if_split_asm) blast+
  have nz: "m_Type m = MsgVoteResp \<longrightarrow> m_Term m \<noteq> 0"
    using run by (auto simp: send_def Let_def bind_eq_Some_conv split: if_splits)
  from m2 nz have "m_Type m2 = m_Type m" "m_To m2 = m_To m" "m_Reject m2 = m_Reject m"
    "m_From m = None_id \<longrightarrow> m_From m2 = r_id r"
    "m_Type m = MsgVoteResp \<longrightarrow> m_Term m2 = m_Term m \<and> m_Term m \<noteq> 0"
    by (auto split: if_splits)
  with r' show "\<exists>m'. m_Type m' = m_Type m \<and> m_To m' = m_To m \<and> m_Reject m' = m_Reject m \<and>
    (m_From m = None_id \<longrightarrow> m_From m' = r_id r) \<and> (m_Type m = MsgVoteResp \<longrightarrow> m_Term m' = m_Term m \<and> m_Term m \<noteq> 0) \<and>
    (r' = r\<lparr>r_msgs := r_msgs r @ [m']\<rparr> \<and> \<not> afterAppend (m_Type m) \<or>
     r' = r\<lparr>r_msgsAfterAppend := r_msgsAfterAppend r @ [m']\<rparr> \<and> afterAppend (m_Type m))"
    by (intro exI [of _ m2]) (simp split: if_splits)
qed

lemma send_quiet: "m_Type m \<noteq> MsgVoteResp \<Longrightarrow> post (send m r) (quiet r)"
  by (rule post_weaken [OF send_queue]) (auto simp: quiet_def voteResps_def)

lemmas send_qcall [qcalls] = qu.call [OF send_quiet]

lemma maybeSendSnapshot_quiet: "post (maybeSendSnapshot to pr r) (\<lambda>(b, r'). quiet r r')"
  by (auto simp: maybeSendSnapshot_def post_simps post_case Let_def intro!: pure_calls qcalls)

lemmas maybeSendSnapshot_qcall [qcalls] = qu.call_pair [OF maybeSendSnapshot_quiet]

lemma maybeSendAppend_quiet: "post (maybeSendAppend E to b r) (\<lambda>(b, r'). quiet r r')"
  by (auto simp: maybeSendAppend_def post_simps post_case Let_def intro!: pure_calls qcalls)

lemmas maybeSendAppend_qcall [qcalls] = qu.call_pair [OF maybeSendAppend_quiet]

lemma sendAppend_quiet: "post (sendAppend E to r) (quiet r)"
  by (auto simp: sendAppend_def post_simps post_case intro!: qcalls)

lemmas sendAppend_qcall [qcalls] = qu.call [OF sendAppend_quiet]

lemma sendAppends_quiet: "post (sendAppends E to r) (quiet r)"
proof (rule postI)
  fix r' assume run: "sendAppends E to r = Some r'"
  show "quiet r r'"
  proof (rule sendAppends.raw_induct [where P = "\<lambda>E to r r'. quiet r r'", OF _ run])
    fix f E to r r'
    assume "\<And>E to r r'. f E to r = Some r' \<Longrightarrow> quiet r r'"
      "Option.bind (maybeSendAppend E to False r) (\<lambda>x. if fst x then f E to (snd x) else Some (snd x)) = Some r'"
    then show "quiet r r'"
      using postD [OF maybeSendAppend_quiet [of E to False r]]
      by (fastforce simp: bind_eq_Some_conv split: if_splits intro: qu.step_trans)
  qed
qed

lemma Visit_quiet:
  assumes "\<And>i t. quiet r t \<Longrightarrow> post (f i t) (quiet t)" shows "post (Visit f p r) (quiet r)"
  unfolding Visit_def by (rule qu.post_foldO) (rule assms)

lemma sendHeartbeat_quiet: "post (sendHeartbeat to c r) (quiet r)"
  by (auto simp: sendHeartbeat_def post_simps Let_def intro!: pure_calls qcalls)

lemma bcastAppend_quiet: "post (bcastAppend E r) (quiet r)"
  unfolding bcastAppend_def by (rule Visit_quiet) (auto simp: post_simps intro!: sendAppend_quiet)

lemma bcastHeartbeat_quiet: "post (bcastHeartbeat r) (quiet r)"
  unfolding bcastHeartbeat_def bcastHeartbeatWithCtx_def
  by (rule Visit_quiet) (auto simp: post_simps intro!: sendHeartbeat_quiet)

lemmas replication_qcalls [qcalls] =
  qu.call [OF sendAppends_quiet] qu.call [OF bcastAppend_quiet] qu.call [OF bcastHeartbeat_quiet]

lemma sendTimeoutNow_quiet: "post (sendTimeoutNow to r) (quiet r)"
  unfolding sendTimeoutNow_def by (rule send_quiet) simp

lemma respondReadIndex_quiet: "post (respondReadIndex m i r) (quiet r)"
  by (auto simp: respondReadIndex_def responseToReadIndexReq_def emptyMessage_def post_simps post_case intro!: pure_calls qcalls)

lemmas respond_qcalls [qcalls] = qu.call [OF sendTimeoutNow_quiet] qu.call [OF respondReadIndex_quiet]

lemma sendMsgReadIndexResponse_quiet: "post (sendMsgReadIndexResponse m r) (quiet r)"
  by (auto simp: sendMsgReadIndexResponse_def post_simps Let_def split: ReadOnlyOption.split
    intro!: pure_calls qcalls)

lemma releasePendingReadIndexMessages_quiet: "post (releasePendingReadIndexMessages r) (quiet r)"
  by (auto simp: releasePendingReadIndexMessages_def post_simps
    intro!: pure_calls qu.call [OF qu.post_foldO [OF sendMsgReadIndexResponse_quiet]])

lemma ackTransfer_quiet: "post (ackTransfer m r) (quiet r)"
  by (auto simp: ackTransfer_def post_simps intro!: pure_calls qcalls)

lemma leaderAppRespReject_quiet: "post (leaderAppRespReject E m pr r) (quiet r)"
  by (auto simp: leaderAppRespReject_def post_simps post_case Let_def intro!: pure_calls qcalls)

lemma leaderHeartbeatResp_quiet: "post (leaderHeartbeatResp E m pr r) (quiet r)"
  by (auto simp: leaderHeartbeatResp_def post_simps post_case Let_def
      intro!: pure_calls qcalls qu.call [OF qu.post_foldO [OF respondReadIndex_quiet]] intro: qu.step_trans)

lemma leaderTransfer_quiet: "post (leaderTransfer E m pr r) (quiet r)"
  unfolding leaderTransfer_def Let_def
  by (auto simp: post_simps abortLeaderTransfer_def intro!: pure_calls qcalls)

lemma leaderReadIndex_quiet: "post (leaderReadIndex m r) (quiet r)"
  by (auto simp: leaderReadIndex_def post_simps intro!: pure_calls qcalls qu.call [OF sendMsgReadIndexResponse_quiet])

lemma proposeEntries_quiet: "post (proposeEntries E i es r) (\<lambda>(es', r'). quiet r r')"
proof (induction E i es r rule: proposeEntries.induct)
  case (2 E i e es r)
  have "post (proposeEntry E i e r) (\<lambda>(e', r'). quiet r r')"
    by (auto simp: proposeEntry_def post_simps post_case intro!: pure_calls)
  with 2 show ?case by (fastforce simp: post_def bind_eq_Some_conv intro: qu.step_trans)
qed (simp add: post_simps)

section \<open>Handlers that keep the role\<close>

interpretation sr: step_preorder steady
  by unfold_locales (auto simp: steady_def)

lemma quiet_steady: "quiet r r' \<Longrightarrow> steady r r'"
  by (auto simp: quiet_def steady_def core_def roleCore_def)

lemma roleCore_update [simp]:
  "roleCore (r\<lparr>r_raftLog := l\<rparr>) = roleCore r" "roleCore (setProgress i pr r) = roleCore r"
  "roleCore (r\<lparr>r_uncommittedSize := a\<rparr>) = roleCore r" "roleCore (r\<lparr>r_pendingConfIndex := a\<rparr>) = roleCore r"
  "roleCore (r\<lparr>r_readStates := b\<rparr>) = roleCore r" "roleCore (r\<lparr>r_isLearner := c\<rparr>) = roleCore r"
  "roleCore (r\<lparr>r_leadTransferee := a\<rparr>) = roleCore r" "roleCore (r\<lparr>r_electionElapsed := n\<rparr>) = roleCore r"
  by (simp_all add: roleCore_def setProgress_def)

lemma steady_update [simp]:
  "steady r (r'\<lparr>r_raftLog := l\<rparr>) = steady r r'" "steady (r\<lparr>r_raftLog := l\<rparr>) r' = steady r r'"
  "steady r (setProgress i pr r') = steady r r'" "steady (setProgress i pr r) r' = steady r r'"
  "steady r (r'\<lparr>r_uncommittedSize := a\<rparr>) = steady r r'" "steady (r\<lparr>r_uncommittedSize := a\<rparr>) r' = steady r r'"
  "steady r (r'\<lparr>r_pendingConfIndex := a\<rparr>) = steady r r'" "steady (r\<lparr>r_pendingConfIndex := a\<rparr>) r' = steady r r'"
  "steady r (r'\<lparr>r_readStates := b\<rparr>) = steady r r'" "steady (r\<lparr>r_readStates := b\<rparr>) r' = steady r r'"
  "steady r (r'\<lparr>r_isLearner := c\<rparr>) = steady r r'" "steady (r\<lparr>r_isLearner := c\<rparr>) r' = steady r r'"
  "steady r (r'\<lparr>r_leadTransferee := a\<rparr>) = steady r r'" "steady (r\<lparr>r_leadTransferee := a\<rparr>) r' = steady r r'"
  "steady r (r'\<lparr>r_electionElapsed := n\<rparr>) = steady r r'" "steady (r\<lparr>r_electionElapsed := n\<rparr>) r' = steady r r'"
  by (simp_all add: steady_def)

named_theorems scalls \<open>calls that keep the role\<close>

text \<open>A call that is quiet, or that only changes the log.\<close>

lemma quiet_scall: "post X (quiet r) \<Longrightarrow> (\<And>t. steady r t \<Longrightarrow> P t) \<Longrightarrow> post X P"
  by (auto simp: post_def dest!: quiet_steady)

lemma quiet_scall_pair: "post X (\<lambda>(a, t). quiet r t) \<Longrightarrow> (\<And>a t. steady r t \<Longrightarrow> P (a, t)) \<Longrightarrow> post X P"
  by (auto simp: post_def dest!: quiet_steady)

lemmas quiet_scalls [scalls] =
  quiet_scall [OF send_quiet] quiet_scall [OF sendAppend_quiet] quiet_scall [OF sendAppends_quiet]
  quiet_scall [OF bcastAppend_quiet] quiet_scall [OF bcastHeartbeat_quiet]
  quiet_scall [OF releasePendingReadIndexMessages_quiet] quiet_scall [OF ackTransfer_quiet]
  quiet_scall_pair [OF maybeSendAppend_quiet] quiet_scall_pair [OF proposeEntries_quiet]

lemmas log_scalls [scalls] =
  postI [of "l_commitTo c l" for c l] postI [of "l_append es l" for es l] postI [of "l_maybeCommit e l" for e l]
  postI [of "l_appliedTo i n l" for i n l] postI [of "l_stableTo e l" for e l]
  postI [of "l_maybeAppend a c l" for a c l]

lemma raft_maybeCommit_steady: "post (raft_maybeCommit r) (\<lambda>(b, r'). steady r r')"
  by (auto simp: raft_maybeCommit_def post_simps post_case intro!: scalls)

lemma appendEntry_steady: "post (appendEntry es r) (\<lambda>(b, r'). steady r r')"
  by (auto simp: appendEntry_def increaseUncommittedSize_def post_simps post_case Let_def
    split: if_splits intro!: pure_calls scalls)

lemmas append_scalls [scalls] =
  sr.call_pair [OF raft_maybeCommit_steady] sr.call_pair [OF appendEntry_steady]

lemma leaderProp_steady: "post (leaderProp E m r) (\<lambda>(e, r'). steady r r')"
  by (auto simp: leaderProp_def post_simps post_case intro!: scalls intro: sr.step_trans)

lemma followerProp_steady: "m_Type m = MsgProp \<Longrightarrow> post (followerProp m r) (\<lambda>(e, r'). steady r r')"
  by (auto simp: followerProp_def post_simps intro!: scalls)

lemma stepProp_steady: "m_Type m = MsgProp \<Longrightarrow> post (stepProp E m r) (\<lambda>(e, r'). steady r r')"
  by (auto simp: stepProp_def post_simps leaderProp_steady followerProp_steady split: stepFunc.split)

lemma confChangeToMsg_prop: "confChangeToMsg E c = Some m \<Longrightarrow> m_Type m = MsgProp"
  by (auto simp: confChangeToMsg_def bind_eq_Some_conv)

lemma raft_appliedTo_steady: "post (raft_appliedTo E i n r) (steady r)"
  by (auto simp: raft_appliedTo_def post_simps post_case Let_def
    intro!: pure_calls scalls sr.call_pair [OF stepProp_steady] dest: confChangeToMsg_prop)

lemma appliedSnap_steady: "post (appliedSnap E s r) (steady r)"
  unfolding appliedSnap_def by (rule post_weaken [OF raft_appliedTo_steady]) simp

lemma storageResp_steady:
  "post (stepStorageAppendResp E m r) (steady r)" "post (stepStorageApplyResp E m r) (steady r)"
  by (auto simp: stepStorageAppendResp_def stepStorageApplyResp_def reduceUncommittedSize_def
    post_simps post_case intro!: pure_calls scalls sr.call [OF raft_appliedTo_steady] sr.call [OF appliedSnap_steady])

lemma handleAppendEntries_steady: "post (handleAppendEntries m r) (steady r)"
  unfolding handleAppendEntries_def Let_def
  by (auto simp: post_simps post_case intro!: pure_calls scalls)

lemma handleHeartbeat_steady: "post (handleHeartbeat m r) (steady r)"
  by (auto simp: handleHeartbeat_def post_simps intro!: scalls)

lemma ackCommit_steady: "post (ackCommit E m r) (steady r)"
  by (auto simp: ackCommit_def post_simps post_case intro!: pure_calls scalls intro: sr.step_trans)

lemma leaderAppRespAccept_steady: "post (leaderAppRespAccept E m pr r) (steady r)"
  by (auto simp: leaderAppRespAccept_def post_simps post_case Let_def
      intro!: pure_calls scalls sr.call [OF ackCommit_steady] intro: sr.step_trans)

lemma leaderFromPeer_steady: "post (leaderFromPeer E m r) (steady r)"
  using quiet_scall [OF leaderAppRespReject_quiet, of r "steady r" E m]
    quiet_scall [OF leaderHeartbeatResp_quiet, of r "steady r" E m]
    quiet_scall [OF leaderTransfer_quiet, of r "steady r" E m]
  by (auto simp: leaderFromPeer_def leaderAppResp_def post_simps Let_def
      leaderAppRespAccept_steady leaderSnapStatus_def leaderUnreachable_def split: option.split MessageType.split)

lemma stepLowerTerm_steady: "post (stepLowerTerm E m r) (steady r)"
  by (auto simp: stepLowerTerm_def post_simps post_case intro!: pure_calls scalls sr.call [OF appliedSnap_steady])

section \<open>Becoming follower, candidate and leader\<close>

lemma becomeFollower_as: "post (becomeFollower t lead r) (asFollower t lead r)"
  by (rule post_weaken [OF becomeFollower_to]) (auto simp: asFollower_def reset_to_def roleCore_def voteResps_def)

lemma settings_id: "settings r' = settings r \<Longrightarrow> r_id r' = r_id r"
  by (simp add: settings_def)

lemma becomeCandidate_as: "post (becomeCandidate r) (asCandidate r)"
  by (rule post_weaken [OF becomeCandidate_to])
    (auto simp: asCandidate_def reset_to_def roleCore_def voteResps_def dest: settings_id)

lemma becomePreCandidate_as: "post (becomePreCandidate r) (asPreCandidate r)"
  by (auto simp: becomePreCandidate_def post_simps asPreCandidate_def roleCore_def ResetVotes_def)

lemma becomeLeader_as: "post (becomeLeader r) (asLeader r)"
  by (auto simp: becomeLeader_def post_simps post_case Let_def intro!: pure_calls scalls
      post_weaken [OF raft_reset_to])
    (auto simp: asLeader_def steady_def reset_to_def roleCore_def voteResps_def dest: settings_id)

lemma as_steady:
  "asCandidate r s \<Longrightarrow> steady s t \<Longrightarrow> asCandidate r t" "asPreCandidate r s \<Longrightarrow> steady s t \<Longrightarrow> asPreCandidate r t"
  "asLeader r s \<Longrightarrow> steady s t \<Longrightarrow> asLeader r t"
  by (auto simp: asCandidate_def asPreCandidate_def asLeader_def steady_def)

text \<open>The response a candidate sends to itself is the only vote of a campaign.\<close>

lemma campaignSend_steady: "v = MsgPreVote \<Longrightarrow> post (campaignSend t n v i r) (steady r)"
  by (auto simp: campaignSend_def voteRespMsgType_def post_simps Let_def intro!: pure_calls scalls)

lemma campaignSend_as:
  assumes "asCandidate r0 r" shows "post (campaignSend t (r_Term r) MsgVote i r) (asCandidate r0)"
proof -
  have i: "r_id r = r_id r0" "r_Term r = r_Term r0 + 1"
    using assms by (auto simp: asCandidate_def roleCore_def dest: settings_id)
  have aux: "asCandidate r0 (r\<lparr>r_msgsAfterAppend := r_msgsAfterAppend r @ [m]\<rparr>)"
    if "m_Type m = MsgVoteResp" "m_To m = r_id r" "m_From m = r_id r" "m_Term m = r_Term r" "m_Term m \<noteq> 0" for m
    using assms that i by (auto simp: asCandidate_def roleCore_def voteResps_def)
  have aux2: "asCandidate r0 (r\<lparr>r_msgs := ms\<rparr>)" for ms
    using assms by (auto simp: asCandidate_def roleCore_def)
  show ?thesis
    using assms by (auto simp: campaignSend_def voteRespMsgType_def post_simps Let_def afterAppend_def
      emptyMessage_def intro!: pure_calls post_weaken [OF send_queue] aux aux2)
qed

lemma campaign_as: "post (campaign t r) (\<lambda>r'. asCandidate r r' \<and> t \<noteq> campaignPreElection \<or>
    asPreCandidate r r' \<and> t = campaignPreElection)"
proof (cases "t = campaignPreElection")
  case True
  then show ?thesis
    by (auto simp: campaign_def post_simps post_case Let_def
      intro!: post_weaken [OF becomePreCandidate_as] sr.call [OF sr.post_foldO [OF campaignSend_steady]]
      intro: as_steady)
next
  case False
  have "post (foldO (campaignSend t n MsgVote) ids s) (asCandidate r)" if "asCandidate r s" "n = r_Term s" for ids s n
  proof (rule postI)
    fix x assume "foldO (campaignSend t n MsgVote) ids s = Some x"
    then have "asCandidate r x \<and> r_Term x = n"
    proof (rule foldO_invariant)
      fix i u v assume u: "asCandidate r u \<and> r_Term u = n" "campaignSend t n MsgVote i u = Some v"
      then have "asCandidate r v" using postD [OF campaignSend_as, of r u t i v] by auto
      with u show "asCandidate r v \<and> r_Term v = n" by (clarsimp simp: asCandidate_def roleCore_def)
    qed (use that in auto)
    then show "asCandidate r x" by simp
  qed
  with False show ?thesis
    by (auto simp: campaign_def post_simps post_case Let_def intro!: post_weaken [OF becomeCandidate_as])
qed

lemma hup_as: "post (hup E t r) (\<lambda>r'. r' = r \<or> asCandidate r r' \<or> asPreCandidate r r')"
  by (auto simp: hup_def post_simps intro!: pure_calls post_weaken [OF campaign_as])

section \<open>The invariant of the roles\<close>

lemma maybeSend_all_quiet: "post (Visit (\<lambda>i r'. if i = r_id r' then Some r'
    else do { (_, r'') \<leftarrow> maybeSendAppend E i False r'; Some r'' }) p r) (quiet r)"
  by (rule Visit_quiet) (auto simp: post_simps post_case intro!: qcalls)

lemma asFollower_learner: "asFollower t lead (r\<lparr>r_isLearner := b\<rparr>) r' = asFollower t lead r r'"
  by (simp add: asFollower_def)

lemma switchToConfig_as: "post (switchToConfig E cfg trk r) (\<lambda>(cs, r').
    steady (withConfig cfg trk r) r' \<or>
    r_state r = StateLeader \<and> asFollower (r_Term r) None_id (withConfig cfg trk r) r')"
  unfolding switchToConfig_def Let_def withConfig_def [symmetric]
  by (auto simp: post_simps post_case abortLeaderTransfer_def asFollower_learner
      intro!: scalls quiet_scall [OF maybeSend_all_quiet] post_weaken [OF becomeFollower_as] intro: sr.step_trans)
    (auto simp: withConfig_def)

lemma role_ok_steady: "steady r r' \<Longrightarrow> role_ok r' = role_ok r"
  by (auto simp: steady_def role_ok_def roleCore_def dest!: settings_id split: RaftState.split)

lemma role_ok_config [simp]: "role_ok (withConfig cfg trk r) = role_ok r"
  "role_ok (r\<lparr>r_trk := p\<rparr>) = role_ok r" "role_ok (r\<lparr>r_raftLog := l\<rparr>) = role_ok r"
  by (simp_all add: role_ok_def withConfig_def split: RaftState.split)

lemma role_ok_as:
  "asFollower t lead r r' \<Longrightarrow> role_ok r \<Longrightarrow> role_ok r'" "asCandidate r r' \<Longrightarrow> role_ok r \<Longrightarrow> role_ok r'"
  "asPreCandidate r r' \<Longrightarrow> role_ok r \<Longrightarrow> role_ok r'"
  "asLeader r r' \<Longrightarrow> role_ok r \<Longrightarrow> r_state r = StateCandidate \<Longrightarrow> role_ok r'"
  by (auto simp: role_ok_def asFollower_def asCandidate_def asPreCandidate_def asLeader_def roleCore_def
    dest!: settings_id)

lemma raft_restore_role: "role_ok r \<Longrightarrow> post (raft_restore E s r) (\<lambda>(b, r'). role_ok r')"
  unfolding raft_restore_def Let_def
  by (auto simp: post_simps post_case role_ok_steady
      intro!: pure_calls scalls post_weaken [OF becomeFollower_as] post_weaken [OF switchToConfig_as]
      dest: role_ok_as)

lemma handle_role:
  "role_ok r \<Longrightarrow> post (handleAppendEntries m r) role_ok" "role_ok r \<Longrightarrow> post (handleHeartbeat m r) role_ok"
  by (auto intro: post_weaken [OF handleAppendEntries_steady] post_weaken [OF handleHeartbeat_steady]
    simp: role_ok_steady)

lemma handleSnapshot_role: "role_ok r \<Longrightarrow> post (handleSnapshot E m r) role_ok"
  by (auto simp: handleSnapshot_def post_simps post_case Let_def role_ok_steady
    intro!: pure_calls scalls post_weaken [OF raft_restore_role])

lemma noErr_role: "post X role_ok \<Longrightarrow> post (noErr X) (\<lambda>(e, r'). role_ok r')"
  by (simp add: noErr_def post_simps)

lemma deactivate_quiet: "post (Visit (\<lambda>i r'. if i \<noteq> r_id r' then do {
      pr \<leftarrow> getProgress i r'; Some (setProgress i (pr\<lparr>pr_RecentActive := False\<rparr>) r')
    } else Some r') p r) (quiet r)"
  by (rule Visit_quiet) (auto simp: post_simps intro!: pure_calls)

lemma leaderCheckQuorum_role: "role_ok r \<Longrightarrow> post (leaderCheckQuorum r) role_ok"
  unfolding leaderCheckQuorum_def
  by (simp add: post_simps)
    (auto simp: role_ok_steady intro!: pure_calls post_weaken [OF becomeFollower_as]
      quiet_scall [OF deactivate_quiet] dest: role_ok_as)

lemma stepLeader_role: "role_ok r \<Longrightarrow> post (stepLeader E m r) (\<lambda>(e, r'). role_ok r')"
  using post_weaken [OF leaderProp_steady, of r "\<lambda>(e, r'). role_ok r'" E m]
  by (auto simp: stepLeader_def post_simps role_ok_steady leaderCheckQuorum_role split: MessageType.split
      intro!: noErr_role quiet_scall [OF bcastHeartbeat_quiet] quiet_scall [OF leaderReadIndex_quiet]
        sr.call [OF leaderFromPeer_steady])

lemma hup_role: "role_ok r \<Longrightarrow> post (hup E t r) role_ok"
  by (auto intro!: post_weaken [OF hup_as] dest: role_ok_as)

lemma followerProp_role: "m_Type m = MsgProp \<Longrightarrow> role_ok r \<Longrightarrow> post (followerProp m r) (\<lambda>(e, r'). role_ok r')"
  by (auto intro!: post_weaken [OF followerProp_steady] simp: role_ok_steady)

lemma stepFollower_role: "role_ok r \<Longrightarrow> r_state r = StateFollower \<Longrightarrow> post (stepFollower E m r) (\<lambda>(e, r'). role_ok r')"
proof -
  assume r: "role_ok r" "r_state r = StateFollower"
  have upd: "role_ok (r\<lparr>r_electionElapsed := n, r_lead := l\<rparr>)" "role_ok (r\<lparr>r_lead := l\<rparr>)"
    "role_ok (followerReadIndexResp m r)" for n l
    using r by (auto simp: role_ok_def followerReadIndexResp_def split: list.split)
  show ?thesis
    using r unfolding stepFollower_def Let_def
    by (auto simp: post_simps upd followerProp_role role_ok_steady handleSnapshot_role handle_role hup_role split: MessageType.split
        intro!: noErr_role scalls)
qed

lemma candidateVoteResp_role:
  assumes "role_ok r" "r_step r = StepCandidate" shows "post (candidateVoteResp E m r) role_ok"
proof -
  have st: "r_state r = StateCandidate \<or> r_state r = StatePreCandidate"
    using assms by (auto simp: role_ok_def split: RaftState.splits)
  from assms(1) st show ?thesis
    unfolding candidateVoteResp_def poll_def Let_def
    by (auto simp: post_simps role_ok_steady split: VoteResult.split prod.split
        intro!: post_weaken [OF campaign_as] post_weaken [OF becomeLeader_as] post_weaken [OF becomeFollower_as]
          scalls dest: role_ok_as)
qed

lemma stepCandidate_role:
  "role_ok r \<Longrightarrow> r_step r = StepCandidate \<Longrightarrow> post (stepCandidate E m r) (\<lambda>(e, r'). role_ok r')"
  unfolding stepCandidate_def Let_def
  by (auto simp: post_simps handleSnapshot_role handle_role candidateVoteResp_role split: MessageType.split
      intro!: noErr_role post_weaken [OF becomeFollower_as] handleSnapshot_role handle_role dest: role_ok_as)

lemma role_state: "role_ok r \<Longrightarrow> r_step r = StepFollower \<longleftrightarrow> r_state r = StateFollower"
  by (auto simp: role_ok_def split: RaftState.splits)

lemma stepVote_role: "role_ok r \<Longrightarrow> post (stepVote m r) role_ok"
proof -
  assume r: "role_ok r"
  have aux: "role_ok (t\<lparr>r_electionElapsed := 0, r_Vote := m_From m\<rparr>)"
    if t: "t = r\<lparr>r_msgs := a, r_msgsAfterAppend := b\<rparr>" and "canVote m r" "m_Type m = MsgVote" for t a b
    using r that by (auto simp: role_ok_def canVote_def split: RaftState.splits)
  have send: "role_ok t" if "t = r\<lparr>r_msgs := a, r_msgsAfterAppend := b\<rparr>" for t a b
    using r that by (auto simp: role_ok_def split: RaftState.splits)
  show ?thesis
    by (auto simp: stepVote_def post_simps Let_def intro!: pure_calls post_weaken [OF send_to] intro: aux send)
qed

lemma stepMessage_role: "role_ok r \<Longrightarrow> post (stepMessage E m r) (\<lambda>(e, r'). role_ok r')"
  by (auto simp: stepMessage_def stepLeader_role stepCandidate_role stepFollower_role role_state stepVote_role
    hup_role role_ok_steady split: MessageType.split stepFunc.split
    intro!: noErr_role sr.call [OF storageResp_steady(1)] sr.call [OF storageResp_steady(2)])

lemma stepHigherTerm_role: "role_ok r \<Longrightarrow> post (stepHigherTerm m r) (\<lambda>(b, r'). role_ok r')"
  unfolding stepHigherTerm_def Let_def
  by (auto simp: post_simps intro!: pure_calls post_weaken [OF becomeFollower_as] dest: role_ok_as)

lemma Step_role: "role_ok r \<Longrightarrow> post (Step E m r) (\<lambda>(e, r'). role_ok r')"
  by (auto simp: Step_def post_simps post_case stepMessage_role role_ok_steady
    intro!: noErr_role post_weaken [OF stepHigherTerm_role] sr.call [OF stepLowerTerm_steady])

lemma role_ok_elapsed [simp]:
  "role_ok (r\<lparr>r_electionElapsed := n\<rparr>) = role_ok r" "role_ok (r\<lparr>r_heartbeatElapsed := n\<rparr>) = role_ok r"
  "role_ok (r\<lparr>r_leadTransferee := i\<rparr>) = role_ok r"
  by (simp_all add: role_ok_def split: RaftState.split)

lemma tick_role: "role_ok r \<Longrightarrow> post (tick E r) role_ok"
  by (auto simp: tick_def tickElection_def tickHeartbeat_def tickQuorum_def abortLeaderTransfer_def
    post_simps post_case Let_def split: tickFunc.split intro!: post_weaken [OF Step_role])

lemma applyConfChange_role: "role_ok r \<Longrightarrow> post (applyConfChange E cc r) (\<lambda>(cs, r'). role_ok r')"
  by (auto simp: applyConfChange_def post_simps post_case Let_def role_ok_steady
    intro!: pure_calls post_weaken [OF switchToConfig_as] dest: role_ok_as)

section \<open>Votes and leadership\<close>

lemma elect_steady: "steady r r' \<Longrightarrow> elect m r r'"
  by (auto simp: elect_def steady_def roleCore_def)

lemma elect_follower: "r_state r' = StateFollower \<Longrightarrow> voteResps r' = voteResps r \<Longrightarrow> elect m r r'"
  by (simp add: elect_def)

lemma elect_as:
  "asFollower t l r r' \<Longrightarrow> elect m r r'" "asCandidate r r' \<Longrightarrow> elect m r r'" "asPreCandidate r r' \<Longrightarrow> elect m r r'"
  by (auto simp: elect_def asFollower_def asCandidate_def asPreCandidate_def roleCore_def
      dest!: settings_id dest: bspec)

lemma elect_then_steady: "elect m r s \<Longrightarrow> steady s t \<Longrightarrow> elect m r t"
  by (auto simp: elect_def steady_def roleCore_def dest!: settings_id)

lemma elect_from_follower:
  "r_state s = StateFollower \<Longrightarrow> voteResps s = voteResps r \<Longrightarrow> elect m s t \<Longrightarrow> elect m r t"
  by (auto simp: elect_def counts_def)

lemma noErr_elect: "post X (elect m r) \<Longrightarrow> post (noErr X) (\<lambda>(e, r'). elect m r r')"
  by (simp add: noErr_def post_simps)

text \<open>A follower that restores a snapshot stays one.\<close>

lemma raft_restore_follower: "r_state r = StateFollower \<Longrightarrow>
    post (raft_restore E s r) (\<lambda>(b, r'). r_state r' = StateFollower \<and> voteResps r' = voteResps r)"
  unfolding raft_restore_def Let_def
  by (auto simp: post_simps post_case
      intro!: pure_calls scalls post_weaken [OF switchToConfig_as])
    (auto simp: withConfig_def steady_def roleCore_def)

lemma handle_follower: "r_state r = StateFollower \<Longrightarrow>
    post (handleSnapshot E m r) (\<lambda>r'. r_state r' = StateFollower \<and> voteResps r' = voteResps r)"
  "r_state r = StateFollower \<Longrightarrow>
    post (handleAppendEntries m r) (\<lambda>r'. r_state r' = StateFollower \<and> voteResps r' = voteResps r)"
  "r_state r = StateFollower \<Longrightarrow>
    post (handleHeartbeat m r) (\<lambda>r'. r_state r' = StateFollower \<and> voteResps r' = voteResps r)"
proof -
  assume f: "r_state r = StateFollower"
  have st: "r_state r' = StateFollower \<and> voteResps r' = voteResps r" if "steady r r'" for r'
    using that f by (auto simp: steady_def roleCore_def)
  show "post (handleAppendEntries m r) (\<lambda>r'. r_state r' = StateFollower \<and> voteResps r' = voteResps r)"
    by (rule post_weaken [OF handleAppendEntries_steady]) (rule st)
  show "post (handleHeartbeat m r) (\<lambda>r'. r_state r' = StateFollower \<and> voteResps r' = voteResps r)"
    by (rule post_weaken [OF handleHeartbeat_steady]) (rule st)
  show "post (handleSnapshot E m r) (\<lambda>r'. r_state r' = StateFollower \<and> voteResps r' = voteResps r)"
    unfolding handleSnapshot_def Let_def
    by (auto simp: post_simps post_case intro!: pure_calls scalls post_weaken [OF raft_restore_follower [OF f]])
      (auto simp: steady_def roleCore_def)
qed

lemma leaderCheckQuorum_elect: "post (leaderCheckQuorum r) (elect m r)"
  unfolding leaderCheckQuorum_def
  by (simp add: post_simps)
    (auto intro!: pure_calls post_weaken [OF becomeFollower_as] quiet_scall [OF deactivate_quiet]
      intro: elect_as elect_steady elect_then_steady)

lemma stepLeader_elect: "post (stepLeader E m r) (\<lambda>(e, r'). elect m r r')"
  using post_weaken [OF leaderProp_steady, of r "\<lambda>(e, r'). elect m r r'" E m]
  by (auto simp: stepLeader_def post_simps leaderCheckQuorum_elect split: MessageType.split
      intro!: noErr_elect quiet_scall [OF bcastHeartbeat_quiet] quiet_scall [OF leaderReadIndex_quiet]
        sr.call [OF leaderFromPeer_steady] elect_steady)

lemma hup_elect: "post (hup E t r) (elect m r)"
  by (rule post_weaken [OF hup_as]) (auto intro: elect_as elect_steady)

lemma stepFollower_elect: "r_state r = StateFollower \<Longrightarrow> post (stepFollower E m r) (\<lambda>(e, r'). elect m r r')"
proof -
  assume r: "r_state r = StateFollower"
  have fp: "m_Type m = MsgProp \<Longrightarrow> post (followerProp m r) (\<lambda>(e, r'). elect m r r')"
    by (rule post_weaken [OF followerProp_steady]) (auto intro: elect_steady)
  have fin: "elect m r x" if "r_state x = StateFollower \<and> voteResps x = voteResps r" for x
    using that by (auto intro: elect_follower)
  show ?thesis
    using r unfolding stepFollower_def Let_def
    by (auto simp: post_simps fp hup_elect followerReadIndexResp_def split: MessageType.split list.split
        intro!: noErr_elect scalls elect_steady fin post_weaken [OF handle_follower(1)]
          post_weaken [OF handle_follower(2)] post_weaken [OF handle_follower(3)])
      (auto simp: steady_def roleCore_def)
qed

lemma elect_record:
  "elect m (r\<lparr>r_trk := RecordVote i v (r_trk r)\<rparr>) r' \<Longrightarrow> r_state r' = StateFollower \<or> t_Votes (r_trk r') = Map.empty \<Longrightarrow>
    r_state r' \<noteq> StateLeader \<Longrightarrow> elect m r r'"
  by (auto simp: elect_def)

lemma elect_won:
  assumes "asLeader (r\<lparr>r_trk := RecordVote (m_From m) (\<not> m_Reject m) (r_trk r)\<rparr>) r1" "steady r1 r'" "counts m r"
    "jc_VoteResult (c_Voters (t_Config (r_trk r))) (votesWith m r) = VoteWon"
  shows "elect m r r'"
  using assms by (auto simp: elect_def asLeader_def steady_def roleCore_def)

lemma elect_counted: "counts m r \<or> r_state r \<noteq> StateCandidate \<and> r_state r \<noteq> StateLeader \<Longrightarrow>
    elect m r (r\<lparr>r_trk := RecordVote (m_From m) (\<not> m_Reject m) (r_trk r)\<rparr>)"
  by (auto simp: elect_def counts_def votesWith_def)

lemma RecordVote_Config [simp]: "t_Config (RecordVote i v p) = t_Config p"
  by (simp add: RecordVote_def split: option.split)

lemma candidateVoteResp_elect:
  assumes st: "counts m r \<or> r_state r = StatePreCandidate" shows "post (candidateVoteResp E m r) (elect m r)"
proof -
  let ?r1 = "r\<lparr>r_trk := RecordVote (m_From m) (\<not> m_Reject m) (r_trk r)\<rparr>"
  have cand: "elect m r r'" if "asCandidate ?r1 r'" for r'
    using that by (intro elect_record [OF elect_as(2)]) (auto simp: asCandidate_def roleCore_def)
  have fol: "elect m r r'" if "asFollower t l ?r1 r'" for t l r'
    using that by (intro elect_record [OF elect_as(1)]) (auto simp: asFollower_def roleCore_def)
  have won: "snd (snd (TallyVotes (r_trk ?r1))) = jc_VoteResult (c_Voters (t_Config (r_trk r))) (votesWith m r)"
    by (simp add: TallyVotes_def votesWith_def Let_def)
  from st won show ?thesis
    unfolding candidateVoteResp_def poll_def Let_def
    by (auto simp: post_simps counts_def split: VoteResult.split prod.split
        intro!: post_weaken [OF campaign_as] post_weaken [OF becomeLeader_as] post_weaken [OF becomeFollower_as]
          scalls elect_counted intro: cand fol elect_won)
qed

lemma stepCandidate_elect:
  assumes ok: "role_ok r" "r_step r = StepCandidate"
    and ter: "m_Type m = MsgVoteResp \<longrightarrow> m_Term m = r_Term r \<or> m_Term m = 0"
  shows "post (stepCandidate E m r) (\<lambda>(e, r'). elect m r r')"
proof -
  have st: "r_state r = StateCandidate \<or> r_state r = StatePreCandidate"
    using ok by (auto simp: role_ok_def split: RaftState.splits)
  have fol: "post (becomeFollower t l r) (\<lambda>x. post (f x) (elect m r))"
    if "\<And>s. r_state s = StateFollower \<Longrightarrow> post (f s) (\<lambda>r'. r_state r' = StateFollower \<and> voteResps r' = voteResps s)" for f t l
    by (auto intro!: post_weaken [OF becomeFollower_as] post_weaken [OF that] elect_follower
      simp: asFollower_def roleCore_def)
  have vr: "m_Type m = (if r_state r = StatePreCandidate then MsgPreVoteResp else MsgVoteResp) \<Longrightarrow>
      post (candidateVoteResp E m r) (elect m r)"
    using ter st by (intro candidateVoteResp_elect) (auto simp: counts_def split: if_splits)
  from st vr show ?thesis
    unfolding stepCandidate_def Let_def
    by (auto simp: post_simps split: MessageType.split intro!: noErr_elect elect_steady fol handle_follower)
qed

text \<open>Sending one message other than a vote response changes no vote; a vote response adds to them.\<close>

lemma voteResps_send: "post (send m r) (\<lambda>r'. \<exists>ms. voteResps r' = voteResps r @ ms \<and>
    (\<forall>m' \<in> set ms. m_Type m = MsgVoteResp \<and> m_To m' = m_To m \<and> m_Reject m' = m_Reject m \<and>
       (m_From m = None_id \<longrightarrow> m_From m' = r_id r) \<and> m_Term m' = m_Term m \<and> m_Term m \<noteq> 0))"
  by (rule post_weaken [OF send_queue]) (auto simp: voteResps_def)

lemma elect_voted:
  assumes "voteResps t = voteResps r @ ms" "r_state t = r_state r" "r_Term t = r_Term r" "r_trk t = r_trk r"
    "\<forall>m' \<in> set ms. \<not> m_Reject m' \<longrightarrow>
        m_Term m' = r_Term t \<and> m_Term m' \<noteq> 0 \<and> m_To m' = r_Vote t \<and> m_From m' = r_id t"
  shows "elect m r t"
  unfolding elect_def using assms by (intro conjI exI [of _ ms]) auto

lemma stepVote_elect:
  assumes "m_Type m = MsgVote \<and> (m_Term m = r_Term r \<or> m_Term m = 0) \<or> m_Type m = MsgPreVote"
  shows "post (stepVote m r) (elect m r)"
proof -
  have grant: "elect m r (if m_Type m = MsgVote then t\<lparr>r_electionElapsed := 0, r_Vote := m_From m\<rparr> else t)"
    if ty: "voteRespMsgType (m_Type m) = Some ty"
      and run: "send (emptyMessage\<lparr>m_To := m_From m, m_Term := m_Term m, m_Type := ty\<rparr>) r = Some t" for ty t
  proof -
    obtain ms where ms: "voteResps t = voteResps r @ ms"
      "\<forall>m' \<in> set ms. ty = MsgVoteResp \<and> m_To m' = m_From m \<and> m_From m' = r_id r \<and>
         m_Term m' = m_Term m \<and> m_Term m \<noteq> 0"
      using postD [OF voteResps_send run] by (auto simp: emptyMessage_def)
    from postD [OF send_to run] obtain a b where t: "t = r\<lparr>r_msgs := a, r_msgsAfterAppend := b\<rparr>" by blast
    from assms ty have "ty = MsgVoteResp \<Longrightarrow> m_Type m = MsgVote"
      by (auto simp: voteRespMsgType_def split: if_splits)
    with assms ms show ?thesis
      by (intro elect_voted [where ms = ms]) (auto simp: t voteResps_def)
  qed
  have deny: "elect m r t"
    if run: "send (emptyMessage\<lparr>m_To := m_From m, m_Term := r_Term r, m_Type := ty, m_Reject := True\<rparr>) r = Some t" for ty t
  proof -
    obtain ms where ms: "voteResps t = voteResps r @ ms" "\<forall>m' \<in> set ms. m_Reject m'"
      using postD [OF voteResps_send run] by (auto simp: emptyMessage_def)
    from postD [OF send_to run] obtain a b where t: "t = r\<lparr>r_msgs := a, r_msgsAfterAppend := b\<rparr>" by blast
    from ms show ?thesis by (intro elect_voted [where ms = ms]) (auto simp: t voteResps_def)
  qed
  show ?thesis
    unfolding stepVote_def Let_def
    by (rule postI) (auto simp: bind_eq_Some_conv split: if_splits dest: grant deny)
qed

lemma stepMessage_elect:
  assumes "role_ok r" "m_Term m = r_Term r \<or> m_Term m = 0 \<or> m_Type m = MsgPreVote \<or> m_Type m = MsgPreVoteResp"
  shows "post (stepMessage E m r) (\<lambda>(e, r'). elect m r r')"
  using assms
  by (auto simp: stepMessage_def stepLeader_elect role_state split: MessageType.split stepFunc.split
      intro!: noErr_elect hup_elect stepVote_elect stepCandidate_elect stepFollower_elect elect_steady
        sr.call [OF storageResp_steady(1)] sr.call [OF storageResp_steady(2)])

lemma stepHigherTerm_as: "post (stepHigherTerm m r) (\<lambda>(goes, s).
    s = r \<and> (goes \<longrightarrow> m_Type m = MsgPreVote \<or> m_Type m = MsgPreVoteResp) \<or> (\<exists>lead. asFollower (m_Term m) lead r s))"
  unfolding stepHigherTerm_def Let_def
  by (auto simp: post_simps intro!: pure_calls post_weaken [OF becomeFollower_as])

lemma Step_elect: "role_ok r \<Longrightarrow> post (Step E m r) (\<lambda>(e, r'). elect m r r')"
proof -
  assume r: "role_ok r"
  have up: "post (if goes then stepMessage E m s else Some (None, s)) (\<lambda>(e, r'). elect m r r')"
    if s: "asFollower (m_Term m) l r s" for goes l s
  proof -
    from s have f: "r_state s = StateFollower" "voteResps s = voteResps r" "r_Term s = m_Term m"
      by (auto simp: asFollower_def roleCore_def)
    have "post (stepMessage E m s) (\<lambda>(e, r'). elect m s r')"
      using role_ok_as(1) [OF s r] f by (intro stepMessage_elect) auto
    then have "post (stepMessage E m s) (\<lambda>(e, r'). elect m r r')"
      by (rule post_weaken) (auto intro: elect_from_follower [OF f(1,2)])
    then show ?thesis using s by (auto simp: post_simps intro: elect_as)
  qed
  have same: "post (if goes then stepMessage E m r else Some (None, r)) (\<lambda>(e, r'). elect m r r')"
    if "goes \<longrightarrow> m_Type m = MsgPreVote \<or> m_Type m = MsgPreVoteResp" for goes
    using that r by (auto simp: post_simps intro: stepMessage_elect elect_steady)
  have high: "post (stepHigherTerm m r) (\<lambda>(goes, s).
      post (if goes then stepMessage E m s else Some (None, s)) (\<lambda>(e, r'). elect m r r'))"
    by (rule post_weaken [OF stepHigherTerm_as]) (use up same in blast)
  show ?thesis
    using r unfolding Step_def
    by (auto simp: post_simps post_case intro!: noErr_elect stepMessage_elect post_weaken [OF high]
        sr.call [OF stepLowerTerm_steady] intro: elect_steady)
qed

text \<open>A tick is local steps, and a membership change only ever makes a leader a follower.\<close>

lemma elect_elapsed:
  "elect m (r\<lparr>r_electionElapsed := n\<rparr>) t = elect m r t" "elect m (r\<lparr>r_heartbeatElapsed := n\<rparr>) t = elect m r t"
  "elect m (r\<lparr>r_heartbeatElapsed := k, r_electionElapsed := n\<rparr>) t = elect m r t"
  "elect m s (r\<lparr>r_electionElapsed := n\<rparr>) = elect m s r" "elect m s (r\<lparr>r_leadTransferee := i\<rparr>) = elect m s r"
  by (simp_all add: elect_def voteResps_def counts_def votesWith_def)

lemma Step_beat_steady: "role_ok r \<Longrightarrow> r_state r = StateLeader \<Longrightarrow> m_Type m = MsgBeat \<Longrightarrow> m_Term m = 0 \<Longrightarrow>
    post (Step E m r) (\<lambda>(e, r'). steady r r')"
  by (auto simp: Step_def stepMessage_def role_ok_def stepLeader_def noErr_def post_simps
      intro!: quiet_scall [OF bcastHeartbeat_quiet])

lemma elect_local: "elect m r r' \<Longrightarrow> m_Type m \<noteq> MsgVoteResp \<Longrightarrow> localStep r r'"
  by (auto simp: localStep_def elect_def counts_def)

lemma Step_local: "role_ok r \<Longrightarrow> m_Type m \<noteq> MsgVoteResp \<Longrightarrow> post (Step E m r) (\<lambda>(e, r'). localStep r r' \<and> role_ok r')"
  using Step_elect [of r E m] Step_role [of r E m] by (auto simp: post_def intro: elect_local)

lemma local_steady: "steady r r' \<Longrightarrow> localStep r r'" "localStep r s \<Longrightarrow> steady s r' \<Longrightarrow> localStep r r'"
  "asFollower t l r r' \<Longrightarrow> localStep r r'"
  by (auto simp: localStep_def intro: elect_steady elect_then_steady elect_as)

lemma local_beat: "localStep r s \<Longrightarrow> steady (s\<lparr>r_heartbeatElapsed := n\<rparr>) r' \<Longrightarrow> localStep r r'"
  by (rule local_steady(2)) (auto simp: steady_def roleCore_def settings_def voteResps_def)

lemma local_elapsed [simp]:
  "localStep (r\<lparr>r_electionElapsed := n\<rparr>) t = localStep r t"
  "localStep (r\<lparr>r_heartbeatElapsed := n\<rparr>) t = localStep r t"
  "localStep s (r\<lparr>r_electionElapsed := n\<rparr>) = localStep s r" "localStep s (r\<lparr>r_leadTransferee := i\<rparr>) = localStep s r"
  "localStep s (r\<lparr>r_heartbeatElapsed := n\<rparr>) = localStep s r"
  by (simp_all add: localStep_def elect_elapsed) (simp_all add: elect_def voteResps_def)

lemma tickQuorum_local: "role_ok r \<Longrightarrow> post (tickQuorum E r) (\<lambda>r'. localStep r r' \<and> role_ok r')"
  unfolding tickQuorum_def Let_def abortLeaderTransfer_def
  by (auto simp: post_simps post_case local_steady intro!: post_weaken [OF Step_local])

lemma tick_local: "role_ok r \<Longrightarrow> post (tick E r) (localStep r)"
proof -
  assume r: "role_ok r"
  have "post (tickElection E r) (localStep r)"
    using r unfolding tickElection_def Let_def
    by (auto simp: post_simps post_case local_steady intro!: post_weaken [OF Step_local])
  moreover have "post (tickHeartbeat E r) (localStep r)"
    using r unfolding tickHeartbeat_def
    by (auto simp: post_simps post_case local_steady intro!: post_weaken [OF tickQuorum_local]
        post_weaken [OF Step_beat_steady] intro: local_beat)
  ultimately show ?thesis by (simp add: tick_def split: tickFunc.split)
qed

lemma applyConfChange_local: "post (applyConfChange E cc r) (\<lambda>(cs, r'). localStep r r')"
proof -
  have c: "localStep (withConfig cfg trk r) t = localStep r t" for cfg trk t
    by (simp add: localStep_def elect_def withConfig_def counts_def votesWith_def voteResps_def)
  show ?thesis
    by (auto simp: applyConfChange_def post_simps post_case Let_def
      intro!: pure_calls post_weaken [OF switchToConfig_as] dest!: local_steady(1,3) simp: c)
qed

end
