(* ===== verification/Sample.thy ===== *)
theory Sample
  imports RaftStep LogProps
begin

text \<open>
  A concrete cluster of three voters, on which the properties of nodes and clusters are
  evaluated: nodes 1 and 2 start from an empty memory storage, node 1 campaigns, node 2 votes
  for it, and node 1 becomes leader of term 1, replicates its first entry and commits it.
\<close>

section \<open>The nodes\<close>

definition sampleMem :: MemoryStorage where
  "sampleMem = NewMemoryStorage\<lparr>ms_snapshot := emptySnapshot\<lparr>sn_Metadata :=
     \<lparr>md_ConfState = emptyConfState\<lparr>cs_Voters := [1, 2, 3]\<rparr>, md_Index = 0, md_Term = 0\<rparr>\<rparr>\<rparr>"

definition sampleCfg :: "u64 \<Rightarrow> RaftConfig" where
  "sampleCfg i = \<lparr>cfg_ID = i, cfg_ElectionTick = 10, cfg_HeartbeatTick = 1,
     cfg_Storage = Some (memStorage sampleLib sampleMem), cfg_Applied = 0,
     cfg_AsyncStorageWrites = False, cfg_MaxSizePerMsg = 1000, cfg_MaxCommittedSizePerReady = 0,
     cfg_MaxUncommittedEntriesSize = 0, cfg_MaxInflightMsgs = 4, cfg_MaxInflightBytes = 0,
     cfg_CheckQuorum = False, cfg_PreVote = False, cfg_ReadOnlyOption = ReadOnlySafe,
     cfg_DisableProposalForwarding = False, cfg_DisableConfChangeValidation = False,
     cfg_StepDownOnRemoval = False\<rparr>"

definition memLog :: raftLog where
  "memLog = \<lparr>l_storage = memStorage sampleLib sampleMem,
     l_unstable = \<lparr>u_snapshot = None, u_entries = [], u_offset = 1, u_snapshotInProgress = False,
       u_offsetInProgress = 1\<rparr>,
     l_committed = 0, l_applying = 0, l_applied = 0, l_maxApplyingEntsSize = 1000,
     l_applyingEntsSize = 0, l_applyingEntsPaused = False\<rparr>"

definition freshPr :: Progress where
  "freshPr = \<lparr>pr_Match = 0, pr_Next = 1, pr_sentCommit = 0, pr_State = StateProbe,
     pr_PendingSnapshot = 0, pr_RecentActive = True, pr_MsgAppFlowPaused = False,
     pr_Inflights = NewInflights 4 noLimit, pr_IsLearner = False\<rparr>"

definition peerPr :: Progress where
  "peerPr = freshPr\<lparr>pr_RecentActive := False\<rparr>"

definition sampleTrk :: ProgressTracker where
  "sampleTrk = (MakeProgressTracker 4 noLimit)\<lparr>t_Config := emptyConfig\<lparr>c_Voters := (Some {1, 2, 3}, None)\<rparr>,
     t_Progress := [1 \<mapsto> peerPr, 2 \<mapsto> peerPr, 3 \<mapsto> peerPr]\<rparr>"

definition sampleNode :: "u64 \<Rightarrow> raft" where
  "sampleNode i = (initRaft ((sampleCfg i)\<lparr>cfg_MaxUncommittedEntriesSize := noLimit,
     cfg_MaxCommittedSizePerReady := 1000, cfg_MaxInflightBytes := noLimit\<rparr>) memLog (\<lambda>_. 0))
     \<lparr>r_trk := sampleTrk, r_randomizedElectionTimeout := 10\<rparr>"

section \<open>The run\<close>

definition hupMsg :: Message where
  "hupMsg = emptyMessage\<lparr>m_Type := MsgHup\<rparr>"

definition voteReq :: "u64 \<Rightarrow> Message" where
  "voteReq i = emptyMessage\<lparr>m_Type := MsgVote, m_To := i, m_From := 1, m_Term := 1\<rparr>"

definition voteResp :: "u64 \<Rightarrow> Message" where
  "voteResp i = emptyMessage\<lparr>m_Type := MsgVoteResp, m_To := 1, m_From := i, m_Term := 1\<rparr>"

definition appReq :: "u64 \<Rightarrow> Message" where
  "appReq i = emptyMessage\<lparr>m_Type := MsgApp, m_To := i, m_From := 1, m_Term := 1, m_Entries := [ent 1 1]\<rparr>"

definition appResp :: "u64 \<Rightarrow> Message" where
  "appResp i = emptyMessage\<lparr>m_Type := MsgAppResp, m_To := 1, m_From := i, m_Term := 1, m_Index := 1\<rparr>"

definition emptied :: "raft \<Rightarrow> raft" where
  "emptied r = r\<lparr>r_msgs := [], r_msgsAfterAppend := []\<rparr>"

definition sampleCand :: raft where
  "sampleCand = (sampleNode 1)\<lparr>r_Term := 1, r_Vote := 1, r_state := StateCandidate, r_step := StepCandidate,
     r_msgs := [voteReq 2, voteReq 3], r_msgsAfterAppend := [voteResp 1]\<rparr>"

definition sampleCounting :: raft where
  "sampleCounting = (emptied sampleCand)\<lparr>r_trk := sampleTrk\<lparr>t_Votes := [1 \<mapsto> True]\<rparr>\<rparr>"

definition sampleVoter :: raft where
  "sampleVoter = (sampleNode 2)\<lparr>r_Term := 1, r_Vote := 1, r_msgsAfterAppend := [voteResp 2]\<rparr>"

definition leadLog :: raftLog where
  "leadLog = memLog\<lparr>l_unstable := \<lparr>u_snapshot = None, u_entries = [ent 1 1], u_offset = 1,
     u_snapshotInProgress = False, u_offsetInProgress = 1\<rparr>\<rparr>"

definition leadPr :: "u64 \<Rightarrow> Progress" where
  "leadPr n = peerPr\<lparr>pr_Match := n, pr_Next := n + 1, pr_State := StateReplicate, pr_RecentActive := True,
     pr_Inflights := in_reset (NewInflights 4 noLimit)\<rparr>"

definition probedPr :: Progress where
  "probedPr = peerPr\<lparr>pr_MsgAppFlowPaused := True\<rparr>"

definition sampleLeader :: raft where
  "sampleLeader = (emptied sampleCand)\<lparr>r_state := StateLeader, r_step := StepLeader, r_tick := TickHeartbeat,
     r_lead := 1, r_raftLog := leadLog,
     r_trk := sampleTrk\<lparr>t_Progress := [1 \<mapsto> leadPr 0, 2 \<mapsto> probedPr, 3 \<mapsto> probedPr]\<rparr>,
     r_msgs := [appReq 2, appReq 3], r_msgsAfterAppend := [appResp 1]\<rparr>"

section \<open>Evaluation\<close>

lemma mem_storage:
  "st_InitialState (memStorage sampleLib sampleMem) = Some (Inr (None, emptyConfState\<lparr>cs_Voters := [1, 2, 3]\<rparr>))"
  "st_LastIndex (memStorage sampleLib sampleMem) = Some (Inr 0)"
  "st_FirstIndex (memStorage sampleLib sampleMem) = Some (Inr 1)"
  "st_Term (memStorage sampleLib sampleMem) 0 = Some (Inr 0)"
  by (simp_all add: memStorage_def sampleMem_def ms_InitialState_def NewMemoryStorage_def ms_lastIndex_def
    ms_firstIndex_def ms_offset_def go_index_def emptyEntry_def ms_Term_def)

lemma mem_log:
  "newLogWithSize (memStorage sampleLib sampleMem) 1000 = Some memLog" "l_lastIndex memLog = Some 0"
  "l_lastEntryID memLog = Some (EntryID 0 0)" "l_applied memLog = 0" "l_committed memLog = 0"
  "\<not> l_hasNextOrInProgressSnapshot memLog"
  by (simp_all add: memLog_def newLogWithSize_def mem_storage l_lastIndex_def maybeLastIndex_def l_lastEntryID_def
    l_term_def maybeTerm_def maybeFirstIndex_def l_firstIndex_def l_hasNextOrInProgressSnapshot_def)

lemma mem_inv:
  "l_inv sampleLib memLog (0, 0, [])" "absLog (l_unstable memLog) (0, 0, []) = (0, 0, [])"
  "l_cursors memLog (0, 0, [])"
proof -
  have "ms_inv sampleMem" "ms_stored sampleMem = (0, 0, [])"
    by (simp_all add: ms_inv_def sampleMem_def NewMemoryStorage_def boundedLog_def ms_stored_def emptyEntry_def)
  then have "storageHas sampleLib (memStorage sampleLib sampleMem) (0, 0, [])" using mem.storage_has by metis
  then show "l_inv sampleLib memLog (0, 0, [])" "absLog (l_unstable memLog) (0, 0, []) = (0, 0, [])"
    "l_cursors memLog (0, 0, [])"
    by (simp_all add: l_inv_def memLog_def u_inv_def absLog_def logWrite_def log_ok_def boundedLog_def logLast_def
      l_cursors_def)
qed

lemma ent_eq: "emptyEntry\<lparr>e_Term := t, e_Index := i\<rparr> = ent i t" "e_Data emptyEntry = []" "e_Data (ent i t) = []"
  by (simp_all add: ent_def emptyEntry_def)

lemmas log_eval = memLog_def leadLog_def l_append_def truncateAndAppend_def l_lastIndex_def maybeLastIndex_def
  l_term_def maybeTerm_def maybeFirstIndex_def l_firstIndex_def mem_storage go_index_def Let_def

lemma lead_log:
  "l_append [ent 1 1] memLog = Some (1, leadLog)" "l_lastIndex leadLog = Some 1" "l_firstIndex leadLog = Some 1"
  "l_term 0 leadLog = Some (Inr 0)" "l_term 1 leadLog = Some (Inr 1)" "l_committed leadLog = 0"
  "l_entries sampleLib 2 1000 leadLog = Some (Inr [])"
  by (simp_all add: log_eval l_entries_def)

lemma lead_entries: "l_entries sampleLib 1 1000 leadLog = Some (Inr [ent 1 1])"
  by (simp add: log_eval l_entries_def l_slice_def l_mustCheckOutOfBounds_def u_slice_def
    u_mustCheckOutOfBounds_def go_slice_def tryE_def)

lemma sample_config:
  "Restore \<lparr>ch_Tracker = MakeProgressTracker 4 noLimit, ch_LastIndex = 0\<rparr> (emptyConfState\<lparr>cs_Voters := [1, 2, 3]\<rparr>) =
     Some (Inr (emptyConfig\<lparr>c_Voters := (Some {1, 2, 3}, None)\<rparr>, [1 \<mapsto> freshPr, 2 \<mapsto> freshPr, 3 \<mapsto> freshPr]))"
  by (simp add: Restore_def emptyConfState_def toConfChangeSingle_def MakeProgressTracker_def emptyConfig_def
    Simple_def singleChange_def checkAndCopy_def checkInvariants_def cc_apply_def makeVoter_def
    initProgress_def is_joint_def tryE_def setTracker_def checkAndReturn_def addIncoming_def Let_def
    symdiff_def Config_Clone_def jc_IDs_def isMarkedLearner_def mc_Slice_def mc_ids_def
    freshPr_def insert_commute)

lemmas reset_eval = becomeFollower_def raft_reset_def resetRandomizedElectionTimeout_def Intn_def
  abortLeaderTransfer_def Visit_def ResetVotes_def trk_ids_def resetProgress_def setProgress_def
  getProgress_def newReadOnly_def insert_commute

lemmas node_eval = sampleNode_def sampleCfg_def initRaft_def sampleTrk_def MakeProgressTracker_def
  emptyConfig_def peerPr_def freshPr_def mem_log

lemmas step_eval = Step_def emptyMessage_def stepMessage_def noErr_def send_def

lemmas vote_eval = stepCandidate_def candidateVoteResp_def poll_def RecordVote_def TallyVotes_def tallyOne_def
  trk_ids_def insert_commute jc_VoteResult_def mc_VoteResult_def voteResultIn_def mc_Slice_def mc_ids_def

lemmas lead_eval = becomeLeader_def appendEntry_def increaseUncommittedSize_def payloadsSize_def payloadSize_def
  ent_eq lead_log lead_entries bcastAppend_def sendAppend_def maybeSendAppend_def BecomeReplicate_def
  ResetState_def IsPaused_def SentEntries_def SentCommit_def

lemma sample_started:
  "newRaft sampleLib (\<lambda>_. 0) (sampleCfg 1) = Some (sampleNode 1)"
  "newRaft sampleLib (\<lambda>_. 0) (sampleCfg 2) = Some (sampleNode 2)"
  by (simp_all add: newRaft_def sampleCfg_def validate_def IsLocalMsgTarget_def LocalAppendThread_def
      LocalApplyThread_def mem_storage mem_log initRaft_def sample_config switchToConfig_def)
    (simp_all add: assertConfStatesEquivalent_def trk_ConfState_def Equivalent_def mc_Slice_def mc_ids_def
      emptyConfState_def node_eval reset_eval)

lemma sample_campaign: "Step sampleLib hupMsg (sampleNode 1) = Some (None, sampleCand)"
  by (simp add: step_eval hup_def promotable_def hasUnappliedConfChanges_def node_eval reset_eval
    campaign_def becomeCandidate_def jc_IDs_def mc_ids_def campaignSend_def voteRespMsgType_def
    hupMsg_def sampleCand_def voteReq_def voteResp_def)

lemma sample_vote: "Step sampleLib (voteReq 2) (sampleNode 2) = Some (None, sampleVoter)"
  by (simp add: step_eval voteReq_def voteResp_def stepHigherTerm_def node_eval reset_eval stepVote_def
    canVote_def isUpToDate_def sampleVoter_def voteRespMsgType_def)

lemma sample_own_vote: "Step sampleLib (voteResp 1) (emptied sampleCand) = Some (None, sampleCounting)"
  by (simp add: step_eval voteResp_def emptied_def sampleCand_def sampleCounting_def vote_eval node_eval)

lemma sample_won: "Step sampleLib (voteResp 2) sampleCounting = Some (None, sampleLeader)"
  by (simp add: step_eval voteResp_def emptied_def sampleCand_def sampleCounting_def vote_eval node_eval
    reset_eval lead_eval Let_def sampleLeader_def leadPr_def probedPr_def appReq_def appResp_def)

end
