(* ===== verification/Election.thy ===== *)
theory Election
  imports RaftRoles Sample
begin

text \<open>
  A cluster of nodes, and the election safety of Raft for it: no term has two leaders.
  A node runs \<open>newRaft\<close>, \<open>Step\<close>, \<open>tick\<close> and \<open>applyConfChange\<close> of \<open>raft.go\<close>; between them the
  application stores its term and vote and sends its messages, in that order, as the
  contract of \<open>Ready\<close> asks (\<open>node.go\<close>, \<open>rawnode.go\<close>). The network loses, repeats, delays and
  reorders messages, and delivers messages of any kind that no node has sent; only vote
  responses it cannot make up. A node may crash at any time and restart from what it has
  stored. The voters are the same in all configurations the nodes go through.
\<close>

section \<open>The cluster\<close>

record cluster =
  cl_nodes :: "u64 \<rightharpoonup> raft"
  cl_stored :: "u64 \<Rightarrow> u64 \<times> u64"
  cl_net :: "Message set"
  cl_won :: "(u64 \<times> u64) set"

definition raftVoters :: "raft \<Rightarrow> JointConfig" where
  "raftVoters r = c_Voters (t_Config (r_trk r))"

definition putNode :: "u64 \<Rightarrow> raft \<Rightarrow> cluster \<Rightarrow> cluster" where
  "putNode i r s = s\<lparr>cl_nodes := (cl_nodes s)(i \<mapsto> r),
     cl_won := cl_won s \<union> (if r_state r = StateLeader then {(i, r_Term r)} else {})\<rparr>"

text \<open>
  \<open>Ready\<close> clears the queues of the node; it also marks entries and reads as handed out, in
  a new log \<open>l\<close> and with new read states.
\<close>

definition readyNode :: "u64 \<Rightarrow> raft \<Rightarrow> raftLog \<Rightarrow> ReadState list \<Rightarrow> cluster \<Rightarrow> cluster" where
  "readyNode i r l rs s = s\<lparr>cl_nodes := (cl_nodes s)(i \<mapsto>
        r\<lparr>r_readStates := rs, r_msgs := [], r_msgsAfterAppend := [], r_raftLog := l\<rparr>),
      cl_stored := (cl_stored s)(i := (r_Term r, r_Vote r)),
      cl_net := cl_net s \<union> set (r_msgs r) \<union> set (r_msgsAfterAppend r)\<rparr>"

text \<open>Terms below the largest 64-bit integer, and requests of a leader that carry its term.\<close>

definition inRange :: "Message \<Rightarrow> raft \<Rightarrow> bool" where
  "inRange m r \<longleftrightarrow> r_Term r \<noteq> maxU64 \<and> m_Term m \<noteq> maxU64 \<and> (fromLeader m \<longrightarrow> m_Term m \<noteq> 0)"

text \<open>The term and the vote that \<open>newRaft\<close> finds in a storage.\<close>

definition storedIn :: "RaftConfig \<Rightarrow> u64 \<times> u64" where
  "storedIn c =
     (case cfg_Storage c of
        None \<Rightarrow> (0, 0)
      | Some st \<Rightarrow>
          (case st_InitialState st of
             Some (Inr (Some hs, _)) \<Rightarrow> (hs_Term hs, hs_Vote hs)
           | _ \<Rightarrow> (0, 0)))"

inductive cl_step :: "proto_lib \<Rightarrow> JointConfig \<Rightarrow> cluster \<Rightarrow> cluster \<Rightarrow> bool" for E C where
  cl_start: "cfg_ID c = i \<Longrightarrow> storedIn c = cl_stored s i \<Longrightarrow> newRaft E rand c = Some r' \<Longrightarrow>
    raftVoters r' = C \<Longrightarrow> cl_step E C s (putNode i r' s)"
| cl_deliver: "cl_nodes s i = Some r \<Longrightarrow> inRange m r \<Longrightarrow>
    (m_Type m = MsgVoteResp \<Longrightarrow> m \<in> cl_net s \<and> m_To m = i) \<Longrightarrow>
    Step E m r = Some (err, r') \<Longrightarrow> raftVoters r' = C \<Longrightarrow> cl_step E C s (putNode i r' s)"
| cl_tick: "cl_nodes s i = Some r \<Longrightarrow> r_Term r \<noteq> maxU64 \<Longrightarrow> tick E r = Some r' \<Longrightarrow>
    raftVoters r' = C \<Longrightarrow> cl_step E C s (putNode i r' s)"
| cl_conf: "cl_nodes s i = Some r \<Longrightarrow> applyConfChange E cc r = Some (cs, r') \<Longrightarrow>
    raftVoters r' = C \<Longrightarrow> cl_step E C s (putNode i r' s)"
| cl_store: "cl_nodes s i = Some r \<Longrightarrow>
    cl_step E C s (s\<lparr>cl_stored := (cl_stored s)(i := (r_Term r, r_Vote r))\<rparr>)"
| cl_ready: "cl_nodes s i = Some r \<Longrightarrow> cl_step E C s (readyNode i r l rs s)"

inductive cl_reach :: "proto_lib \<Rightarrow> JointConfig \<Rightarrow> cluster \<Rightarrow> bool" for E C where
  cl_init: "cl_reach E C \<lparr>cl_nodes = Map.empty, cl_stored = st, cl_net = {}, cl_won = {}\<rparr>"
| cl_next: "cl_reach E C s \<Longrightarrow> cl_step E C s s' \<Longrightarrow> cl_reach E C s'"

section \<open>Specification\<close>

text \<open>The votes in a set of messages, as voter, term and candidate.\<close>

definition grants :: "Message set \<Rightarrow> (u64 \<times> u64 \<times> u64) set" where
  "grants M = (\<lambda>m. (m_From m, m_Term m, m_To m)) `
     {m \<in> M. m_Type m = MsgVoteResp \<and> \<not> m_Reject m \<and> m_To m \<noteq> None_id}"

definition castBy :: "u64 \<Rightarrow> (u64 \<times> u64 \<times> u64) set \<Rightarrow> (u64 \<times> u64) set" where
  "castBy i G = {(t, c). (i, t, c) \<in> G}"

definition queued :: "raft \<Rightarrow> (u64 \<times> u64) set" where
  "queued r = (\<lambda>m. (m_Term m, m_To m)) ` {m \<in> set (voteResps r). \<not> m_Reject m \<and> m_To m \<noteq> None_id}"

text \<open>Votes of one voter that fit together and are no newer than its term and vote.\<close>

definition fits :: "(u64 \<times> u64) set \<Rightarrow> u64 \<Rightarrow> u64 \<Rightarrow> bool" where
  "fits V T v \<longleftrightarrow> (\<forall>t c. (t, c) \<in> V \<longrightarrow> t < T \<or> t = T \<and> c = v) \<and>
     (\<forall>t c c'. (t, c) \<in> V \<longrightarrow> (t, c') \<in> V \<longrightarrow> c = c')"

definition elected :: "JointConfig \<Rightarrow> (u64 \<times> u64 \<times> u64) set \<Rightarrow> u64 \<Rightarrow> u64 \<Rightarrow> bool" where
  "elected C G i t \<longleftrightarrow> i \<noteq> None_id \<and> (\<exists>v. jc_VoteResult C v = VoteWon \<and> (\<forall>j. v j = Some True \<longrightarrow> (j, t, i) \<in> G))"

definition node_inv :: "JointConfig \<Rightarrow> (u64 \<times> u64 \<times> u64) set \<Rightarrow> u64 \<times> u64 \<Rightarrow> u64 \<Rightarrow> raft \<Rightarrow> bool" where
  "node_inv C G sv i r \<longleftrightarrow> r_id r = i \<and> role_ok r \<and> raftVoters r = C \<and>
     (\<forall>m \<in> set (r_msgs r). m_Type m \<noteq> MsgVoteResp) \<and>
     tv_le (fst sv) (snd sv) (r_Term r) (r_Vote r) \<and>
     (\<forall>m \<in> set (voteResps r). \<not> m_Reject m \<longrightarrow> m_From m = i \<and> m_Term m \<noteq> 0) \<and>
     fits (castBy i G \<union> queued r) (r_Term r) (r_Vote r) \<and>
     (r_state r = StateCandidate \<longrightarrow> (\<forall>j. t_Votes (r_trk r) j = Some True \<longrightarrow> (j, r_Term r, i) \<in> G)) \<and>
     (r_state r = StateLeader \<longrightarrow> elected C G i (r_Term r))"

definition cl_inv :: "JointConfig \<Rightarrow> cluster \<Rightarrow> bool" where
  "cl_inv C s \<longleftrightarrow>
     (\<forall>i r. cl_nodes s i = Some r \<longrightarrow> node_inv C (grants (cl_net s)) (cl_stored s i) i r) \<and>
     (\<forall>i. fits (castBy i (grants (cl_net s))) (fst (cl_stored s i)) (snd (cl_stored s i))) \<and>
     (\<forall>i t c. (i, t, c) \<in> grants (cl_net s) \<longrightarrow> t \<noteq> 0) \<and>
     (\<forall>i t. (i, t) \<in> cl_won s \<longrightarrow> elected C (grants (cl_net s)) i t)"

text \<open>The run of the sample nodes in which node 1 is elected.\<close>

definition sampleVoting :: cluster where
  "sampleVoting = readyNode 2 sampleVoter memLog [] (putNode 2 sampleVoter (readyNode 1 sampleCand memLog []
     (putNode 1 sampleCand (putNode 2 (sampleNode 2) (putNode 1 (sampleNode 1)
       \<lparr>cl_nodes = Map.empty, cl_stored = (\<lambda>_. (0, 0)), cl_net = {}, cl_won = {}\<rparr>)))))"

definition sampleElected :: cluster where
  "sampleElected = putNode 1 sampleLeader (putNode 1 sampleCounting sampleVoting)"

section \<open>A node\<close>

lemma fits_step:
  assumes "fits V T v" "tv_le T v T' v'" "V' \<subseteq> insert (T', v') V" "\<And>t c. (t, c) \<in> V' \<Longrightarrow> c \<noteq> None_id"
  shows "fits V' T' v'"
proof -
  have old: "t < T' \<or> t = T' \<and> c = v'" if "(t, c) \<in> V'" for t c
  proof (cases "(t, c) = (T', v')")
    case False
    with assms(3) that have "(t, c) \<in> V" by auto
    with assms(1) have "t < T \<or> t = T \<and> c = v" by (simp add: fits_def)
    moreover have "T < T' \<or> T = T' \<and> (v = v' \<or> v = None_id)" using assms(2) by (simp add: tv_le_def)
    ultimately show ?thesis using assms(4) [OF that] by auto
  qed simp
  have "c = c'" if "(t, c) \<in> V'" "(t, c') \<in> V'" for t c c'
  proof (cases "t = T'")
    case True
    with old [OF that(1)] old [OF that(2)] show ?thesis by auto
  next
    case False
    with assms(3) that have "(t, c) \<in> V" "(t, c') \<in> V" by auto
    with assms(1) show ?thesis by (auto simp: fits_def)
  qed
  with old show ?thesis by (simp add: fits_def)
qed

lemma grants_To: "(i, t, c) \<in> grants M \<Longrightarrow> c \<noteq> None_id"
  by (auto simp: grants_def)

lemma RecordVote_votes: "t_Votes (RecordVote i v p) = (if t_Votes p i = None then (t_Votes p)(i \<mapsto> v) else t_Votes p)"
  by (simp add: RecordVote_def split: option.split)

lemma node_invD:
  assumes "node_inv C G sv i r"
  shows "r_id r = i" "role_ok r" "raftVoters r = C" "\<forall>m \<in> set (r_msgs r). m_Type m \<noteq> MsgVoteResp"
    "tv_le (fst sv) (snd sv) (r_Term r) (r_Vote r)"
    "\<forall>m \<in> set (voteResps r). \<not> m_Reject m \<longrightarrow> m_From m = i \<and> m_Term m \<noteq> 0"
    "fits (castBy i G \<union> queued r) (r_Term r) (r_Vote r)"
    "r_state r = StateCandidate \<Longrightarrow> t_Votes (r_trk r) j = Some True \<Longrightarrow> (j, r_Term r, i) \<in> G"
    "r_state r = StateLeader \<Longrightarrow> elected C G i (r_Term r)" "i \<noteq> None_id"
proof -
  show "i \<noteq> None_id" using assms unfolding node_inv_def role_ok_def by blast
qed (use assms in \<open>simp_all add: node_inv_def\<close>)

lemma electD:
  assumes "elect m r r'"
  obtains ms where "voteResps r' = voteResps r @ ms" "\<forall>m' \<in> set ms. \<not> m_Reject m' \<longrightarrow>
        m_Term m' = r_Term r' \<and> m_Term m' \<noteq> 0 \<and> m_To m' = r_Vote r' \<and> m_From m' = r_id r'"
    "r_state r' = StateCandidate \<Longrightarrow> t_Votes (r_trk r') = Map.empty \<or>
        r_state r = StateCandidate \<and> r_Term r' = r_Term r \<and>
        (t_Votes (r_trk r') = t_Votes (r_trk r) \<or> counts m r \<and> t_Votes (r_trk r') = votesWith m r)"
    "r_state r' = StateLeader \<Longrightarrow> r_Term r' = r_Term r \<and>
        (r_state r = StateLeader \<or>
         counts m r \<and> jc_VoteResult (c_Voters (t_Config (r_trk r))) (votesWith m r) = VoteWon)"
  using assms unfolding elect_def by blast

lemma queued_step:
  assumes "voteResps r' = voteResps r @ ms"
    "\<forall>m' \<in> set ms. \<not> m_Reject m' \<longrightarrow> m_Term m' = t \<and> m_Term m' \<noteq> 0 \<and> m_To m' = v \<and> m_From m' = i"
  shows "queued r' \<subseteq> insert (t, v) (queued r)"
proof
  fix x assume "x \<in> queued r'"
  then obtain m where m: "m \<in> set (voteResps r')" "\<not> m_Reject m" "m_To m \<noteq> None_id" "x = (m_Term m, m_To m)"
    unfolding queued_def by blast
  from m(1) assms(1) have "m \<in> set (voteResps r) \<or> m \<in> set ms" by simp
  then show "x \<in> insert (t, v) (queued r)"
  proof
    assume "m \<in> set (voteResps r)"
    with m show ?thesis unfolding queued_def by blast
  next
    assume "m \<in> set ms"
    with m assms(2) show ?thesis by simp
  qed
qed

lemma queued_To: "(t, c) \<in> queued r \<Longrightarrow> c \<noteq> None_id"
  by (auto simp: queued_def)

lemma node_step:
  assumes inv: "node_inv C (grants M) sv i r"
    and e: "elect m r r'" and le: "raft_le r r'" and ok: "role_ok r'" "raftVoters r' = C"
    and m: "counts m r \<Longrightarrow> \<not> m_Reject m \<Longrightarrow> (m_From m, r_Term r, i) \<in> grants M"
  shows "node_inv C (grants M) sv i r'"
proof -
  note I = node_invD [OF inv]
  have tv: "tv_le (r_Term r) (r_Vote r) (r_Term r') (r_Vote r')" and s: "sent r r'" and "r_id r' = r_id r"
    using le by (simp_all add: raft_le_def settings_def)
  with I(1) have i: "r_id r' = i" by simp
  obtain ms where ms: "voteResps r' = voteResps r @ ms" "\<forall>m' \<in> set ms. \<not> m_Reject m' \<longrightarrow>
        m_Term m' = r_Term r' \<and> m_Term m' \<noteq> 0 \<and> m_To m' = r_Vote r' \<and> m_From m' = r_id r'"
    and cand: "r_state r' = StateCandidate \<Longrightarrow> t_Votes (r_trk r') = Map.empty \<or>
        r_state r = StateCandidate \<and> r_Term r' = r_Term r \<and>
        (t_Votes (r_trk r') = t_Votes (r_trk r) \<or> counts m r \<and> t_Votes (r_trk r') = votesWith m r)"
    and lead: "r_state r' = StateLeader \<Longrightarrow> r_Term r' = r_Term r \<and>
        (r_state r = StateLeader \<or>
         counts m r \<and> jc_VoteResult (c_Voters (t_Config (r_trk r))) (votesWith m r) = VoteWon)"
    by (rule electD [OF e]) blast
  have "castBy i (grants M) \<union> queued r' \<subseteq> insert (r_Term r', r_Vote r') (castBy i (grants M) \<union> queued r)"
    using queued_step [OF ms] by blast
  then have f: "fits (castBy i (grants M) \<union> queued r') (r_Term r') (r_Vote r')"
    by (rule fits_step [OF I(7) tv]) (auto simp: castBy_def dest: grants_To queued_To)
  have q: "\<forall>m \<in> set (r_msgs r'). m_Type m \<noteq> MsgVoteResp"
    using I(4) s by (auto simp: sent_def afterAppend_def)
  have yes: "(j, r_Term r, i) \<in> grants M" if c: "counts m r" and v: "votesWith m r j = Some True" for j
  proof (cases "t_Votes (r_trk r) j = Some True")
    case True
    with c show ?thesis by (intro I(8)) (simp_all add: counts_def)
  next
    case False
    with v have "j = m_From m \<and> \<not> m_Reject m" by (simp add: votesWith_def RecordVote_votes split: if_splits)
    with m [OF c] show ?thesis by simp
  qed
  have cv: "(j, r_Term r', i) \<in> grants M" if "r_state r' = StateCandidate" "t_Votes (r_trk r') j = Some True" for j
    using cand [OF that(1)] that(2) I(8) [of j] yes [of j] by auto
  have "elected C (grants M) i (r_Term r')" if l: "r_state r' = StateLeader"
    using lead [OF l] I(3,9,10) yes unfolding elected_def raftVoters_def by auto
  moreover have "\<forall>m \<in> set (voteResps r'). \<not> m_Reject m \<longrightarrow> m_From m = i \<and> m_Term m \<noteq> 0"
    using I(6) ms i by auto
  ultimately show ?thesis
    unfolding node_inv_def using i ok q f cv tv_le_trans [OF I(5) tv] by blast
qed

lemma validate_keeps: "validate c = Inr c' \<Longrightarrow> cfg_ID c' = cfg_ID c \<and> cfg_Storage c' = cfg_Storage c \<and> cfg_ID c \<noteq> None_id"
  by (auto simp: validate_def Let_def split: if_splits)

lemma becomeFollower_starts:
  assumes "becomeFollower (r_Term s) None_id s = Some r" "r_id s \<noteq> None_id"
  shows "r_id r = r_id s \<and> role_ok r \<and> r_state r = StateFollower \<and> r_msgs r = r_msgs s \<and>
    voteResps r = voteResps s \<and> r_Term r = r_Term s \<and> r_Vote r = r_Vote s"
  using postD [OF becomeFollower_to assms(1)] assms(2)
  by (auto simp: reset_to_def role_ok_def voteResps_def settings_def)

lemma loadState_sets: "loadState h s = Some r \<Longrightarrow> r_Term r = hs_Term h \<and> r_Vote r = hs_Vote h \<and>
    r_id r = r_id s \<and> r_msgs r = r_msgs s \<and> voteResps r = voteResps s"
  by (auto simp: loadState_def bind_eq_Some_conv voteResps_def)

lemma initRaft_config:
  assumes "switchToConfig E cfg trk (initRaft c lg rand) = Some (cs, r)"
  shows "r_id r = cfg_ID c \<and> r_Term r = 0 \<and> r_Vote r = 0 \<and> (\<forall>m \<in> set (r_msgs r). m_Type m \<noteq> MsgVoteResp) \<and> voteResps r = []"
proof -
  let ?r0 = "initRaft c lg rand"
  have "steady (withConfig cfg trk ?r0) r"
    using postD [OF switchToConfig_as assms] by (simp add: initRaft_def)
  moreover have "sent ?r0 r" using postD [OF switchToConfig_le assms] by (simp add: raft_le_def)
  ultimately show ?thesis
    by (auto simp: steady_def withConfig_def initRaft_def roleCore_def settings_def voteResps_def sent_def afterAppend_def)
qed

text \<open>A node that starts has the term and the vote of its storage and has sent no vote.\<close>

lemma newRaft_starts: "post (newRaft E rand c) (\<lambda>r. r_id r = cfg_ID c \<and> role_ok r \<and> r_state r = StateFollower \<and>
    (\<forall>m \<in> set (r_msgs r). m_Type m \<noteq> MsgVoteResp) \<and> voteResps r = [] \<and> storedIn c = (r_Term r, r_Vote r))"
proof (rule postI)
  fix r assume run: "newRaft E rand c = Some r"
  then obtain c1 st lg hs cs cfg trk cs2 r1 r2 where
    c1: "validate c = Inr c1" and st: "cfg_Storage c1 = Some st" "st_InitialState st = Some (Inr (hs, cs))"
    and r1: "switchToConfig E cfg trk (initRaft c1 lg rand) = Some (cs2, r1)"
    and r2: "(case hs of None \<Rightarrow> Some r1 | Some h \<Rightarrow> if IsEmptyHardState hs then Some r1 else loadState h r1) = Some r2"
    and r: "becomeFollower (r_Term r2) None_id r2 = Some r \<or>
      (\<exists>l. becomeFollower (r_Term r2) None_id (r2\<lparr>r_raftLog := l\<rparr>) = Some r)"
    unfolding newRaft_def Let_def
    by (auto simp: bind_eq_Some_conv split: sum.splits if_splits) blast
  note v = validate_keeps [OF c1]
  have "r_id r2 = cfg_ID c \<and> (\<forall>m \<in> set (r_msgs r2). m_Type m \<noteq> MsgVoteResp) \<and> voteResps r2 = [] \<and>
      storedIn c = (r_Term r2, r_Vote r2)"
    using initRaft_config [OF r1] r2 v st
    by (auto simp: storedIn_def IsEmptyHardState_def isHardStateEqual_def emptyState_def
        split: option.splits if_splits dest!: loadState_sets)
  with r v show "r_id r = cfg_ID c \<and> role_ok r \<and> r_state r = StateFollower \<and>
      (\<forall>m \<in> set (r_msgs r). m_Type m \<noteq> MsgVoteResp) \<and> voteResps r = [] \<and> storedIn c = (r_Term r, r_Vote r)"
    using becomeFollower_starts [of r2 r] becomeFollower_starts [of "r2\<lparr>r_raftLog := l\<rparr>" r for l]
    by (auto simp: voteResps_def)
qed

section \<open>The invariant of the cluster\<close>

lemma grants_mono: "M \<subseteq> N \<Longrightarrow> grants M \<subseteq> grants N"
  unfolding grants_def by blast

lemma elected_mono: "elected C G i t \<Longrightarrow> G \<subseteq> H \<Longrightarrow> elected C H i t"
  unfolding elected_def by blast

lemma cl_invD:
  assumes "cl_inv C s"
  shows "cl_nodes s i = Some r \<Longrightarrow> node_inv C (grants (cl_net s)) (cl_stored s i) i r"
    "fits (castBy i (grants (cl_net s))) (fst (cl_stored s i)) (snd (cl_stored s i))"
    "(i, t, c) \<in> grants (cl_net s) \<Longrightarrow> t \<noteq> 0" "(i, t) \<in> cl_won s \<Longrightarrow> elected C (grants (cl_net s)) i t"
  using assms unfolding cl_inv_def by blast+

lemma putNode_inv:
  assumes "cl_inv C s" "node_inv C (grants (cl_net s)) (cl_stored s i) i r"
  shows "cl_inv C (putNode i r s)"
  using cl_invD [OF assms(1)] assms(2) node_invD(9) [OF assms(2)] unfolding cl_inv_def putNode_def by auto

lemma started_inv:
  assumes "cl_inv C s" "newRaft E rand c = Some r" "cfg_ID c = i" "storedIn c = cl_stored s i" "raftVoters r = C"
  shows "node_inv C (grants (cl_net s)) (cl_stored s i) i r"
  using postD [OF newRaft_starts assms(2)] cl_invD(2) [OF assms(1), of i] assms(3-)
  by (simp add: node_inv_def queued_def)

lemma deliver_inv:
  assumes s: "cl_inv C s" and r: "cl_nodes s i = Some r" and m: "inRange m r"
    and vote: "m_Type m = MsgVoteResp \<Longrightarrow> m \<in> cl_net s \<and> m_To m = i"
    and run: "Step E m r = Some (err, r')" and C: "raftVoters r' = C"
  shows "node_inv C (grants (cl_net s)) (cl_stored s i) i r'"
proof -
  note inv = cl_invD(1) [OF s r]
  note I = node_invD [OF inv]
  have "elect m r r'" "role_ok r'" using postD [OF Step_elect [OF I(2)] run] postD [OF Step_role [OF I(2)] run] by auto
  moreover have "raft_le r r'" using m postD [OF Step_le run] by (simp add: inRange_def)
  moreover have "(m_From m, r_Term r, i) \<in> grants (cl_net s)" if c: "counts m r" "\<not> m_Reject m"
  proof -
    from c have t: "m_Type m = MsgVoteResp" "m_Term m = r_Term r \<or> m_Term m = 0" by (simp_all add: counts_def)
    with c(2) vote I(10) have "(m_From m, m_Term m, i) \<in> grants (cl_net s)"
      unfolding grants_def by (intro image_eqI [of _ _ m]) auto
    with t(2) cl_invD(3) [OF s] show ?thesis by metis
  qed
  ultimately show ?thesis using node_step [OF inv] C by blast
qed

lemma local_inv:
  assumes s: "cl_inv C s" and r: "cl_nodes s i = Some r"
    and step: "localStep r r'" "role_ok r'" "raft_le r r'" "raftVoters r' = C"
  shows "node_inv C (grants (cl_net s)) (cl_stored s i) i r'"
  using step(1) node_step [OF cl_invD(1) [OF s r] _ step(3,2,4), of "emptyMessage\<lparr>m_Type := MsgHup\<rparr>"]
  by (simp add: localStep_def counts_def)

lemma node_inv_stored:
  "node_inv C G sv i r \<Longrightarrow> node_inv C G (r_Term r, r_Vote r) i r"
  by (simp add: node_inv_def)

lemma store_inv:
  assumes s: "cl_inv C s" and r: "cl_nodes s i = Some r"
  shows "cl_inv C (s\<lparr>cl_stored := (cl_stored s)(i := (r_Term r, r_Vote r))\<rparr>)"
proof -
  note I = cl_invD [OF s]
  have "fits (castBy i (grants (cl_net s))) (r_Term r) (r_Vote r)"
    using node_invD(7) [OF I(1) [OF r]] by (simp add: fits_def)
  then show ?thesis
    unfolding cl_inv_def using I r by (auto intro: node_inv_stored)
qed

text \<open>Messages of a node put on the network: its votes, and no vote of another node.\<close>

lemma grants_ready:
  assumes "node_inv C G sv i r"
  shows "grants (N \<union> set (r_msgs r) \<union> set (r_msgsAfterAppend r)) = grants N \<union> {i} \<times> queued r"
proof -
  have "grants (set (r_msgs r)) = {}" using node_invD(4) [OF assms] by (auto simp: grants_def)
  moreover have "grants (set (r_msgsAfterAppend r)) = {i} \<times> queued r"
    using node_invD(6) [OF assms] unfolding grants_def queued_def voteResps_def by force
  moreover have "grants (A \<union> B) = grants A \<union> grants B" for A B unfolding grants_def by blast
  ultimately show ?thesis by simp
qed

lemma node_inv_more:
  assumes "node_inv C G sv j r" "j \<noteq> i"
  shows "node_inv C (G \<union> {i} \<times> Q) sv j r"
proof -
  have "castBy j (G \<union> {i} \<times> Q) = castBy j G" using assms(2) by (auto simp: castBy_def)
  with assms(1) show ?thesis unfolding node_inv_def by (auto intro: elected_mono)
qed

lemma ready_inv:
  assumes s: "cl_inv C s" and r: "cl_nodes s i = Some r"
  shows "cl_inv C (readyNode i r l rs s)"
proof -
  let ?G = "grants (cl_net s)" and ?r = "r\<lparr>r_readStates := rs, r_msgs := [], r_msgsAfterAppend := [], r_raftLog := l\<rparr>"
  let ?H = "?G \<union> {i} \<times> queued r"
  note I = cl_invD [OF s] and N = node_invD [OF cl_invD(1) [OF s r]]
  have H: "grants (cl_net s \<union> set (r_msgs r) \<union> set (r_msgsAfterAppend r)) = ?H"
    by (rule grants_ready [OF I(1) [OF r]])
  have i: "castBy i ?H = castBy i ?G \<union> queued r" by (auto simp: castBy_def)
  have "role_ok ?r = role_ok r" "queued ?r = {}" "voteResps ?r = []"
    by (simp_all add: role_ok_def queued_def voteResps_def split: RaftState.split)
  then have "node_inv C ?H (r_Term r, r_Vote r) i ?r"
    using N i unfolding node_inv_def by (auto simp: raftVoters_def intro: elected_mono)
  moreover have "node_inv C ?H (cl_stored s j) j r'" if "cl_nodes s j = Some r'" "j \<noteq> i" for j r'
    using node_inv_more [OF I(1) [OF that(1)] that(2)] .
  moreover have "fits (castBy j ?H) (fst (cl_stored s j)) (snd (cl_stored s j))" if "j \<noteq> i" for j
    using I(2) [of j] that by (simp add: castBy_def)
  moreover have "t \<noteq> 0" if "(j, t, c) \<in> ?H" for j t c
    using that I(3) N(6) by (auto simp: queued_def)
  moreover have "elected C ?H j t" if "(j, t) \<in> cl_won s" for j t
    by (rule elected_mono [OF I(4) [OF that]]) blast
  ultimately show ?thesis
    unfolding cl_inv_def readyNode_def using H i N(7) by auto
qed

lemma cl_step_inv: "cl_step E C s s' \<Longrightarrow> cl_inv C s \<Longrightarrow> cl_inv C s'"
proof (induction rule: cl_step.induct)
  case (cl_start c i s rand r')
  then show ?case by (blast intro: putNode_inv started_inv)
next
  case (cl_deliver s i r m err r')
  note n = deliver_inv [OF cl_deliver(6,1,2,3,4,5)]
  show ?case by (rule putNode_inv [OF cl_deliver(6) n])
next
  case (cl_tick s i r r')
  note I = node_invD(2) [OF cl_invD(1) [OF cl_tick(5,1)]]
  have "localStep r r'" "role_ok r'" "raft_le r r'"
    using postD [OF tick_local [OF I] cl_tick(3)] postD [OF tick_role [OF I] cl_tick(3)]
      postD [OF tick_le [OF cl_tick(2)] cl_tick(3)] .
  then show ?case using putNode_inv [OF cl_tick(5) local_inv [OF cl_tick(5,1)]] cl_tick(4) by blast
next
  case (cl_conf s i r cc cs r')
  note I = node_invD(2) [OF cl_invD(1) [OF cl_conf(4,1)]]
  have "localStep r r'" "role_ok r'" "raft_le r r'"
    using postD [OF applyConfChange_local cl_conf(2)] postD [OF applyConfChange_role [OF I] cl_conf(2)]
      postD [OF applyConfChange_le cl_conf(2)] by auto
  then show ?case using putNode_inv [OF cl_conf(4) local_inv [OF cl_conf(4,1)]] cl_conf(3) by blast
next
  case (cl_store s i r)
  then show ?case by (intro store_inv)
next
  case (cl_ready s i r l rs)
  then show ?case by (intro ready_inv)
qed

lemma cl_reach_inv: "cl_reach E C s \<Longrightarrow> cl_inv C s"
proof (induction rule: cl_reach.induct)
  case (cl_init st)
  show ?case by (simp add: cl_inv_def grants_def castBy_def fits_def)
next
  case (cl_next s s')
  then show ?case using cl_step_inv by blast
qed

lemma elected_unique:
  assumes s: "cl_inv C s" and C: "jc_IDs C \<noteq> {}"
    and i: "elected C (grants (cl_net s)) i t" and j: "elected C (grants (cl_net s)) j t"
  shows "i = j"
proof -
  from i obtain v where v: "jc_VoteResult C v = VoteWon" "\<forall>k. v k = Some True \<longrightarrow> (k, t, i) \<in> grants (cl_net s)"
    unfolding elected_def by blast
  from j obtain w where w: "jc_VoteResult C w = VoteWon" "\<forall>k. w k = Some True \<longrightarrow> (k, t, j) \<in> grants (cl_net s)"
    unfolding elected_def by blast
  obtain k where "v k = Some True" "w k = Some True" using joint.winners_share_voter [OF C v(1) w(1)] by blast
  with v(2) w(2) cl_invD(2) [OF s, of k] show ?thesis by (auto simp: fits_def castBy_def)
qed

section \<open>A run\<close>

lemma sample_voters:
  "raftVoters (sampleNode i) = (Some {1, 2, 3}, None)" "raftVoters sampleCand = (Some {1, 2, 3}, None)"
  "raftVoters sampleVoter = (Some {1, 2, 3}, None)" "raftVoters sampleCounting = (Some {1, 2, 3}, None)"
  "raftVoters sampleLeader = (Some {1, 2, 3}, None)"
  by (simp_all add: raftVoters_def sampleCand_def sampleVoter_def sampleCounting_def sampleLeader_def emptied_def node_eval)

lemma sample_sels [simp]:
  "r_Term (sampleNode i) = 0" "r_state (sampleNode i) = StateFollower" "r_state sampleVoter = StateFollower"
  "r_Term (emptied r) = r_Term r" "r_Term sampleCand = 1" "r_state sampleCand = StateCandidate" "r_Term sampleCounting = 1"
  "r_state sampleCounting = StateCandidate" "r_Term sampleLeader = 1" "r_state sampleLeader = StateLeader"
  "r_msgs sampleCand = [voteReq 2, voteReq 3]" "r_msgsAfterAppend sampleCand = [voteResp 1]"
  "r_msgsAfterAppend sampleVoter = [voteResp 2]"
  by (simp_all add: sampleCand_def sampleVoter_def sampleCounting_def sampleLeader_def emptied_def node_eval)

lemma sample_cleared: "sampleCand\<lparr>r_readStates := [], r_msgs := [], r_msgsAfterAppend := [], r_raftLog := memLog\<rparr> = emptied sampleCand"
  by (simp add: sampleCand_def emptied_def node_eval)

lemma sample_msgs [simp]: "m_Type hupMsg = MsgHup" "m_Term hupMsg = 0" "m_Type (voteReq i) = MsgVote" "m_Term (voteReq i) = 1"
  "m_Type (voteResp i) = MsgVoteResp" "m_Term (voteResp i) = 1" "m_To (voteResp i) = 1"
  by (simp_all add: hupMsg_def voteReq_def voteResp_def emptyMessage_def)

lemma sample_stored: "storedIn (sampleCfg i) = (0, 0)" "cfg_ID (sampleCfg i) = i"
  by (simp_all add: storedIn_def sampleCfg_def mem_storage)

lemma cl_start_at:
  assumes "cl_reach E C s" "newRaft E rand c = Some r'" "cfg_ID c = i" "storedIn c = cl_stored s i" "raftVoters r' = C"
  shows "cl_reach E C (putNode i r' s)"
  using assms by (auto intro: cl_next cl_start)

lemma cl_deliver_to:
  assumes "cl_reach E C s" "Step E m r = Some (err, r')" "cl_nodes s i = Some r" "inRange m r" "raftVoters r' = C"
    "m_Type m = MsgVoteResp \<Longrightarrow> m \<in> cl_net s \<and> m_To m = i"
  shows "cl_reach E C (putNode i r' s)"
  using assms by (auto intro: cl_next cl_deliver)

lemma sample_voting: "cl_reach sampleLib (Some {1, 2, 3}, None) sampleVoting"
proof -
  let ?C = "(Some {1, 2, 3}, None)"
  let ?s0 = "\<lparr>cl_nodes = Map.empty, cl_stored = (\<lambda>_. (0, 0)), cl_net = {}, cl_won = {}\<rparr>"
  let ?s1 = "putNode 1 (sampleNode 1) ?s0"
  let ?s2 = "putNode 2 (sampleNode 2) ?s1"
  let ?s3 = "putNode 1 sampleCand ?s2"
  let ?s4 = "readyNode 1 sampleCand memLog [] ?s3"
  let ?s5 = "putNode 2 sampleVoter ?s4"
  note E = putNode_def readyNode_def inRange_def fromLeader_def sample_voters
  have "cl_reach sampleLib ?C ?s1"
    by (rule cl_start_at [OF cl_init sample_started(1)]) (simp_all add: sample_stored E)
  then have "cl_reach sampleLib ?C ?s2"
    by (rule cl_start_at [OF _ sample_started(2)]) (simp_all add: sample_stored E)
  then have "cl_reach sampleLib ?C ?s3" by (rule cl_deliver_to [OF _ sample_campaign]) (simp_all add: E)
  then have "cl_reach sampleLib ?C ?s4" by (rule cl_next [OF _ cl_ready]) (simp add: E)
  then have "cl_reach sampleLib ?C ?s5" by (rule cl_deliver_to [OF _ sample_vote]) (simp_all add: E)
  then have "cl_reach sampleLib ?C (readyNode 2 sampleVoter memLog [] ?s5)" by (rule cl_next [OF _ cl_ready]) (simp add: E)
  then show ?thesis by (simp add: sampleVoting_def)
qed

lemma sample_elected: "cl_reach sampleLib (Some {1, 2, 3}, None) sampleElected"
proof -
  note E = sampleVoting_def putNode_def readyNode_def inRange_def fromLeader_def sample_voters sample_cleared
  have "cl_reach sampleLib (Some {1, 2, 3}, None) (putNode 1 sampleCounting sampleVoting)"
    by (rule cl_deliver_to [OF sample_voting sample_own_vote]) (simp_all add: E)
  then show ?thesis
    unfolding sampleElected_def by (rule cl_deliver_to [OF _ sample_won]) (simp_all add: E)
qed

section \<open>Properties\<close>

text \<open>
  C1: Election safety. In every state that a cluster with a fixed, non-empty set of voters
  can reach, under any loss, repetition, delay and reordering of messages and any crashes
  and restarts, at most one node has ever been leader of a term; in particular two nodes
  that are leaders of the same term at the same time are the same node.
\<close>

theorem election_safety:
  assumes "cl_reach E C s" "jc_IDs C \<noteq> {}"
  shows "((i, t) \<in> cl_won s \<and> (j, t) \<in> cl_won s \<longrightarrow> i = j) \<and>
    (\<forall>r r'. cl_nodes s i = Some r \<and> r_state r = StateLeader \<and>
       cl_nodes s j = Some r' \<and> r_state r' = StateLeader \<and> r_Term r = r_Term r' \<longrightarrow> i = j)"
proof (intro conjI impI allI; elim conjE)
  note inv = cl_reach_inv [OF assms(1)]
  show "i = j" if "(i, t) \<in> cl_won s" "(j, t) \<in> cl_won s"
    using elected_unique [OF inv assms(2) cl_invD(4) [OF inv that(1)] cl_invD(4) [OF inv that(2)]] .
  fix r r' assume r: "cl_nodes s i = Some r" "r_state r = StateLeader" and
    r': "cl_nodes s j = Some r'" "r_state r' = StateLeader" and t: "r_Term r = r_Term r'"
  have "elected C (grants (cl_net s)) i (r_Term r)" "elected C (grants (cl_net s)) j (r_Term r)"
    using node_invD(9) [OF cl_invD(1) [OF inv r(1)] r(2)] node_invD(9) [OF cl_invD(1) [OF inv r'(1)] r'(2)] t by simp_all
  then show "i = j" by (rule elected_unique [OF inv assms(2)])
qed

theorem election_safety_witness:
  "cl_reach sampleLib (Some {1, 2, 3}, None) sampleElected \<and> {j. (j, 1) \<in> cl_won sampleElected} = {1} \<and>
   {j. \<exists>r. cl_nodes sampleElected j = Some r \<and> r_state r = StateLeader \<and> r_Term r = 1} = {1}"
proof -
  have won: "(1, 1) \<in> cl_won sampleElected" and
    lead: "cl_nodes sampleElected 1 = Some sampleLeader" and
    role: "r_state sampleLeader = StateLeader" "r_Term sampleLeader = 1"
    by (simp_all add: sampleElected_def putNode_def sampleLeader_def node_eval)
  have C: "jc_IDs (Some {1, 2, 3}, None) \<noteq> {}" by (simp add: jc_IDs_def mc_ids_def)
  show ?thesis
    using election_safety [OF sample_elected C, of _ 1 1] sample_elected won lead role by auto
qed

end
