(* ===== verification/RawNode.thy ===== *)
theory RawNode
  imports RaftStep
begin

text \<open>
  \<open>rawnode.go\<close> with \<open>bootstrap.go\<close> and \<open>status.go\<close>: the layer that hands the work of a node
  to the application. A \<open>Ready\<close> carries what must be stored, applied and sent; it is
  acknowledged by \<open>Advance\<close>, or by the responses to the storage messages when the storage
  is written asynchronously. The storage messages are the only ones that carry responses,
  so the messages of a \<open>Ready\<close> are of type \<open>StorageMessage\<close>.
\<close>

section \<open>Model\<close>

datatype node_error =
    RaftErr raft_error | ErrStepLocalMsg | ErrStepPeerNotFound | MarshalFailed
  | BootstrapNoPeers | BootstrapNonEmpty | StorageFailed storage_error

record Ready =
  rd_SoftState :: "SoftState option"
  rd_HardState :: "HardState option"
  rd_ReadStates :: "ReadState list"
  rd_Entries :: "Entry list"
  rd_Snapshot :: "Snapshot option"
  rd_CommittedEntries :: "Entry list"
  rd_Messages :: "StorageMessage list"
  rd_MustSync :: bool

record RawNode =
  rn_raft :: raft
  rn_asyncStorageWrites :: bool
  rn_prevSoftSt :: SoftState
  rn_prevHardSt :: HardState
  rn_stepsOnAdvance :: "Message list"

definition ss_equal :: "SoftState \<Rightarrow> SoftState \<Rightarrow> bool" where
  "ss_equal a b \<longleftrightarrow> ss_Lead a = ss_Lead b \<and> ss_RaftState a = ss_RaftState b"

definition NewRawNode :: "proto_lib \<Rightarrow> (nat \<Rightarrow> nat) \<Rightarrow> RaftConfig \<Rightarrow> RawNode option" where
  "NewRawNode E rand config = do {
     r \<leftarrow> newRaft E rand config;
     Some \<lparr>rn_raft = r, rn_asyncStorageWrites = cfg_AsyncStorageWrites config,
           rn_prevSoftSt = softState r, rn_prevHardSt = hardState r, rn_stepsOnAdvance = []\<rparr>
   }"

text \<open>\<open>Step\<close> of the node below, with its error.\<close>

definition stepRaft :: "proto_lib \<Rightarrow> Message \<Rightarrow> RawNode \<Rightarrow> (node_error option \<times> RawNode) option" where
  "stepRaft E m rn = do {
     (err, r) \<leftarrow> Step E m (rn_raft rn);
     Some (map_option RaftErr err, rn\<lparr>rn_raft := r\<rparr>)
   }"

text \<open>The same where the error is dropped.\<close>

definition stepQuietly :: "proto_lib \<Rightarrow> Message \<Rightarrow> RawNode \<Rightarrow> RawNode option" where
  "stepQuietly E m rn = do { (err, rn1) \<leftarrow> stepRaft E m rn; Some rn1 }"

definition rn_Tick :: "proto_lib \<Rightarrow> RawNode \<Rightarrow> RawNode option" where
  "rn_Tick E rn = do { r \<leftarrow> tick E (rn_raft rn); Some (rn\<lparr>rn_raft := r\<rparr>) }"

definition TickQuiesced :: "RawNode \<Rightarrow> RawNode" where
  "TickQuiesced rn = rn\<lparr>rn_raft := (rn_raft rn)\<lparr>r_electionElapsed := r_electionElapsed (rn_raft rn) + 1\<rparr>\<rparr>"

definition rn_Campaign :: "proto_lib \<Rightarrow> RawNode \<Rightarrow> (node_error option \<times> RawNode) option" where
  "rn_Campaign E rn = stepRaft E (emptyMessage\<lparr>m_Type := MsgHup\<rparr>) rn"

definition rn_Propose :: "proto_lib \<Rightarrow> bytes \<Rightarrow> RawNode \<Rightarrow> (node_error option \<times> RawNode) option" where
  "rn_Propose E data rn = stepRaft E (emptyMessage\<lparr>m_Type := MsgProp, m_From := r_id (rn_raft rn),
     m_Entries := [emptyEntry\<lparr>e_Data := data\<rparr>]\<rparr>) rn"

definition rn_ProposeConfChange :: "proto_lib \<Rightarrow> ConfChangeI option \<Rightarrow> RawNode \<Rightarrow> (node_error option \<times> RawNode) option" where
  "rn_ProposeConfChange E cc rn =
     (case confChangeToMsg E cc of
        None \<Rightarrow> Some (Some MarshalFailed, rn)
      | Some m \<Rightarrow> stepRaft E m rn)"

definition rn_ApplyConfChange :: "proto_lib \<Rightarrow> ConfChangeI \<Rightarrow> RawNode \<Rightarrow> (ConfState \<times> RawNode) option" where
  "rn_ApplyConfChange E cc rn = do {
     (cs, r) \<leftarrow> applyConfChange E (AsV2 cc) (rn_raft rn);
     Some (cs, rn\<lparr>rn_raft := r\<rparr>)
   }"

text \<open>The response of a peer the node does not track.\<close>

definition unknownResponse :: "Message \<Rightarrow> raft \<Rightarrow> bool" where
  "unknownResponse m r \<longleftrightarrow> IsResponseMsg (m_Type m) \<and> \<not> IsLocalMsgTarget (m_From m) \<and>
     getProgress (m_From m) r = None"

definition rn_Step :: "proto_lib \<Rightarrow> Message \<Rightarrow> RawNode \<Rightarrow> (node_error option \<times> RawNode) option" where
  "rn_Step E m rn =
     (if IsLocalMsg (m_Type m) \<and> \<not> IsLocalMsgTarget (m_From m) then Some (Some ErrStepLocalMsg, rn)
      else if unknownResponse m (rn_raft rn) then Some (Some ErrStepPeerNotFound, rn)
      else stepRaft E m rn)"

subsection \<open>\<open>Ready\<close>\<close>

definition applyUnstableEntries :: "RawNode \<Rightarrow> bool" where
  "applyUnstableEntries rn \<longleftrightarrow> \<not> rn_asyncStorageWrites rn"

definition MustSync :: "HardState \<Rightarrow> HardState \<Rightarrow> nat \<Rightarrow> bool" where
  "MustSync st prevst entsnum \<longleftrightarrow> entsnum \<noteq> 0 \<or> hs_Vote st \<noteq> hs_Vote prevst \<or> hs_Term st \<noteq> hs_Term prevst"

definition needStorageAppendMsg :: "raft \<Rightarrow> Ready \<Rightarrow> bool" where
  "needStorageAppendMsg r rd \<longleftrightarrow> length (rd_Entries rd) > 0 \<or> \<not> IsEmptyHardState (rd_HardState rd) \<or>
     \<not> IsEmptySnap (rd_Snapshot rd) \<or> length (r_msgsAfterAppend r) > 0"

definition needStorageAppendRespMsg :: "raft \<Rightarrow> Ready \<Rightarrow> bool" where
  "needStorageAppendRespMsg r rd \<longleftrightarrow> l_hasNextOrInProgressUnstableEnts (r_raftLog r) \<or>
     \<not> IsEmptySnap (rd_Snapshot rd)"

definition newStorageAppendRespMsg :: "raft \<Rightarrow> Ready \<Rightarrow> Message option" where
  "newStorageAppendRespMsg r rd = do {
     let m = emptyMessage\<lparr>m_Type := MsgStorageAppendResp, m_To := r_id r, m_From := LocalAppendThread,
                          m_Term := r_Term r\<rparr>;
     m1 \<leftarrow> (if l_hasNextOrInProgressUnstableEnts (r_raftLog r) then do {
             last_id \<leftarrow> l_lastEntryID (r_raftLog r);
             Some (m\<lparr>m_Index := eid_index last_id, m_LogTerm := eid_term last_id\<rparr>)
           } else Some m);
     Some (if IsEmptySnap (rd_Snapshot rd) then m1 else m1\<lparr>m_Snapshot := rd_Snapshot rd\<rparr>)
   }"

definition newStorageAppendMsg :: "raft \<Rightarrow> Ready \<Rightarrow> StorageMessage option" where
  "newStorageAppendMsg r rd = do {
     let m = emptyMessage\<lparr>m_Type := MsgStorageAppend, m_To := LocalAppendThread, m_From := r_id r,
                          m_Entries := rd_Entries rd\<rparr>;
     let m1 = (case rd_HardState rd of
                 None \<Rightarrow> m
               | Some h \<Rightarrow> if IsEmptyHardState (Some h) then m
                           else m\<lparr>m_Term := hs_Term h, m_Vote := hs_Vote h, m_Commit := hs_Commit h\<rparr>);
     let m2 = (if IsEmptySnap (rd_Snapshot rd) then m1 else m1\<lparr>m_Snapshot := rd_Snapshot rd\<rparr>);
     resps \<leftarrow> (if needStorageAppendRespMsg r rd then do {
                resp \<leftarrow> newStorageAppendRespMsg r rd;
                Some (r_msgsAfterAppend r @ [resp])
              } else Some (r_msgsAfterAppend r));
     Some (Message.extend m2 \<lparr>m_Responses = resps\<rparr>)
   }"

definition needStorageApplyMsg :: "Ready \<Rightarrow> bool" where
  "needStorageApplyMsg rd \<longleftrightarrow> length (rd_CommittedEntries rd) > 0"

definition needStorageApplyRespMsg :: "Ready \<Rightarrow> bool" where
  "needStorageApplyRespMsg rd \<longleftrightarrow> needStorageApplyMsg rd"

definition newStorageApplyRespMsg :: "raft \<Rightarrow> Entry list \<Rightarrow> Message" where
  "newStorageApplyRespMsg r ents = emptyMessage\<lparr>m_Type := MsgStorageApplyResp, m_To := r_id r,
     m_From := LocalApplyThread, m_Term := 0, m_Entries := ents\<rparr>"

definition newStorageApplyMsg :: "raft \<Rightarrow> Ready \<Rightarrow> StorageMessage" where
  "newStorageApplyMsg r rd = Message.extend
     (emptyMessage\<lparr>m_Type := MsgStorageApply, m_To := LocalApplyThread, m_From := r_id r,
        m_Term := 0, m_Entries := rd_CommittedEntries rd\<rparr>)
     \<lparr>m_Responses = [newStorageApplyRespMsg r (rd_CommittedEntries rd)]\<rparr>"

definition readyMessages :: "RawNode \<Rightarrow> Ready \<Rightarrow> StorageMessage list option" where
  "readyMessages rn rd = (
     let r = rn_raft rn in
     if rn_asyncStorageWrites rn then do {
       app \<leftarrow> (if needStorageAppendMsg r rd then map_option (\<lambda>m. [m]) (newStorageAppendMsg r rd) else Some []);
       Some (rd_Messages rd @ app @ (if needStorageApplyMsg rd then [newStorageApplyMsg r rd] else []))
     }
     else Some (rd_Messages rd @ map noResponses (filter (\<lambda>m. m_To m \<noteq> r_id r) (r_msgsAfterAppend r))))"

definition readyWithoutAccept :: "proto_lib \<Rightarrow> RawNode \<Rightarrow> Ready option" where
  "readyWithoutAccept E rn = do {
     let r = rn_raft rn;
     ents \<leftarrow> l_nextUnstableEnts (r_raftLog r);
     committed \<leftarrow> l_nextCommittedEnts E (applyUnstableEntries rn) (r_raftLog r);
     let rd = \<lparr>rd_SoftState = if ss_equal (softState r) (rn_prevSoftSt rn) then None else Some (softState r),
               rd_HardState = if isHardStateEqual (hardState r) (rn_prevHardSt rn) then None
                              else Some (hardState r),
               rd_ReadStates = r_readStates r,
               rd_Entries = ents,
               rd_Snapshot = if l_hasNextUnstableSnapshot (r_raftLog r)
                             then l_nextUnstableSnapshot (r_raftLog r) else None,
               rd_CommittedEntries = committed,
               rd_Messages = map noResponses (r_msgs r),
               rd_MustSync = MustSync (hardState r) (rn_prevHardSt rn) (length ents)\<rparr>;
     msgs \<leftarrow> readyMessages rn rd;
     Some (rd\<lparr>rd_Messages := msgs\<rparr>)
   }"

text \<open>What \<open>acceptReady\<close> leaves to be stepped by \<open>Advance\<close>.\<close>

definition advanceSteps :: "Ready \<Rightarrow> raft \<Rightarrow> Message list option" where
  "advanceSteps rd r = do {
     app \<leftarrow> (if needStorageAppendRespMsg r rd then map_option (\<lambda>m. [m]) (newStorageAppendRespMsg r rd)
            else Some []);
     Some (filter (\<lambda>m. m_To m = r_id r) (r_msgsAfterAppend r) @ app @
           (if needStorageApplyRespMsg rd then [newStorageApplyRespMsg r (rd_CommittedEntries rd)] else []))
   }"

definition acceptReady :: "proto_lib \<Rightarrow> Ready \<Rightarrow> RawNode \<Rightarrow> RawNode option" where
  "acceptReady E rd rn = do {
     let r = rn_raft rn;
     steps \<leftarrow> (if rn_asyncStorageWrites rn then Some (rn_stepsOnAdvance rn)
              else do {
                panicIf (length (rn_stepsOnAdvance rn) \<noteq> 0);
                advanceSteps rd r
              });
     let l = l_acceptUnstable (r_raftLog r);
     l1 \<leftarrow> (if length (rd_CommittedEntries rd) > 0 then do {
             e \<leftarrow> go_index (rd_CommittedEntries rd) (length (rd_CommittedEntries rd) - 1);
             l_acceptApplying (e_Index e) (entsSize E (rd_CommittedEntries rd)) (applyUnstableEntries rn) l
           } else Some l);
     Some (rn\<lparr>rn_raft := r\<lparr>r_readStates := if length (rd_ReadStates rd) \<noteq> 0 then [] else r_readStates r,
                           r_msgs := [], r_msgsAfterAppend := [], r_raftLog := l1\<rparr>,
              rn_prevSoftSt := (case rd_SoftState rd of None \<Rightarrow> rn_prevSoftSt rn | Some s \<Rightarrow> s),
              rn_prevHardSt := (case rd_HardState rd of
                                  None \<Rightarrow> rn_prevHardSt rn
                                | Some h \<Rightarrow> if IsEmptyHardState (Some h) then rn_prevHardSt rn else h),
              rn_stepsOnAdvance := steps\<rparr>)
   }"

definition rn_Ready :: "proto_lib \<Rightarrow> RawNode \<Rightarrow> (Ready \<times> RawNode) option" where
  "rn_Ready E rn = do {
     rd \<leftarrow> readyWithoutAccept E rn;
     rn1 \<leftarrow> acceptReady E rd rn;
     Some (rd, rn1)
   }"

definition HasReady :: "RawNode \<Rightarrow> bool option" where
  "HasReady rn = (
     let r = rn_raft rn in
     if \<not> ss_equal (softState r) (rn_prevSoftSt rn) then Some True
     else if \<not> IsEmptyHardState (Some (hardState r)) \<and> \<not> isHardStateEqual (hardState r) (rn_prevHardSt rn)
     then Some True
     else if l_hasNextUnstableSnapshot (r_raftLog r) then Some True
     else if length (r_msgs r) > 0 \<or> length (r_msgsAfterAppend r) > 0 then Some True
     else do {
       ue \<leftarrow> l_hasNextUnstableEnts (r_raftLog r);
       if ue \<or> l_hasNextCommittedEnts (applyUnstableEntries rn) (r_raftLog r) then Some True
       else Some (length (r_readStates r) \<noteq> 0)
     })"

definition rn_Advance :: "proto_lib \<Rightarrow> RawNode \<Rightarrow> RawNode option" where
  "rn_Advance E rn = do {
     panicIf (rn_asyncStorageWrites rn);
     rn1 \<leftarrow> foldO (stepQuietly E) (rn_stepsOnAdvance rn) rn;
     Some (rn1\<lparr>rn_stepsOnAdvance := []\<rparr>)
   }"

subsection \<open>Reports and requests\<close>

type_synonym SnapshotStatus = int

definition SnapshotFinish :: SnapshotStatus where
  "SnapshotFinish = 1"

definition SnapshotFailure :: SnapshotStatus where
  "SnapshotFailure = 2"

definition rn_ReportUnreachable :: "proto_lib \<Rightarrow> u64 \<Rightarrow> RawNode \<Rightarrow> RawNode option" where
  "rn_ReportUnreachable E i rn = stepQuietly E (emptyMessage\<lparr>m_Type := MsgUnreachable, m_From := i\<rparr>) rn"

definition rn_ReportSnapshot :: "proto_lib \<Rightarrow> u64 \<Rightarrow> SnapshotStatus \<Rightarrow> RawNode \<Rightarrow> RawNode option" where
  "rn_ReportSnapshot E i status rn = stepQuietly E
     (emptyMessage\<lparr>m_Type := MsgSnapStatus, m_From := i, m_Reject := (status = SnapshotFailure)\<rparr>) rn"

definition rn_TransferLeader :: "proto_lib \<Rightarrow> u64 \<Rightarrow> RawNode \<Rightarrow> RawNode option" where
  "rn_TransferLeader E transferee rn =
     stepQuietly E (emptyMessage\<lparr>m_Type := MsgTransferLeader, m_From := transferee\<rparr>) rn"

definition rn_ForgetLeader :: "proto_lib \<Rightarrow> RawNode \<Rightarrow> (node_error option \<times> RawNode) option" where
  "rn_ForgetLeader E rn = stepRaft E (emptyMessage\<lparr>m_Type := MsgForgetLeader\<rparr>) rn"

definition rn_ReadIndex :: "proto_lib \<Rightarrow> bytes \<Rightarrow> RawNode \<Rightarrow> RawNode option" where
  "rn_ReadIndex E rctx rn = stepQuietly E
     (emptyMessage\<lparr>m_Type := MsgReadIndex, m_Entries := [emptyEntry\<lparr>e_Data := rctx\<rparr>]\<rparr>) rn"

subsection \<open>Status\<close>

record BasicStatus =
  bs_ID :: u64
  bs_HardState :: HardState
  bs_SoftState :: SoftState
  bs_Applied :: u64
  bs_LeadTransferee :: u64

text \<open>The progress map is nil unless the node is leader.\<close>

record Status =
  s_BasicStatus :: BasicStatus
  s_Config :: Config
  s_Progress :: "(u64 \<rightharpoonup> Progress) option"

definition copyProgress :: "raft \<Rightarrow> u64 \<Rightarrow> (u64 \<rightharpoonup> Progress) \<Rightarrow> (u64 \<rightharpoonup> Progress) option" where
  "copyProgress r i m = do {
     pr \<leftarrow> getProgress i r;
     Some (m(i \<mapsto> pr\<lparr>pr_Inflights := in_Clone (pr_Inflights pr)\<rparr>))
   }"

definition getProgressCopy :: "raft \<Rightarrow> (u64 \<rightharpoonup> Progress) option" where
  "getProgressCopy r = Visit (copyProgress r) (r_trk r) Map.empty"

definition getBasicStatus :: "raft \<Rightarrow> BasicStatus" where
  "getBasicStatus r = \<lparr>bs_ID = r_id r, bs_HardState = hardState r, bs_SoftState = softState r,
     bs_Applied = l_applied (r_raftLog r), bs_LeadTransferee = r_leadTransferee r\<rparr>"

definition getStatus :: "raft \<Rightarrow> Status option" where
  "getStatus r = do {
     let b = getBasicStatus r;
     p \<leftarrow> (if ss_RaftState (bs_SoftState b) = StateLeader then map_option Some (getProgressCopy r) else Some None);
     Some \<lparr>s_BasicStatus = b, s_Config = Config_Clone (t_Config (r_trk r)), s_Progress = p\<rparr>
   }"

definition rn_Status :: "RawNode \<Rightarrow> Status option" where
  "rn_Status rn = getStatus (rn_raft rn)"

definition rn_BasicStatus :: "RawNode \<Rightarrow> BasicStatus" where
  "rn_BasicStatus rn = getBasicStatus (rn_raft rn)"

datatype ProgressType = ProgressTypePeer | ProgressTypeLearner

text \<open>A progress without its inflight window, as the visitor sees it.\<close>

record ProgressView =
  pv_Match :: u64
  pv_Next :: u64
  pv_sentCommit :: u64
  pv_State :: StateType
  pv_PendingSnapshot :: u64
  pv_RecentActive :: bool
  pv_MsgAppFlowPaused :: bool
  pv_IsLearner :: bool

definition progressView :: "Progress \<Rightarrow> ProgressView" where
  "progressView pr = \<lparr>pv_Match = pr_Match pr, pv_Next = pr_Next pr, pv_sentCommit = pr_sentCommit pr,
     pv_State = pr_State pr, pv_PendingSnapshot = pr_PendingSnapshot pr,
     pv_RecentActive = pr_RecentActive pr, pv_MsgAppFlowPaused = pr_MsgAppFlowPaused pr,
     pv_IsLearner = pr_IsLearner pr\<rparr>"

definition WithProgress :: "(u64 \<Rightarrow> ProgressType \<Rightarrow> ProgressView \<Rightarrow> 's \<Rightarrow> 's) \<Rightarrow> RawNode \<Rightarrow> 's \<Rightarrow> 's option" where
  "WithProgress visitor rn = Visit (\<lambda>i s. do {
       pr \<leftarrow> getProgress i (rn_raft rn);
       Some (visitor i (if pr_IsLearner pr then ProgressTypeLearner else ProgressTypePeer) (progressView pr) s)
     }) (r_trk (rn_raft rn))"

subsection \<open>Bootstrapping\<close>

record Peer =
  peer_ID :: u64
  peer_Context :: bytes

text \<open>The entry of a peer; \<open>None\<close> when it cannot be encoded.\<close>

definition bootstrapEntry :: "proto_lib \<Rightarrow> nat \<Rightarrow> Peer \<Rightarrow> Entry option" where
  "bootstrapEntry E i peer = do {
     data \<leftarrow> pb_MarshalCC E \<lparr>cc_Type = ConfChangeAddNode, cc_NodeId = peer_ID peer,
                             cc_Context = peer_Context peer, cc_Id = 0\<rparr>;
     Some \<lparr>e_Term = 1, e_Index = of_nat (i + 1), e_Type = EntryConfChange, e_Data = data\<rparr>
   }"

fun bootstrapEntries :: "proto_lib \<Rightarrow> nat \<Rightarrow> Peer list \<Rightarrow> Entry list option" where
  "bootstrapEntries E i [] = Some []"
| "bootstrapEntries E i (p # ps) = do {
     e \<leftarrow> bootstrapEntry E i p;
     es \<leftarrow> bootstrapEntries E (i + 1) ps;
     Some (e # es)
   }"

definition addPeer :: "proto_lib \<Rightarrow> Peer \<Rightarrow> raft \<Rightarrow> raft option" where
  "addPeer E peer r = do {
     (cs, r1) \<leftarrow> applyConfChange E (AsV2 (CCV1 \<lparr>cc_Type = ConfChangeAddNode, cc_NodeId = peer_ID peer,
                                               cc_Context = [], cc_Id = 0\<rparr>)) r;
     Some r1
   }"

definition rn_Bootstrap :: "proto_lib \<Rightarrow> Peer list \<Rightarrow> RawNode \<Rightarrow> (node_error option \<times> RawNode) option" where
  "rn_Bootstrap E peers rn =
     (if length peers = 0 then Some (Some BootstrapNoPeers, rn)
      else do {
        li \<leftarrow> st_LastIndex (l_storage (r_raftLog (rn_raft rn)));
        case li of
          Inl err \<Rightarrow> Some (Some (StorageFailed err), rn)
        | Inr i \<Rightarrow>
            if i \<noteq> 0 then Some (Some BootstrapNonEmpty, rn)
            else do {
              r \<leftarrow> becomeFollower 1 None_id (rn_raft rn);
              let rn1 = rn\<lparr>rn_prevHardSt := emptyState, rn_raft := r\<rparr>;
              case bootstrapEntries E 0 peers of
                None \<Rightarrow> Some (Some MarshalFailed, rn1)
              | Some ents \<Rightarrow> do {
                  (_, l) \<leftarrow> l_append ents (r_raftLog r);
                  r1 \<leftarrow> foldO (addPeer E) peers (r\<lparr>r_raftLog := l\<lparr>l_committed := of_nat (length ents)\<rparr>\<rparr>);
                  Some (None, rn1\<lparr>rn_raft := r1\<rparr>)
                }
            }
      })"

end
