(* ===== verification/RawNodeProps.thy ===== *)
theory RawNodeProps
  imports RawNode Election "HOL-Library.Sublist"
begin

text \<open>
  What \<open>RawNode\<close> guarantees the application: the state it remembers as handed out is never
  ahead of the node, a \<open>Ready\<close> carries everything that must be stored before the messages
  that depend on it leave, and \<open>HasReady\<close> tells whether there is anything to do. With it,
  handling a \<open>Ready\<close> is the step \<open>cl_ready\<close> of the cluster.
\<close>

section \<open>Specification\<close>

text \<open>The hard state last handed out is not ahead of the one of the node.\<close>

definition rn_ok :: "RawNode \<Rightarrow> bool" where
  "rn_ok rn \<longleftrightarrow> role_ok (rn_raft rn) \<and>
     tv_le (hs_Term (rn_prevHardSt rn)) (hs_Vote (rn_prevHardSt rn)) (r_Term (rn_raft rn)) (r_Vote (rn_raft rn)) \<and>
     hs_Commit (rn_prevHardSt rn) \<le> l_committed (r_raftLog (rn_raft rn))"

text \<open>The hard state in storage once a \<open>Ready\<close> has been handled.\<close>

definition storedAfter :: "Ready \<Rightarrow> RawNode \<Rightarrow> HardState" where
  "storedAfter rd rn = (case rd_HardState rd of None \<Rightarrow> rn_prevHardSt rn | Some h \<Rightarrow> h)"

definition storageTypes :: "MessageType set" where
  "storageTypes = {MsgStorageAppendResp, MsgStorageApplyResp}"

text \<open>The queue of responses holds nothing that a storage thread would send.\<close>

definition queue_ok :: "raft \<Rightarrow> bool" where
  "queue_ok r \<longleftrightarrow> (\<forall>m \<in> set (r_msgsAfterAppend r). afterAppend (m_Type m))"

text \<open>The messages on their way once a \<open>Ready\<close> is handled: those sent, and those to the node itself.\<close>

definition handedOut :: "Ready \<Rightarrow> RawNode \<Rightarrow> Message set" where
  "handedOut rd rn' = Message.truncate ` set (rd_Messages rd) \<union>
     {m \<in> set (rn_stepsOnAdvance rn'). m_Type m \<notin> storageTypes}"

definition emptyReady :: "Ready \<Rightarrow> bool" where
  "emptyReady rd \<longleftrightarrow> rd_SoftState rd = None \<and> rd_HardState rd = None \<and> rd_ReadStates rd = [] \<and>
     rd_Entries rd = [] \<and> rd_Snapshot rd = None \<and> rd_CommittedEntries rd = [] \<and> rd_Messages rd = [] \<and>
     \<not> rd_MustSync rd"

text \<open>Sizes of the entries: none is empty on the wire, and together they fit a 64 bit size.\<close>

definition sizes_ok :: "proto_lib \<Rightarrow> stored_log \<Rightarrow> bool" where
  "sizes_ok E A \<longleftrightarrow> totalSize E (snd (snd A)) < 2 ^ 64 \<and> (\<forall>e \<in> set (snd (snd A)). 0 < pb_Size E e)"

text \<open>The calls of the application, within the range of terms.\<close>

fun stepsInRange :: "proto_lib \<Rightarrow> Message list \<Rightarrow> RawNode \<Rightarrow> bool" where
  "stepsInRange E [] rn = True"
| "stepsInRange E (m # ms) rn = (inRange m (rn_raft rn) \<and>
     (case stepQuietly E m rn of None \<Rightarrow> True | Some rn' \<Rightarrow> stepsInRange E ms rn'))"

inductive rn_call :: "proto_lib \<Rightarrow> RawNode \<Rightarrow> RawNode \<Rightarrow> bool" for E where
  call_tick: "r_Term (rn_raft rn) \<noteq> maxU64 \<Longrightarrow> rn_Tick E rn = Some rn' \<Longrightarrow> rn_call E rn rn'"
| call_quiesced: "rn_call E rn (TickQuiesced rn)"
| call_campaign: "r_Term (rn_raft rn) \<noteq> maxU64 \<Longrightarrow> rn_Campaign E rn = Some (err, rn') \<Longrightarrow> rn_call E rn rn'"
| call_propose: "r_Term (rn_raft rn) \<noteq> maxU64 \<Longrightarrow> rn_Propose E d rn = Some (err, rn') \<Longrightarrow> rn_call E rn rn'"
| call_proposeConf: "r_Term (rn_raft rn) \<noteq> maxU64 \<Longrightarrow> rn_ProposeConfChange E occ rn = Some (err, rn') \<Longrightarrow>
    rn_call E rn rn'"
| call_applyConf: "rn_ApplyConfChange E cc rn = Some (cs, rn') \<Longrightarrow> rn_call E rn rn'"
| call_step: "inRange m (rn_raft rn) \<Longrightarrow> rn_Step E m rn = Some (err, rn') \<Longrightarrow> rn_call E rn rn'"
| call_ready: "rn_Ready E rn = Some (rd, rn') \<Longrightarrow> rn_call E rn rn'"
| call_advance: "stepsInRange E (rn_stepsOnAdvance rn) rn \<Longrightarrow> rn_Advance E rn = Some rn' \<Longrightarrow> rn_call E rn rn'"
| call_unreachable: "r_Term (rn_raft rn) \<noteq> maxU64 \<Longrightarrow> rn_ReportUnreachable E i rn = Some rn' \<Longrightarrow> rn_call E rn rn'"
| call_snapshot: "r_Term (rn_raft rn) \<noteq> maxU64 \<Longrightarrow> rn_ReportSnapshot E i st rn = Some rn' \<Longrightarrow> rn_call E rn rn'"
| call_transfer: "r_Term (rn_raft rn) \<noteq> maxU64 \<Longrightarrow> rn_TransferLeader E i rn = Some rn' \<Longrightarrow> rn_call E rn rn'"
| call_forget: "r_Term (rn_raft rn) \<noteq> maxU64 \<Longrightarrow> rn_ForgetLeader E rn = Some (err, rn') \<Longrightarrow> rn_call E rn rn'"
| call_readIndex: "r_Term (rn_raft rn) \<noteq> maxU64 \<Longrightarrow> rn_ReadIndex E ctx rn = Some rn' \<Longrightarrow> rn_call E rn rn'"

text \<open>The term, the vote and the commit index never go back.\<close>

definition rn_le :: "RawNode \<Rightarrow> RawNode \<Rightarrow> bool" where
  "rn_le rn rn' \<longleftrightarrow> tv_le (r_Term (rn_raft rn)) (r_Vote (rn_raft rn)) (r_Term (rn_raft rn')) (r_Vote (rn_raft rn')) \<and>
     l_committed (r_raftLog (rn_raft rn)) \<le> l_committed (r_raftLog (rn_raft rn'))"

text \<open>A candidate whose votes have not been handed out, with synchronous or asynchronous storage.\<close>

definition sampleRaw :: "bool \<Rightarrow> RawNode" where
  "sampleRaw async = \<lparr>rn_raft = sampleCand, rn_asyncStorageWrites = async, rn_prevSoftSt = softState (sampleNode 1),
     rn_prevHardSt = hardState (sampleNode 1), rn_stepsOnAdvance = []\<rparr>"

section \<open>Calls\<close>

lemma hardState_eq [simp]: "isHardStateEqual a b \<longleftrightarrow> a = b"
  by (auto simp: isHardStateEqual_def)

lemma ss_equal_eq [simp]: "ss_equal a b \<longleftrightarrow> a = b"
  by (auto simp: ss_equal_def)

lemma prev_empty:
  assumes "rn_ok rn" "hardState (rn_raft rn) = emptyState" shows "rn_prevHardSt rn = emptyState"
  using assms by (cases "rn_prevHardSt rn") (auto simp: rn_ok_def hardState_def emptyState_def tv_le_def)

lemma rn_ok_raft:
  assumes "rn_ok rn" "raft_le (rn_raft rn) r'" "role_ok r'"
  shows "rn_ok (rn\<lparr>rn_raft := r'\<rparr>)"
  using assms by (auto simp: rn_ok_def raft_le_def log_le_def intro: tv_le_trans order_trans)

lemma stepRaft_ok:
  assumes "rn_ok rn" "inRange m (rn_raft rn)"
  shows "post (stepRaft E m rn) (\<lambda>(err, rn'). rn_ok rn' \<and> raft_le (rn_raft rn) (rn_raft rn') \<and>
    rn_asyncStorageWrites rn' = rn_asyncStorageWrites rn \<and> rn_stepsOnAdvance rn' = rn_stepsOnAdvance rn)"
proof -
  have st: "post (Step E m (rn_raft rn)) (\<lambda>(e, r'). raft_le (rn_raft rn) r' \<and> role_ok r')"
    using assms Step_le [of "rn_raft rn" m E] Step_role [of "rn_raft rn" E m]
    by (auto simp: post_def rn_ok_def inRange_def)
  show ?thesis
    unfolding stepRaft_def by (auto simp: post_simps post_case intro!: post_weaken [OF st] rn_ok_raft [OF assms(1)])
qed

lemma stepQuietly_ok:
  assumes "rn_ok rn" "inRange m (rn_raft rn)"
  shows "post (stepQuietly E m rn) (\<lambda>rn'. rn_ok rn' \<and> raft_le (rn_raft rn) (rn_raft rn') \<and>
    rn_asyncStorageWrites rn' = rn_asyncStorageWrites rn \<and> rn_stepsOnAdvance rn' = rn_stepsOnAdvance rn)"
  unfolding stepQuietly_def by (auto simp: post_simps post_case intro!: post_weaken [OF stepRaft_ok [OF assms]])

lemma tick_ok:
  assumes "rn_ok rn" "r_Term (rn_raft rn) \<noteq> maxU64"
  shows "post (rn_Tick E rn) (\<lambda>rn'. rn_ok rn' \<and> raft_le (rn_raft rn) (rn_raft rn'))"
proof -
  have st: "post (tick E (rn_raft rn)) (\<lambda>r'. raft_le (rn_raft rn) r' \<and> role_ok r')"
    using assms tick_le [of "rn_raft rn" E] tick_role [of "rn_raft rn" E] by (auto simp: post_def rn_ok_def)
  show ?thesis
    unfolding rn_Tick_def by (auto simp: post_simps intro!: post_weaken [OF st] rn_ok_raft [OF assms(1)])
qed

lemma applyConf_ok:
  assumes "rn_ok rn"
  shows "post (rn_ApplyConfChange E cc rn) (\<lambda>(cs, rn'). rn_ok rn' \<and> raft_le (rn_raft rn) (rn_raft rn'))"
proof -
  have st: "post (applyConfChange E c (rn_raft rn)) (\<lambda>(cs, r'). raft_le (rn_raft rn) r' \<and> role_ok r')" for c
    using assms applyConfChange_le [of E c "rn_raft rn"] applyConfChange_role [of "rn_raft rn" E c]
    by (auto simp: post_def rn_ok_def)
  show ?thesis
    unfolding rn_ApplyConfChange_def
    by (auto simp: post_simps post_case intro!: post_weaken [OF st] rn_ok_raft [OF assms(1)])
qed

section \<open>\<open>Ready\<close>\<close>

text \<open>What \<open>readyWithoutAccept\<close> and \<open>acceptReady\<close> compute, without the intermediate steps.\<close>

lemma snapshot_if: "(if l_hasNextUnstableSnapshot l then l_nextUnstableSnapshot l else None) = l_nextUnstableSnapshot l"
  by (auto simp: l_hasNextUnstableSnapshot_def l_nextUnstableSnapshot_def)

lemma readyWithoutAccept_eq:
  assumes "readyWithoutAccept E rn = Some rd"
  obtains ents committed where "l_nextUnstableEnts (r_raftLog (rn_raft rn)) = Some ents"
    "l_nextCommittedEnts E (applyUnstableEntries rn) (r_raftLog (rn_raft rn)) = Some committed"
    "rd_Entries rd = ents" "rd_CommittedEntries rd = committed"
    "rd_SoftState rd = (if softState (rn_raft rn) = rn_prevSoftSt rn then None else Some (softState (rn_raft rn)))"
    "rd_HardState rd = (if hardState (rn_raft rn) = rn_prevHardSt rn then None else Some (hardState (rn_raft rn)))"
    "rd_ReadStates rd = r_readStates (rn_raft rn)"
    "rd_Snapshot rd = l_nextUnstableSnapshot (r_raftLog (rn_raft rn))"
    "rd_MustSync rd = MustSync (hardState (rn_raft rn)) (rn_prevHardSt rn) (length ents)"
    "readyMessages rn (rd\<lparr>rd_Messages := map noResponses (r_msgs (rn_raft rn))\<rparr>) = Some (rd_Messages rd)"
  using assms
  by (auto simp: readyWithoutAccept_def Let_def bind_eq_Some_conv snapshot_if)

lemma acceptReady_eq:
  assumes "acceptReady E rd rn = Some rn'"
  obtains l rs where "rn_raft rn' = (rn_raft rn)\<lparr>r_readStates := rs, r_msgs := [], r_msgsAfterAppend := [], r_raftLog := l\<rparr>"
    "l_committed l = l_committed (r_raftLog (rn_raft rn))"
    "rn_prevHardSt rn' = (case rd_HardState rd of None \<Rightarrow> rn_prevHardSt rn
       | Some h \<Rightarrow> if IsEmptyHardState (Some h) then rn_prevHardSt rn else h)"
    "rn_asyncStorageWrites rn' = rn_asyncStorageWrites rn"
    "\<not> rn_asyncStorageWrites rn \<Longrightarrow> advanceSteps rd (rn_raft rn) = Some (rn_stepsOnAdvance rn') \<and> rn_stepsOnAdvance rn = []"
    "rn_asyncStorageWrites rn \<Longrightarrow> rn_stepsOnAdvance rn' = rn_stepsOnAdvance rn"
proof -
  let ?r = "rn_raft rn"
  from assms obtain steps l where
    steps: "(if rn_asyncStorageWrites rn then Some (rn_stepsOnAdvance rn)
       else do { panicIf (length (rn_stepsOnAdvance rn) \<noteq> 0); advanceSteps rd ?r }) = Some steps"
    and l: "(if length (rd_CommittedEntries rd) > 0 then do {
             e \<leftarrow> go_index (rd_CommittedEntries rd) (length (rd_CommittedEntries rd) - 1);
             l_acceptApplying (e_Index e) (entsSize E (rd_CommittedEntries rd)) (applyUnstableEntries rn)
               (l_acceptUnstable (r_raftLog ?r))
           } else Some (l_acceptUnstable (r_raftLog ?r))) = Some l"
    and rn': "rn' = rn\<lparr>rn_raft := ?r\<lparr>r_readStates := if length (rd_ReadStates rd) \<noteq> 0 then [] else r_readStates ?r,
                           r_msgs := [], r_msgsAfterAppend := [], r_raftLog := l\<rparr>,
              rn_prevSoftSt := (case rd_SoftState rd of None \<Rightarrow> rn_prevSoftSt rn | Some s \<Rightarrow> s),
              rn_prevHardSt := (case rd_HardState rd of
                                  None \<Rightarrow> rn_prevHardSt rn
                                | Some h \<Rightarrow> if IsEmptyHardState (Some h) then rn_prevHardSt rn else h),
              rn_stepsOnAdvance := steps\<rparr>"
    unfolding acceptReady_def Let_def bind_eq_Some_conv option.inject by (elim exE conjE) (rule that, assumption+, rule sym, assumption)
  have "l_committed l = l_committed (r_raftLog ?r)"
    using l by (auto simp: bind_eq_Some_conv l_acceptApplying_def l_acceptUnstable_def Let_def split: if_splits)
  then show thesis by (rule that [rotated]) (use rn' steps in \<open>auto simp: bind_eq_Some_conv split: if_splits\<close>)
qed

lemma role_ok_emptied:
  "role_ok (r\<lparr>r_readStates := rs, r_msgs := ms, r_msgsAfterAppend := ns\<rparr>) = role_ok r"
  by (cases "r_state r") (simp_all add: role_ok_def)

lemma ready_ok:
  assumes ok: "rn_ok rn" and run: "rn_Ready E rn = Some (rd, rn')"
  shows "storedAfter rd rn = hardState (rn_raft rn)" "rn_prevHardSt rn' = hardState (rn_raft rn)" "rn_ok rn'"
proof -
  from run have rd: "readyWithoutAccept E rn = Some rd" and rn': "acceptReady E rd rn = Some rn'"
    by (auto simp: rn_Ready_def bind_eq_Some_conv)
  obtain l rs where r': "rn_raft rn' = (rn_raft rn)\<lparr>r_readStates := rs, r_msgs := [], r_msgsAfterAppend := [], r_raftLog := l\<rparr>"
    "l_committed l = l_committed (r_raftLog (rn_raft rn))" and
    p: "rn_prevHardSt rn' = (case rd_HardState rd of None \<Rightarrow> rn_prevHardSt rn
       | Some h \<Rightarrow> if IsEmptyHardState (Some h) then rn_prevHardSt rn else h)"
    by (rule acceptReady_eq [OF rn'])
  have h: "rd_HardState rd = (if hardState (rn_raft rn) = rn_prevHardSt rn then None else Some (hardState (rn_raft rn)))"
    by (rule readyWithoutAccept_eq [OF rd])
  show s: "storedAfter rd rn = hardState (rn_raft rn)" using h by (simp add: storedAfter_def)
  show pr: "rn_prevHardSt rn' = hardState (rn_raft rn)"
  proof (cases "hardState (rn_raft rn) = rn_prevHardSt rn")
    case True
    with p h show ?thesis by simp
  next
    case False
    with prev_empty [OF ok] have "\<not> IsEmptyHardState (Some (hardState (rn_raft rn)))"
      by (auto simp: IsEmptyHardState_def)
    with p h False show ?thesis by simp
  qed
  show "rn_ok rn'"
    using ok by (simp add: rn_ok_def pr r' role_ok_emptied hardState_def)
qed

lemma truncate_noResponses [simp]: "Message.truncate (noResponses m) = m"
  by (cases m) (simp add: noResponses_def Message.extend_def Message.truncate_def)

lemma appendResp_type: "newStorageAppendRespMsg r rd = Some m \<Longrightarrow> m_Type m \<in> storageTypes"
proof -
  have "post (newStorageAppendRespMsg r rd) (\<lambda>m. m_Type m = MsgStorageAppendResp)"
    by (simp add: newStorageAppendRespMsg_def post_simps Let_def) (simp add: post_def)
  then show "newStorageAppendRespMsg r rd = Some m \<Longrightarrow> m_Type m \<in> storageTypes"
    by (auto simp: post_def storageTypes_def)
qed

lemma applyResp_type: "m_Type (newStorageApplyRespMsg r ents) \<in> storageTypes"
  by (simp add: newStorageApplyRespMsg_def storageTypes_def)

lemma advanceSteps_eq:
  assumes "advanceSteps rd r = Some steps"
  shows "\<exists>ms. steps = filter (\<lambda>m. m_To m = r_id r) (r_msgsAfterAppend r) @ ms \<and> (\<forall>m \<in> set ms. m_Type m \<in> storageTypes)"
proof -
  from assms obtain app where
    app: "(if needStorageAppendRespMsg r rd then map_option (\<lambda>m. [m]) (newStorageAppendRespMsg r rd) else Some []) = Some app"
    and steps: "steps = filter (\<lambda>m. m_To m = r_id r) (r_msgsAfterAppend r) @ app @
       (if needStorageApplyRespMsg rd then [newStorageApplyRespMsg r (rd_CommittedEntries rd)] else [])"
    unfolding advanceSteps_def bind_eq_Some_conv option.inject by (elim exE conjE) (rule that, assumption, rule sym, assumption)
  have "\<forall>m \<in> set app. m_Type m \<in> storageTypes"
    using app by (auto dest: appendResp_type split: if_splits)
  then show ?thesis unfolding steps using applyResp_type by (intro exI conjI) (rule refl, auto)
qed

lemma handedOut_eq:
  assumes rn: "\<not> rn_asyncStorageWrites rn" "queue_ok (rn_raft rn)" and run: "rn_Ready E rn = Some (rd, rn')"
  shows "handedOut rd rn' = set (r_msgs (rn_raft rn)) \<union> set (r_msgsAfterAppend (rn_raft rn))"
proof -
  let ?r = "rn_raft rn"
  from run have rd: "readyWithoutAccept E rn = Some rd" and acc: "acceptReady E rd rn = Some rn'"
    by (auto simp: rn_Ready_def bind_eq_Some_conv)
  have "readyMessages rn (rd\<lparr>rd_Messages := map noResponses (r_msgs ?r)\<rparr>) = Some (rd_Messages rd)"
    by (rule readyWithoutAccept_eq [OF rd])
  then have "rd_Messages rd = map noResponses (r_msgs ?r) @ map noResponses (filter (\<lambda>m. m_To m \<noteq> r_id ?r) (r_msgsAfterAppend ?r))"
    using rn(1) by (simp add: readyMessages_def Let_def)
  then have ms: "Message.truncate ` set (rd_Messages rd) =
      set (r_msgs ?r) \<union> {m \<in> set (r_msgsAfterAppend ?r). m_To m \<noteq> r_id ?r}"
    by (simp add: image_Un image_image)
  have "advanceSteps rd ?r = Some (rn_stepsOnAdvance rn')" by (rule acceptReady_eq [OF acc]) (use rn(1) in blast)
  then obtain ns where ns: "rn_stepsOnAdvance rn' = filter (\<lambda>m. m_To m = r_id ?r) (r_msgsAfterAppend ?r) @ ns"
    "\<forall>m \<in> set ns. m_Type m \<in> storageTypes" using advanceSteps_eq by blast
  have "{m \<in> set (rn_stepsOnAdvance rn'). m_Type m \<notin> storageTypes} = {m \<in> set (r_msgsAfterAppend ?r). m_To m = r_id ?r}"
    using ns rn(2) by (auto simp: queue_ok_def afterAppend_def storageTypes_def)
  with ms show ?thesis unfolding handedOut_def by blast
qed

lemma extend_sel [simp]:
  "m_Type (Message.extend m x) = m_Type m" "m_To (Message.extend m x) = m_To m" "m_Entries (Message.extend m x) = m_Entries m"
  "m_Term (Message.extend m x) = m_Term m" "m_Vote (Message.extend m x) = m_Vote m" "m_Commit (Message.extend m x) = m_Commit m"
  "m_Responses (Message.extend m \<lparr>m_Responses = rs\<rparr>) = rs"
  by (cases m, simp add: Message.extend_def)+

lemma newStorageAppendMsg_eq:
  assumes "newStorageAppendMsg r rd = Some m"
  shows "m_Type m = MsgStorageAppend" "m_To m = LocalAppendThread" "m_Entries m = rd_Entries rd"
    "rd_HardState rd = Some h \<Longrightarrow> \<not> IsEmptyHardState (Some h) \<Longrightarrow>
       \<lparr>hs_Term = m_Term m, hs_Vote = m_Vote m, hs_Commit = m_Commit m\<rparr> = h"
    "prefix (r_msgsAfterAppend r) (m_Responses m)"
proof -
  have "post (newStorageAppendMsg r rd) (\<lambda>m. m_Type m = MsgStorageAppend \<and> m_To m = LocalAppendThread \<and>
      m_Entries m = rd_Entries rd \<and> (\<forall>h. rd_HardState rd = Some h \<longrightarrow> \<not> IsEmptyHardState (Some h) \<longrightarrow>
        m_Term m = hs_Term h \<and> m_Vote m = hs_Vote h \<and> m_Commit m = hs_Commit h) \<and>
      prefix (r_msgsAfterAppend r) (m_Responses m))"
    by (simp add: newStorageAppendMsg_def post_simps Let_def)
      (simp add: post_def split: option.splits)
  with assms show "m_Type m = MsgStorageAppend" "m_To m = LocalAppendThread" "m_Entries m = rd_Entries rd"
    "rd_HardState rd = Some h \<Longrightarrow> \<not> IsEmptyHardState (Some h) \<Longrightarrow>
       \<lparr>hs_Term = m_Term m, hs_Vote = m_Vote m, hs_Commit = m_Commit m\<rparr> = h"
    "prefix (r_msgsAfterAppend r) (m_Responses m)"
    by (auto simp: post_def)
qed

text \<open>Committed entries to hand out are found exactly when \<open>hasNextCommittedEnts\<close> says so.\<close>

lemma sizes_ok_range:
  assumes "sizes_ok E A"
  shows "totalSize E (logRange A lo hi) < 2 ^ 64" "e \<in> set (logRange A lo hi) \<Longrightarrow> 0 < pb_Size E e"
proof -
  obtain b t es where A: "A = (b, t, es)" by (cases A)
  have "totalSize E (take n (drop k es)) \<le> totalSize E es" for n k
  proof -
    have "es = take k es @ take n (drop k es) @ drop n (drop k es)" by (metis append_take_drop_id)
    from arg_cong [OF this, of "totalSize E"]
    have "totalSize E es = totalSize E (take k es) + (totalSize E (take n (drop k es)) + totalSize E (drop n (drop k es)))"
      by (simp only: totalSize_def map_append sum_list_append)
    then show ?thesis by simp
  qed
  from le_less_trans [OF this] assms show "totalSize E (logRange A lo hi) < 2 ^ 64"
    by (simp add: sizes_ok_def logRange_def A)
  assume "e \<in> set (logRange A lo hi)"
  then have "e \<in> set es" by (auto simp: logRange_def A dest: in_set_takeD in_set_dropD)
  with assms show "0 < pb_Size E e" by (simp add: sizes_ok_def A)
qed

lemma nextCommitted_iff:
  assumes inv: "l_inv E l L" and cur: "l_cursors l (absLog (l_unstable l) L)" and sz: "sizes_ok E (absLog (l_unstable l) L)"
    and run: "l_nextCommittedEnts E au l = Some ents"
  shows "l_hasNextCommittedEnts au l \<longleftrightarrow> ents \<noteq> []"
proof -
  let ?A = "absLog (l_unstable l) L" and ?lo = "l_applying l + 1" and ?hi = "l_maxAppliableIndex au l + 1"
  show ?thesis
  proof (cases "l_applyingEntsPaused l \<or> l_hasNextOrInProgressSnapshot l \<or> \<not> ?lo < ?hi")
    case True
    with run show ?thesis by (auto simp: l_nextCommittedEnts_def l_hasNextCommittedEnts_def Let_def split: if_splits)
  next
    case False
    then have "\<exists>m. l_slice E ?lo ?hi m l = Some (Inr ents)"
      using run by (auto simp: l_nextCommittedEnts_def Let_def bind_eq_Some_conv split: if_splits)
    then obtain m where sl: "l_slice E ?lo ?hi m l = Some (Inr ents)" by blast
    have ok: "log_ok ?A" using inv by (rule l_inv_log_ok)
    have "l_maxAppliableIndex au l \<le> logLast ?A"
      using cur by (auto simp: l_maxAppliableIndex_def l_cursors_def min_def)
    then have hi: "?hi \<le> logLast ?A + 1"
      using logLast_Suc [OF ok] by unat_arith
    have "\<not> ?lo < fst ?A + 1"
      using sl False by (auto simp: l_slice_def l_mustCheckOutOfBounds_def l_firstIndex_eq [OF inv] tryE_def bind_eq_Some_conv)
    then have lo: "fst ?A < ?lo"
      using logLast_Suc [OF ok] fst_le_logLast [OF ok] by unat_arith
    from l_slice_eq [OF inv lo _ hi sizes_ok_range [OF sz]] sl False have "ents = limitSize E m (logRange ?A ?lo ?hi)"
      by auto
    moreover have "length (logRange ?A ?lo ?hi) = unat ?hi - unat ?lo"
      by (rule logRange_length [OF ok lo _ hi]) (use False in auto)
    ultimately have "ents \<noteq> []" using False by (auto simp: word_less_nat_alt)
    with False show ?thesis by (simp add: l_hasNextCommittedEnts_def)
  qed
qed

lemma HasReady_eq:
  assumes "l_nextUnstableEnts (r_raftLog (rn_raft rn)) = Some ents"
  shows "HasReady rn = Some (softState (rn_raft rn) \<noteq> rn_prevSoftSt rn \<or>
    \<not> IsEmptyHardState (Some (hardState (rn_raft rn))) \<and> hardState (rn_raft rn) \<noteq> rn_prevHardSt rn \<or>
    l_nextUnstableSnapshot (r_raftLog (rn_raft rn)) \<noteq> None \<or> r_msgs (rn_raft rn) \<noteq> [] \<or>
    r_msgsAfterAppend (rn_raft rn) \<noteq> [] \<or> ents \<noteq> [] \<or>
    l_hasNextCommittedEnts (applyUnstableEntries rn) (r_raftLog (rn_raft rn)) \<or> r_readStates (rn_raft rn) \<noteq> [])"
  using assms by (simp add: HasReady_def Let_def l_hasNextUnstableEnts_def l_hasNextUnstableSnapshot_def l_nextUnstableSnapshot_def)
    blast

lemma ready_work:
  assumes "m \<and> a \<and> e \<and> c \<and> s \<and> h \<Longrightarrow> rm" "\<not> m \<Longrightarrow> \<not> rm" "y \<Longrightarrow> \<not> e \<or> \<not> h"
    "er \<longleftrightarrow> so \<and> h \<and> rs \<and> e \<and> s \<and> c \<and> rm \<and> \<not> y" "z \<Longrightarrow> h"
  shows "(\<not> so \<or> \<not> z \<and> \<not> h \<or> \<not> s \<or> \<not> m \<or> \<not> a \<or> \<not> e \<or> \<not> c \<or> \<not> rs) \<longleftrightarrow> \<not> er \<or> \<not> a"
  using assms by blast

section \<open>Sequences of calls\<close>

lemma rn_le_refl: "rn_le rn rn" and rn_le_trans: "rn_le a b \<Longrightarrow> rn_le b c \<Longrightarrow> rn_le a c"
  by (auto simp: rn_le_def intro: tv_le_trans)

lemma rn_le_raft: "raft_le (rn_raft rn) (rn_raft rn') \<Longrightarrow> rn_le rn rn'"
  by (simp add: rn_le_def raft_le_def log_le_def)

lemma advance_ok: "rn_ok rn \<Longrightarrow> stepsInRange E ms rn \<Longrightarrow>
    post (foldO (stepQuietly E) ms rn) (\<lambda>rn'. rn_ok rn' \<and> rn_le rn rn' \<and> rn_asyncStorageWrites rn' = rn_asyncStorageWrites rn)"
proof (induction ms arbitrary: rn)
  case Nil
  then show ?case by (simp add: post_simps rn_le_refl)
next
  case (Cons m ms)
  have "rn_ok t \<and> rn_le rn t \<and> rn_asyncStorageWrites t = rn_asyncStorageWrites rn" if "stepQuietly E m rn = Some s" "foldO (stepQuietly E) ms s = Some t" for s t
  proof -
    have s: "rn_ok s" "rn_le rn s" "rn_asyncStorageWrites s = rn_asyncStorageWrites rn"
      using postD [OF stepQuietly_ok [of rn m E] that(1)] Cons.prems by (auto intro: rn_le_raft)
    with postD [OF Cons.IH that(2)] Cons.prems(2) that(1) show ?thesis by (auto intro: rn_le_trans)
  qed
  then show ?case by (auto simp: post_def bind_eq_Some_conv)
qed

lemma local_inRange: "r_Term r \<noteq> maxU64 \<Longrightarrow> m_Term m = 0 \<Longrightarrow> \<not> fromLeader m \<Longrightarrow> inRange m r"
  by (simp add: inRange_def)

lemma call_local:
  assumes "rn_ok rn" "r_Term (rn_raft rn) \<noteq> maxU64" "m_Term m = 0" "\<not> fromLeader m"
  shows "stepRaft E m rn = Some (err, rn') \<Longrightarrow> rn_ok rn' \<and> rn_le rn rn'"
    "stepQuietly E m rn = Some rn' \<Longrightarrow> rn_ok rn' \<and> rn_le rn rn'"
  using postD [OF stepRaft_ok [OF assms(1) local_inRange [OF assms(2-4)]], of E "(err, rn')"]
    postD [OF stepQuietly_ok [OF assms(1) local_inRange [OF assms(2-4)]], of E rn']
  by (auto intro: rn_le_raft)

lemma confChange_msg: "confChangeToMsg E cc = Some m \<Longrightarrow> m_Term m = 0 \<and> \<not> fromLeader m"
  by (auto simp: confChangeToMsg_def bind_eq_Some_conv emptyMessage_def fromLeader_def)

lemma ready_le: "rn_ok rn \<Longrightarrow> rn_Ready E rn = Some (rd, rn') \<Longrightarrow> rn_le rn rn'"
  unfolding rn_Ready_def by (auto simp: bind_eq_Some_conv rn_le_def elim!: acceptReady_eq)

lemma call_keeps: "rn_call E rn rn' \<Longrightarrow> rn_ok rn \<Longrightarrow> rn_ok rn' \<and> rn_le rn rn'"
proof (induction rule: rn_call.induct)
  case (call_tick rn rn')
  then show ?case using postD [OF tick_ok] by (blast intro: rn_le_raft)
next
  case (call_quiesced rn)
  then show ?case by (simp add: rn_ok_def TickQuiesced_def rn_le_def)
next
  case (call_campaign rn err rn')
  then show ?case by (intro call_local(1)) (auto simp: rn_Campaign_def emptyMessage_def fromLeader_def)
next
  case (call_propose rn d err rn')
  then show ?case by (intro call_local(1)) (auto simp: rn_Propose_def emptyMessage_def fromLeader_def)
next
  case (call_proposeConf rn occ err rn')
  then show ?case
    using call_local(1) [of rn _ E err rn'] confChange_msg
    by (auto simp: rn_ProposeConfChange_def rn_le_refl split: option.splits)
next
  case (call_applyConf cc rn cs rn')
  then show ?case using postD [OF applyConf_ok] by (blast intro: rn_le_raft)
next
  case (call_step m rn err rn')
  then show ?case
    using postD [OF stepRaft_ok [of rn m E], of "(err, rn')"]
    by (auto simp: rn_Step_def rn_le_refl intro: rn_le_raft split: if_splits)
next
  case (call_ready rn rd rn')
  then show ?case using ready_ok(3) ready_le by blast
next
  case (call_advance rn rn')
  then obtain s where s: "foldO (stepQuietly E) (rn_stepsOnAdvance rn) rn = Some s" "rn' = s\<lparr>rn_stepsOnAdvance := []\<rparr>"
    by (auto simp: rn_Advance_def bind_eq_Some_conv)
  from postD [OF advance_ok s(1)] call_advance show ?case by (simp add: s(2) rn_ok_def rn_le_def)
next
  case (call_unreachable rn i rn')
  then show ?case by (intro call_local(2)) (auto simp: rn_ReportUnreachable_def emptyMessage_def fromLeader_def)
next
  case (call_snapshot rn i st rn')
  then show ?case by (intro call_local(2)) (auto simp: rn_ReportSnapshot_def emptyMessage_def fromLeader_def)
next
  case (call_transfer rn i rn')
  then show ?case by (intro call_local(2)) (auto simp: rn_TransferLeader_def emptyMessage_def fromLeader_def)
next
  case (call_forget rn err rn')
  then show ?case by (intro call_local(1)) (auto simp: rn_ForgetLeader_def emptyMessage_def fromLeader_def)
next
  case (call_readIndex rn ctx rn')
  then show ?case by (intro call_local(2)) (auto simp: rn_ReadIndex_def emptyMessage_def fromLeader_def)
qed

section \<open>Starting\<close>

lemma newRawNode_ok: "NewRawNode E rand c = Some rn \<Longrightarrow> rn_ok rn \<and> rn_stepsOnAdvance rn = []"
  using postD [OF newRaft_starts] by (fastforce simp: NewRawNode_def bind_eq_Some_conv rn_ok_def hardState_def)

lemma addPeer_role: "role_ok r \<Longrightarrow> addPeer E p r = Some r' \<Longrightarrow> role_ok r'"
  using postD [OF applyConfChange_role] by (fastforce simp: addPeer_def bind_eq_Some_conv)

lemma Bootstrap_ok:
  assumes ok: "rn_ok rn" and run: "rn_Bootstrap E peers rn = Some (err, rn')"
  shows "rn_ok rn' \<and> rn_stepsOnAdvance rn' = rn_stepsOnAdvance rn"
proof -
  have fresh: "rn_ok (rn\<lparr>rn_prevHardSt := emptyState, rn_raft := r\<rparr>)" if "role_ok r" for r
    using that by (auto simp: rn_ok_def emptyState_def tv_le_def word_gt_0)
  have role: "role_ok r" if "becomeFollower 1 None_id (rn_raft rn) = Some r" for r
    using postD [OF becomeFollower_as that] ok by (auto simp: rn_ok_def intro: role_ok_as(1))
  have fold: "role_ok r'" if "foldO (addPeer E) peers r = Some r'" "role_ok r" for r r'
    using that by (rule foldO_invariant) (erule (1) addPeer_role)
  show ?thesis
  proof (cases "peers = []")
    case True
    with run ok show ?thesis by (simp add: rn_Bootstrap_def)
  next
    case False
    then obtain li where li: "st_LastIndex (l_storage (r_raftLog (rn_raft rn))) = Some li"
      using run by (auto simp: rn_Bootstrap_def bind_eq_Some_conv)
    show ?thesis
    proof (cases "li = Inr 0")
      case True
      with run False li obtain r where r: "becomeFollower 1 None_id (rn_raft rn) = Some r"
        by (auto simp: rn_Bootstrap_def bind_eq_Some_conv)
      show ?thesis
      proof (cases "bootstrapEntries E 0 peers")
        case None
        with run False li True r fresh [OF role [OF r]] show ?thesis by (auto simp: rn_Bootstrap_def)
      next
        case (Some ents)
        with run False li True r obtain l r1 where "foldO (addPeer E) peers (r\<lparr>r_raftLog := l\<rparr>) = Some r1"
          and rn': "rn' = rn\<lparr>rn_prevHardSt := emptyState, rn_raft := r1\<rparr>"
          by (auto simp: rn_Bootstrap_def bind_eq_Some_conv)
        then have "role_ok r1" using fold role [OF r] by simp
        from fresh [OF this] show ?thesis by (simp add: rn')
      qed
    next
      case False
      with run ok \<open>peers \<noteq> []\<close> li show ?thesis
        by (cases li) (auto simp: rn_Bootstrap_def split: if_splits)
    qed
  qed
qed

section \<open>The sample node\<close>

lemma sample_started_raw:
  "NewRawNode sampleLib (\<lambda>_. 0) (sampleCfg 1) = Some ((sampleRaw False)\<lparr>rn_raft := sampleNode 1\<rparr>)"
  by (simp add: NewRawNode_def sample_started sampleRaw_def) (simp add: sampleCfg_def)

lemma sample_campaign_raw:
  "rn_Campaign sampleLib ((sampleRaw False)\<lparr>rn_raft := sampleNode 1\<rparr>) = Some (None, sampleRaw False)"
  using sample_campaign by (simp add: rn_Campaign_def stepRaft_def hupMsg_def sampleRaw_def)

lemma sample_log_ready:
  "l_nextUnstableEnts memLog = Some []" "l_nextCommittedEnts sampleLib b memLog = Some []"
  "\<not> l_hasNextUnstableSnapshot memLog" "\<not> l_hasNextOrInProgressUnstableEnts memLog" "l_nextUnstableSnapshot memLog = None"
  by (simp_all add: l_nextUnstableEnts_def nextEntries_def memLog_def l_nextCommittedEnts_def l_maxAppliableIndex_def
    l_hasNextOrInProgressSnapshot_def l_hasNextUnstableSnapshot_def l_nextUnstableSnapshot_def nextSnapshot_def
    l_hasNextOrInProgressUnstableEnts_def go_slice_def)

lemma sample_raw:
  "r_id sampleCand = 1" "r_raftLog sampleCand = memLog" "r_readStates sampleCand = []"
  "hardState sampleCand = \<lparr>hs_Term = 1, hs_Vote = 1, hs_Commit = 0\<rparr>"
  "hardState (sampleNode 1) = \<lparr>hs_Term = 0, hs_Vote = 0, hs_Commit = 0\<rparr>"
  by (simp_all add: sampleCand_def node_eval hardState_def memLog_def)

lemma sample_raw_ok: "rn_ok (sampleRaw async)" "queue_ok sampleCand"
proof -
  have "role_ok sampleCand" by (simp add: role_ok_def sampleCand_def node_eval)
  then show "rn_ok (sampleRaw async)"
    by (simp add: rn_ok_def sampleRaw_def sample_raw tv_le_def)
  show "queue_ok sampleCand" by (simp add: queue_ok_def afterAppend_def)
qed

lemma sample_mem_inv:
  "l_inv sampleLib memLog (0, 0, [])" "l_cursors memLog (absLog (l_unstable memLog) (0, 0, []))"
  "sizes_ok sampleLib (absLog (l_unstable memLog) (0, 0, []))"
  using mem_inv by (simp_all add: sizes_ok_def totalSize_def)

lemma sample_ready: "\<exists>rd rn'. rn_Ready sampleLib (sampleRaw async) = Some (rd, rn')"
  by (simp add: rn_Ready_def readyWithoutAccept_def sampleRaw_def sample_raw sample_log_ready readyMessages_def
    acceptReady_def advanceSteps_def Let_def needStorageApplyMsg_def needStorageApplyRespMsg_def
    needStorageAppendRespMsg_def needStorageAppendMsg_def newStorageAppendMsg_def IsEmptySnap_def
    applyUnstableEntries_def)

section \<open>Properties\<close>

text \<open>
  C5: From the construction of a \<open>RawNode\<close> on, or from its \<open>Bootstrap\<close> if that follows at once,
  whatever sequence of the other calls the application makes (ticks, proposals, messages,
  configuration changes, reports, \<open>Ready\<close>, \<open>Advance\<close>) as long as terms stay below the largest
  integer and leader requests carry a term, the hard state that it has handed out is never
  ahead of the node's, and its term, its vote within a term and its commit index never go
  back. Both conditions are needed: \<open>Bootstrap\<close> restarts a node at term one, and a leader
  request without a term takes a candidate back to term zero.
\<close>

theorem RawNode_hard_state_monotone:
  assumes "NewRawNode E rand c = Some rn0" "rn = rn0 \<or> rn_Bootstrap E peers rn0 = Some (err, rn)"
    "(rn_call E)\<^sup>*\<^sup>* rn rn'"
  shows "rn_ok rn' \<and> rn_le rn rn'"
proof -
  have "rn_ok rn" using newRawNode_ok [OF assms(1)] Bootstrap_ok assms(2) by blast
  then show ?thesis
    by (induction rule: rtranclp_induct [OF assms(3)]) (auto simp: rn_le_refl dest: call_keeps intro: rn_le_trans)
qed

theorem RawNode_hard_state_monotone_witness:
  "rn_ok (sampleRaw False) \<and> rn_le ((sampleRaw False)\<lparr>rn_raft := sampleNode 1\<rparr>) (sampleRaw False)"
proof -
  have "(rn_call sampleLib)\<^sup>*\<^sup>* ((sampleRaw False)\<lparr>rn_raft := sampleNode 1\<rparr>) (sampleRaw False)"
    by (rule r_into_rtranclp, rule call_campaign [OF _ sample_campaign_raw]) (simp add: sampleRaw_def)
  from RawNode_hard_state_monotone [OF sample_started_raw disjI1 [OF refl] this] show ?thesis .
qed

text \<open>
  C4: With synchronous storage, handling a \<open>Ready\<close> is one step \<open>cl_ready\<close> of the cluster:
  once its hard state is stored, the storage holds the term and the vote of the node, and
  the messages it sends together with those the node keeps for itself until \<open>Advance\<close> are
  exactly the queued ones. It asks for a synchronous write exactly when there are entries or
  the term or the vote has changed.
\<close>

theorem Ready_is_cluster_step:
  assumes "rn_ok rn" "\<not> rn_asyncStorageWrites rn" "queue_ok (rn_raft rn)" "rn_Ready E rn = Some (rd, rn')"
    "cl_nodes s i = Some (rn_raft rn)"
  shows "cl_step E C s (s\<lparr>cl_nodes := (cl_nodes s)(i \<mapsto> rn_raft rn'),
      cl_stored := (cl_stored s)(i := (hs_Term (storedAfter rd rn), hs_Vote (storedAfter rd rn))),
      cl_net := cl_net s \<union> handedOut rd rn'\<rparr>) \<and>
    rd_MustSync rd = (rd_Entries rd \<noteq> [] \<or> r_Term (rn_raft rn) \<noteq> hs_Term (rn_prevHardSt rn) \<or>
      r_Vote (rn_raft rn) \<noteq> hs_Vote (rn_prevHardSt rn))"
proof -
  let ?r = "rn_raft rn"
  from assms(4) have rd: "readyWithoutAccept E rn = Some rd" and acc: "acceptReady E rd rn = Some rn'"
    by (auto simp: rn_Ready_def bind_eq_Some_conv)
  obtain l rs where r': "rn_raft rn' = ?r\<lparr>r_readStates := rs, r_msgs := [], r_msgsAfterAppend := [], r_raftLog := l\<rparr>"
    by (rule acceptReady_eq [OF acc])
  have "cl_step E C s (readyNode i ?r l rs s)" by (rule cl_ready [OF assms(5)])
  moreover have "rd_MustSync rd = MustSync (hardState ?r) (rn_prevHardSt rn) (length (rd_Entries rd))"
    by (rule readyWithoutAccept_eq [OF rd]) simp
  ultimately show ?thesis
    using ready_ok(1) [OF assms(1,4)] handedOut_eq [OF assms(2-4)]
    by (auto simp: readyNode_def r' hardState_def MustSync_def Un_assoc)
qed

theorem Ready_is_cluster_step_witness:
  "\<exists>rd rn'. rn_Ready sampleLib (sampleRaw False) = Some (rd, rn') \<and> rd_MustSync rd \<and>
     handedOut rd rn' = {voteReq 2, voteReq 3, voteResp 1} \<and>
     cl_step sampleLib (Some {1, 2, 3}, None)
       \<lparr>cl_nodes = [1 \<mapsto> sampleCand], cl_stored = (\<lambda>_. (0, 0)), cl_net = {}, cl_won = {}\<rparr>
       \<lparr>cl_nodes = [1 \<mapsto> rn_raft rn'], cl_stored = (\<lambda>_. (0, 0))(1 := (1, 1)),
        cl_net = handedOut rd rn', cl_won = {}\<rparr>"
proof -
  let ?s = "\<lparr>cl_nodes = [1 \<mapsto> sampleCand], cl_stored = (\<lambda>_. (0, 0)), cl_net = {}, cl_won = {}\<rparr>"
  have sync: "\<not> rn_asyncStorageWrites (sampleRaw False)" and q: "queue_ok (rn_raft (sampleRaw False))"
    and n: "cl_nodes ?s 1 = Some (rn_raft (sampleRaw False))"
    using sample_raw_ok(2) by (simp_all add: sampleRaw_def)
  obtain rd rn' where run: "rn_Ready sampleLib (sampleRaw False) = Some (rd, rn')" using sample_ready by blast
  show ?thesis
    using run Ready_is_cluster_step [OF sample_raw_ok(1) sync q run n, of "(Some {1, 2, 3}, None)"]
      ready_ok(1) [OF sample_raw_ok(1) run] handedOut_eq [OF sync q run]
    by (simp add: sampleRaw_def sample_raw insert_commute)
qed

text \<open>
  C10: With asynchronous storage, a \<open>Ready\<close> sends at once only the messages that need not
  wait: every message that depends on stored state travels inside one \<open>MsgStorageAppend\<close>
  to the append thread, which carries the entries and the changed hard state to be stored
  first. What follows it is at most the message to the apply thread.
\<close>

theorem async_Ready_defers_responses:
  assumes "rn_ok rn" "rn_asyncStorageWrites rn" "readyWithoutAccept E rn = Some rd"
    "r_msgsAfterAppend (rn_raft rn) \<noteq> []"
  shows "\<exists>app rest. rd_Messages rd = map noResponses (r_msgs (rn_raft rn)) @ app # rest \<and>
    m_Type app = MsgStorageAppend \<and> m_To app = LocalAppendThread \<and> m_Entries app = rd_Entries rd \<and>
    (hardState (rn_raft rn) = rn_prevHardSt rn \<or>
      \<lparr>hs_Term = m_Term app, hs_Vote = m_Vote app, hs_Commit = m_Commit app\<rparr> = hardState (rn_raft rn)) \<and>
    prefix (r_msgsAfterAppend (rn_raft rn)) (m_Responses app) \<and>
    set rest \<subseteq> {newStorageApplyMsg (rn_raft rn) rd}"
proof -
  let ?r = "rn_raft rn" and ?rd = "rd\<lparr>rd_Messages := map noResponses (r_msgs (rn_raft rn))\<rparr>"
  have need: "needStorageAppendMsg ?r ?rd" using assms(4) by (simp add: needStorageAppendMsg_def)
  have hs: "rd_HardState rd = (if hardState ?r = rn_prevHardSt rn then None else Some (hardState ?r))"
    and msgs: "readyMessages rn ?rd = Some (rd_Messages rd)"
    by (rule readyWithoutAccept_eq [OF assms(3)], simp)+
  obtain app where app: "newStorageAppendMsg ?r ?rd = Some app"
    and eq: "map noResponses (r_msgs ?r) @ app # (if needStorageApplyMsg ?rd then [newStorageApplyMsg ?r ?rd] else []) = rd_Messages rd"
    using msgs need assms(2) by (cases "newStorageAppendMsg ?r ?rd") (simp_all add: readyMessages_def Let_def)
  note app_eq = newStorageAppendMsg_eq [OF app]
  have "hardState ?r = rn_prevHardSt rn \<or> \<lparr>hs_Term = m_Term app, hs_Vote = m_Vote app, hs_Commit = m_Commit app\<rparr> = hardState ?r"
  proof (cases "hardState ?r = rn_prevHardSt rn")
    case False
    then have "\<not> IsEmptyHardState (Some (hardState ?r))" "rd_HardState ?rd = Some (hardState ?r)"
      using prev_empty [OF assms(1)] hs by (auto simp: IsEmptyHardState_def)
    with app_eq(4) show ?thesis by blast
  qed simp
  moreover have "set (if needStorageApplyMsg ?rd then [newStorageApplyMsg ?r ?rd] else []) \<subseteq> {newStorageApplyMsg ?r rd}"
    by (auto simp: newStorageApplyMsg_def)
  moreover have "m_Entries app = rd_Entries rd" using app_eq(3) by simp
  ultimately show ?thesis using app_eq(1,2,5) eq [symmetric] by blast
qed

theorem async_Ready_defers_responses_witness:
  "\<exists>rd app. readyWithoutAccept sampleLib (sampleRaw True) = Some rd \<and>
     rd_Messages rd = map noResponses [voteReq 2, voteReq 3] @ [app] \<and> m_Type app = MsgStorageAppend \<and>
     \<lparr>hs_Term = m_Term app, hs_Vote = m_Vote app, hs_Commit = m_Commit app\<rparr> = \<lparr>hs_Term = 1, hs_Vote = 1, hs_Commit = 0\<rparr> \<and>
     prefix [voteResp 1] (m_Responses app)"
proof -
  have async: "rn_asyncStorageWrites (sampleRaw True)" and q: "r_msgsAfterAppend (rn_raft (sampleRaw True)) \<noteq> []"
    by (simp_all add: sampleRaw_def)
  obtain rd where rd: "readyWithoutAccept sampleLib (sampleRaw True) = Some rd"
    and two: "length (rd_Messages rd) = 3"
    by (simp add: readyWithoutAccept_def sampleRaw_def sample_raw sample_log_ready readyMessages_def Let_def
      needStorageApplyMsg_def needStorageAppendRespMsg_def needStorageAppendMsg_def newStorageAppendMsg_def
      IsEmptySnap_def applyUnstableEntries_def)
  from async_Ready_defers_responses [OF sample_raw_ok(1) async rd q] rd two show ?thesis
    by (auto simp: sampleRaw_def sample_raw)
qed

text \<open>
  C11: \<open>HasReady\<close> is right: it answers true exactly when the \<open>Ready\<close> of that moment would
  hand out something, or messages wait for the node itself.
\<close>

theorem HasReady_iff_work:
  assumes "rn_ok rn" "l_inv E (r_raftLog (rn_raft rn)) L"
    "l_cursors (r_raftLog (rn_raft rn)) (absLog (l_unstable (r_raftLog (rn_raft rn))) L)"
    "sizes_ok E (absLog (l_unstable (r_raftLog (rn_raft rn))) L)"
    "readyWithoutAccept E rn = Some rd"
  shows "HasReady rn = Some (\<not> emptyReady rd \<or> r_msgsAfterAppend (rn_raft rn) \<noteq> [])"
proof -
  let ?r = "rn_raft rn"
  obtain ents committed where ents: "l_nextUnstableEnts (r_raftLog ?r) = Some ents"
    and com: "l_nextCommittedEnts E (applyUnstableEntries rn) (r_raftLog ?r) = Some committed"
    and rd: "rd_Entries rd = ents" "rd_CommittedEntries rd = committed"
    "rd_SoftState rd = (if softState ?r = rn_prevSoftSt rn then None else Some (softState ?r))"
    "rd_HardState rd = (if hardState ?r = rn_prevHardSt rn then None else Some (hardState ?r))"
    "rd_ReadStates rd = r_readStates ?r"
    "rd_Snapshot rd = l_nextUnstableSnapshot (r_raftLog ?r)"
    "rd_MustSync rd = MustSync (hardState ?r) (rn_prevHardSt rn) (length ents)"
    and msgs: "readyMessages rn (rd\<lparr>rd_Messages := map noResponses (r_msgs ?r)\<rparr>) = Some (rd_Messages rd)"
    by (rule readyWithoutAccept_eq [OF assms(5)])
  have hs: "IsEmptyHardState (Some (hardState ?r)) \<Longrightarrow> hardState ?r = rn_prevHardSt rn"
    using prev_empty [OF assms(1)] by (simp add: IsEmptyHardState_def)
  have quiet: "rd_Messages rd = []" if "r_msgs ?r = [] \<and> r_msgsAfterAppend ?r = [] \<and> ents = [] \<and> committed = [] \<and>
      l_nextUnstableSnapshot (r_raftLog ?r) = None \<and> hardState ?r = rn_prevHardSt rn"
  proof -
    from that rd(1,2,4,6) have "rd_Entries rd = []" "rd_CommittedEntries rd = []" "rd_HardState rd = None" "rd_Snapshot rd = None"
      by simp_all
    with that have "\<not> needStorageAppendMsg ?r (rd\<lparr>rd_Messages := []\<rparr>)" "\<not> needStorageApplyMsg (rd\<lparr>rd_Messages := []\<rparr>)"
      by (simp_all add: needStorageAppendMsg_def needStorageApplyMsg_def IsEmptySnap_def IsEmptyHardState_def)
    with that msgs show ?thesis by (simp add: readyMessages_def Let_def split: if_splits)
  qed
  have sends: "r_msgs ?r \<noteq> [] \<Longrightarrow> rd_Messages rd \<noteq> []"
    using msgs by (auto simp: readyMessages_def Let_def bind_eq_Some_conv dest!: sym [of "Some _"] split: if_splits)
  have sync: "rd_MustSync rd \<Longrightarrow> ents \<noteq> [] \<or> hardState ?r \<noteq> rn_prevHardSt rn"
    by (auto simp: rd(7) MustSync_def)
  have empty: "emptyReady rd \<longleftrightarrow> softState ?r = rn_prevSoftSt rn \<and> hardState ?r = rn_prevHardSt rn \<and>
      r_readStates ?r = [] \<and> ents = [] \<and> l_nextUnstableSnapshot (r_raftLog ?r) = None \<and> committed = [] \<and>
      rd_Messages rd = [] \<and> \<not> rd_MustSync rd"
    by (simp add: emptyReady_def rd(1-6))
  show ?thesis
    unfolding HasReady_eq [OF ents] nextCommitted_iff [OF assms(2-4) com] option.inject
    by (rule ready_work [OF quiet sends sync empty hs])
qed

theorem HasReady_iff_work_witness:
  "\<exists>rd. readyWithoutAccept sampleLib (sampleRaw False) = Some rd \<and> \<not> emptyReady rd \<and>
     HasReady (sampleRaw False) = Some True"
proof -
  have log: "r_raftLog (rn_raft (sampleRaw False)) = memLog" by (simp add: sampleRaw_def sample_raw)
  obtain rd where rd: "readyWithoutAccept sampleLib (sampleRaw False) = Some rd"
    using sample_ready [of False] by (auto simp: rn_Ready_def bind_eq_Some_conv)
  have "rd_HardState rd \<noteq> None"
    by (rule readyWithoutAccept_eq [OF rd]) (simp add: sampleRaw_def sample_raw)
  then have work: "\<not> emptyReady rd" by (simp add: emptyReady_def)
  then have "HasReady (sampleRaw False) = Some True"
    using HasReady_iff_work [OF sample_raw_ok(1) sample_mem_inv [folded log] rd] by simp
  with rd work show ?thesis by blast
qed

end
