(* ===== verification/Node.thy ===== *)
theory Node
  imports RawNode
begin

text \<open>
  \<open>node.go\<close>: the goroutine that owns a \<open>RawNode\<close> and the methods that talk to it over channels.
  The channels are unbuffered, so a send and the receive that meets it are one step; only the
  channel of ticks buffers, whose content is a counter, and that of the result of a proposal. The state of the node is what its
  loop holds when it waits in its \<open>select\<close>: the \<open>RawNode\<close>, which of the conditional channels
  are armed, the \<open>Ready\<close> on offer and the leader last seen. A method that waits in a \<open>select\<close>
  takes the alternative that is chosen as an argument; it blocks when that one cannot proceed.
\<close>

section \<open>Model\<close>

subsection \<open>The loop\<close>

record node =
  nd_rn :: RawNode
  nd_propc :: bool
  nd_readyc :: bool
  nd_advancec :: bool
  nd_rd :: Ready
  nd_lead :: u64
  nd_tickc :: nat
  nd_done :: bool

definition emptyRd :: Ready where
  "emptyRd = \<lparr>rd_SoftState = None, rd_HardState = None, rd_ReadStates = [], rd_Entries = [],
     rd_Snapshot = None, rd_CommittedEntries = [], rd_Messages = [], rd_MustSync = False\<rparr>"

definition newNode :: "RawNode \<Rightarrow> node" where
  "newNode rn = \<lparr>nd_rn = rn, nd_propc = False, nd_readyc = False, nd_advancec = False, nd_rd = emptyRd,
     nd_lead = None_id, nd_tickc = 0, nd_done = False\<rparr>"

text \<open>The head of the loop: offer a \<open>Ready\<close> when there is one, and take proposals only while a leader is known.\<close>

definition armReady :: "proto_lib \<Rightarrow> node \<Rightarrow> node option" where
  "armReady E n =
     (if nd_advancec n then Some n
      else do {
        has \<leftarrow> HasReady (nd_rn n);
        if has then do {
          rd \<leftarrow> readyWithoutAccept E (nd_rn n);
          Some (n\<lparr>nd_rd := rd, nd_readyc := True\<rparr>)
        } else Some n
      })"

definition trackLead :: "node \<Rightarrow> node" where
  "trackLead n = (let r = rn_raft (nd_rn n) in
     if nd_lead n \<noteq> r_lead r then n\<lparr>nd_propc := hasLeader r, nd_lead := r_lead r\<rparr> else n)"

definition loopHead :: "proto_lib \<Rightarrow> node \<Rightarrow> node option" where
  "loopHead E n = do { n1 \<leftarrow> armReady E n; Some (trackLead n1) }"

text \<open>The cases of the \<open>select\<close>.\<close>

definition propCase :: "proto_lib \<Rightarrow> Message \<Rightarrow> node \<Rightarrow> (node_error option \<times> node) option" where
  "propCase E m n = do {
     (err, rn) \<leftarrow> stepRaft E (m\<lparr>m_From := r_id (rn_raft (nd_rn n))\<rparr>) (nd_rn n);
     Some (err, n\<lparr>nd_rn := rn\<rparr>)
   }"

definition recvCase :: "proto_lib \<Rightarrow> Message \<Rightarrow> node \<Rightarrow> (unit \<times> node) option" where
  "recvCase E m n =
     (if unknownResponse m (rn_raft (nd_rn n)) then Some ((), n)
      else do { rn \<leftarrow> stepQuietly E m (nd_rn n); Some ((), n\<lparr>nd_rn := rn\<rparr>) })"

definition confCase :: "proto_lib \<Rightarrow> ConfChangeV2 \<Rightarrow> node \<Rightarrow> (ConfState \<times> node) option" where
  "confCase E cc n = do {
     let r = rn_raft (nd_rn n);
     let okBefore = getProgress (r_id r) r \<noteq> None;
     (cs, r1) \<leftarrow> applyConfChange E cc r;
     let okAfter = getProgress (r_id r1) r1 \<noteq> None;
     let found = (r_id r1 \<in> set (cs_Voters cs) \<or> r_id r1 \<in> set (cs_VotersOutgoing cs));
     Some (cs, n\<lparr>nd_rn := (nd_rn n)\<lparr>rn_raft := r1\<rparr>,
                 nd_propc := (if okBefore \<and> \<not> okAfter \<and> \<not> found then False else nd_propc n)\<rparr>)
   }"

definition tickCase :: "proto_lib \<Rightarrow> node \<Rightarrow> (unit \<times> node) option" where
  "tickCase E n = do {
     rn \<leftarrow> rn_Tick E (nd_rn n);
     Some ((), n\<lparr>nd_rn := rn, nd_tickc := nd_tickc n - 1\<rparr>)
   }"

definition readyCase :: "proto_lib \<Rightarrow> node \<Rightarrow> (Ready \<times> node) option" where
  "readyCase E n = do {
     let rd = nd_rd n;
     rn \<leftarrow> acceptReady E rd (nd_rn n);
     let n1 = n\<lparr>nd_rn := rn\<rparr>;
     let n2 = (if \<not> rn_asyncStorageWrites rn then n1\<lparr>nd_advancec := True\<rparr> else n1\<lparr>nd_rd := emptyRd\<rparr>);
     Some (rd, n2\<lparr>nd_readyc := False\<rparr>)
   }"

definition advanceCase :: "proto_lib \<Rightarrow> node \<Rightarrow> (unit \<times> node) option" where
  "advanceCase E n = do {
     rn \<leftarrow> rn_Advance E (nd_rn n);
     Some ((), n\<lparr>nd_rn := rn, nd_rd := emptyRd, nd_advancec := False\<rparr>)
   }"

definition statusCase :: "node \<Rightarrow> (Status \<times> node) option" where
  "statusCase n = do { s \<leftarrow> getStatus (rn_raft (nd_rn n)); Some (s, n) }"

definition stopCase :: "node \<Rightarrow> node" where
  "stopCase n = n\<lparr>nd_done := True\<rparr>"

text \<open>A case, and the head of the loop that follows it.\<close>

definition afterCase :: "proto_lib \<Rightarrow> ('a \<times> node) option \<Rightarrow> ('a \<times> node) option" where
  "afterCase E c = do { (a, n) \<leftarrow> c; n1 \<leftarrow> loopHead E n; Some (a, n1) }"

subsection \<open>Starting\<close>

definition setupNode :: "proto_lib \<Rightarrow> (nat \<Rightarrow> nat) \<Rightarrow> RaftConfig \<Rightarrow> Peer list \<Rightarrow> node option" where
  "setupNode E rand c peers = do {
     panicIf (length peers = 0);
     rn \<leftarrow> NewRawNode E rand c;
     (err, rn1) \<leftarrow> rn_Bootstrap E peers rn;
     Some (newNode rn1)
   }"

definition StartNode :: "proto_lib \<Rightarrow> (nat \<Rightarrow> nat) \<Rightarrow> RaftConfig \<Rightarrow> Peer list \<Rightarrow> node option" where
  "StartNode E rand c peers = do { n \<leftarrow> setupNode E rand c peers; loopHead E n }"

definition RestartNode :: "proto_lib \<Rightarrow> (nat \<Rightarrow> nat) \<Rightarrow> RaftConfig \<Rightarrow> node option" where
  "RestartNode E rand c = do { rn \<leftarrow> NewRawNode E rand c; loopHead E (newNode rn) }"

subsection \<open>The methods\<close>

datatype call_error = StepErr node_error | CtxErr | ErrStopped | NilMessage

datatype choice = PickChan | PickCtx | PickDone | PickDefault

datatype 'a outcome = Blocks | Panics | Returns 'a node

text \<open>A rendezvous with the loop: it needs the loop to run and the channel to be armed.\<close>

definition meet :: "proto_lib \<Rightarrow> bool \<Rightarrow> ('a \<Rightarrow> 'b) \<Rightarrow> ('a \<times> node) option \<Rightarrow> node \<Rightarrow> 'b outcome" where
  "meet E armed f c n =
     (if nd_done n \<or> \<not> armed then Blocks
      else case afterCase E c of None \<Rightarrow> Panics | Some (a, n1) \<Rightarrow> Returns (f a) n1)"

definition waitDone :: "'b \<Rightarrow> node \<Rightarrow> 'b outcome" where
  "waitDone b n = (if nd_done n then Returns b n else Blocks)"

definition nd_Stop :: "choice \<Rightarrow> node \<Rightarrow> unit outcome" where
  "nd_Stop p n =
     (case p of
        PickChan \<Rightarrow> if nd_done n then Blocks else Returns () (stopCase n)
      | PickDone \<Rightarrow> waitDone () n
      | _ \<Rightarrow> Blocks)"

definition nd_Tick :: "choice \<Rightarrow> node \<Rightarrow> unit outcome" where
  "nd_Tick p n =
     (case p of
        PickChan \<Rightarrow> if nd_tickc n < 128 then Returns () (n\<lparr>nd_tickc := nd_tickc n + 1\<rparr>) else Blocks
      | PickDone \<Rightarrow> waitDone () n
      | PickDefault \<Rightarrow> if nd_tickc n < 128 \<or> nd_done n then Blocks else Returns () n
      | _ \<Rightarrow> Blocks)"

text \<open>
  A proposal may wait for its result in a second \<open>select\<close>, with the choice \<open>q\<close>. The loop runs on
  until then, and may be stopped: \<open>meanwhile\<close> is what it does. The result stays available in the
  channel of the proposal, which is buffered.
\<close>

definition awaitResult :: "choice \<Rightarrow> node_error option \<Rightarrow> node \<Rightarrow> call_error option outcome" where
  "awaitResult q err n =
     (case q of
        PickChan \<Rightarrow> Returns (map_option StepErr err) n
      | PickCtx \<Rightarrow> Returns (Some CtxErr) n
      | PickDone \<Rightarrow> waitDone (Some ErrStopped) n
      | PickDefault \<Rightarrow> Blocks)"

definition stepWithWaitOption :: "proto_lib \<Rightarrow> choice \<Rightarrow> choice \<Rightarrow> (node \<Rightarrow> node) \<Rightarrow> Message \<Rightarrow> bool \<Rightarrow> node \<Rightarrow>
    call_error option outcome" where
  "stepWithWaitOption E p q meanwhile m wait n =
     (case p of
        PickCtx \<Rightarrow> Returns (Some CtxErr) n
      | PickDone \<Rightarrow> waitDone (Some ErrStopped) n
      | PickDefault \<Rightarrow> Blocks
      | PickChan \<Rightarrow>
          if m_Type m \<noteq> MsgProp then meet E True (\<lambda>_. None) (recvCase E m n) n
          else if \<not> wait then meet E (nd_propc n) (\<lambda>_. None) (propCase E m n) n
          else case meet E (nd_propc n) (\<lambda>err. err) (propCase E m n) n of
            Blocks \<Rightarrow> Blocks
          | Panics \<Rightarrow> Panics
          | Returns err n1 \<Rightarrow> awaitResult q err (meanwhile n1))"

definition nd_step :: "proto_lib \<Rightarrow> choice \<Rightarrow> Message \<Rightarrow> node \<Rightarrow> call_error option outcome" where
  "nd_step E p m n = stepWithWaitOption E p PickChan (\<lambda>n1. n1) m False n"

definition stepWait :: "proto_lib \<Rightarrow> choice \<Rightarrow> choice \<Rightarrow> (node \<Rightarrow> node) \<Rightarrow> Message \<Rightarrow> node \<Rightarrow> call_error option outcome" where
  "stepWait E p q meanwhile m n = stepWithWaitOption E p q meanwhile m True n"

definition nd_Campaign :: "proto_lib \<Rightarrow> choice \<Rightarrow> node \<Rightarrow> call_error option outcome" where
  "nd_Campaign E p n = nd_step E p (emptyMessage\<lparr>m_Type := MsgHup\<rparr>) n"

definition nd_Propose :: "proto_lib \<Rightarrow> choice \<Rightarrow> choice \<Rightarrow> (node \<Rightarrow> node) \<Rightarrow> bytes \<Rightarrow> node \<Rightarrow> call_error option outcome" where
  "nd_Propose E p q meanwhile data n =
     stepWait E p q meanwhile (emptyMessage\<lparr>m_Type := MsgProp, m_Entries := [emptyEntry\<lparr>e_Data := data\<rparr>]\<rparr>) n"

definition nd_Step :: "proto_lib \<Rightarrow> choice \<Rightarrow> Message option \<Rightarrow> node \<Rightarrow> call_error option outcome" where
  "nd_Step E p om n =
     (case om of
        None \<Rightarrow> Returns (Some NilMessage) n
      | Some m \<Rightarrow>
          if IsLocalMsg (m_Type m) \<and> \<not> IsLocalMsgTarget (m_From m) then Returns None n
          else nd_step E p m n)"

definition nd_ProposeConfChange :: "proto_lib \<Rightarrow> choice \<Rightarrow> ConfChangeI option \<Rightarrow> node \<Rightarrow> call_error option outcome" where
  "nd_ProposeConfChange E p cc n =
     (case confChangeToMsg E cc of
        None \<Rightarrow> Returns (Some (StepErr MarshalFailed)) n
      | Some m \<Rightarrow> nd_Step E p (Some m) n)"

definition nd_Ready :: "proto_lib \<Rightarrow> node \<Rightarrow> Ready outcome" where
  "nd_Ready E n = meet E (nd_readyc n) (\<lambda>rd. rd) (readyCase E n) n"

definition nd_Advance :: "proto_lib \<Rightarrow> choice \<Rightarrow> node \<Rightarrow> unit outcome" where
  "nd_Advance E p n =
     (case p of
        PickChan \<Rightarrow> meet E (nd_advancec n) (\<lambda>_. ()) (advanceCase E n) n
      | PickDone \<Rightarrow> waitDone () n
      | _ \<Rightarrow> Blocks)"

definition nd_ApplyConfChange :: "proto_lib \<Rightarrow> choice \<Rightarrow> ConfChangeI \<Rightarrow> node \<Rightarrow> ConfState option outcome" where
  "nd_ApplyConfChange E p cc n =
     (case p of
        PickChan \<Rightarrow> meet E True Some (confCase E (AsV2 cc) n) n
      | PickDone \<Rightarrow> waitDone None n
      | _ \<Rightarrow> Blocks)"

definition nd_Status :: "proto_lib \<Rightarrow> choice \<Rightarrow> node \<Rightarrow> Status option outcome" where
  "nd_Status E p n =
     (case p of
        PickChan \<Rightarrow> meet E True Some (statusCase n) n
      | PickDone \<Rightarrow> waitDone None n
      | _ \<Rightarrow> Blocks)"

definition sendRecv :: "proto_lib \<Rightarrow> choice \<Rightarrow> Message \<Rightarrow> node \<Rightarrow> unit outcome" where
  "sendRecv E p m n =
     (case p of
        PickChan \<Rightarrow> meet E True (\<lambda>_. ()) (recvCase E m n) n
      | PickDone \<Rightarrow> waitDone () n
      | _ \<Rightarrow> Blocks)"

definition nd_ReportUnreachable :: "proto_lib \<Rightarrow> choice \<Rightarrow> u64 \<Rightarrow> node \<Rightarrow> unit outcome" where
  "nd_ReportUnreachable E p i n = sendRecv E p (emptyMessage\<lparr>m_Type := MsgUnreachable, m_From := i\<rparr>) n"

definition nd_ReportSnapshot :: "proto_lib \<Rightarrow> choice \<Rightarrow> u64 \<Rightarrow> SnapshotStatus \<Rightarrow> node \<Rightarrow> unit outcome" where
  "nd_ReportSnapshot E p i status n =
     sendRecv E p (emptyMessage\<lparr>m_Type := MsgSnapStatus, m_From := i, m_Reject := (status = SnapshotFailure)\<rparr>) n"

definition nd_TransferLeadership :: "proto_lib \<Rightarrow> choice \<Rightarrow> u64 \<Rightarrow> u64 \<Rightarrow> node \<Rightarrow> unit outcome" where
  "nd_TransferLeadership E p lead transferee n =
     (if p = PickCtx then Returns () n
      else sendRecv E p (emptyMessage\<lparr>m_Type := MsgTransferLeader, m_From := transferee, m_To := lead\<rparr>) n)"

definition nd_ForgetLeader :: "proto_lib \<Rightarrow> choice \<Rightarrow> node \<Rightarrow> call_error option outcome" where
  "nd_ForgetLeader E p n = nd_step E p (emptyMessage\<lparr>m_Type := MsgForgetLeader\<rparr>) n"

definition nd_ReadIndex :: "proto_lib \<Rightarrow> choice \<Rightarrow> bytes \<Rightarrow> node \<Rightarrow> call_error option outcome" where
  "nd_ReadIndex E p rctx n =
     nd_step E p (emptyMessage\<lparr>m_Type := MsgReadIndex, m_Entries := [emptyEntry\<lparr>e_Data := rctx\<rparr>]\<rparr>) n"

end
