(* ===== verification/NodeProps.thy ===== *)
theory NodeProps
  imports Node RawNodeProps
begin

text \<open>
  What the goroutine of \<open>node.go\<close> guarantees: it never holds two accepted \<open>Ready\<close>s, the one
  it offers is up to date unless there is no work at all, proposals are taken only while a
  leader is known, and the hard state behaves as for a \<open>RawNode\<close>. Calls that
  are answered by an error leave the node alone, unless they wait for the result of a proposal.
\<close>

section \<open>Specification\<close>

text \<open>A hard state that is not ahead of the node.\<close>

definition notAhead :: "HardState option \<Rightarrow> raft \<Rightarrow> bool" where
  "notAhead h r = (case h of
     None \<Rightarrow> True
   | Some s \<Rightarrow> tv_le (hs_Term s) (hs_Vote s) (r_Term r) (r_Vote r) \<and> hs_Commit s \<le> l_committed (r_raftLog r))"

text \<open>What holds at the top of the loop, and what holds at the \<open>select\<close>.\<close>

definition loop_ok :: "node \<Rightarrow> bool" where
  "loop_ok n \<longleftrightarrow> rn_ok (nd_rn n) \<and> nd_tickc n \<le> 128 \<and> (nd_propc n \<longrightarrow> nd_lead n \<noteq> None_id) \<and>
     (nd_readyc n \<longrightarrow> \<not> nd_advancec n \<and> notAhead (rd_HardState (nd_rd n)) (rn_raft (nd_rn n))) \<and>
     (nd_advancec n \<longrightarrow> \<not> rn_asyncStorageWrites (nd_rn n)) \<and>
     (\<not> rn_asyncStorageWrites (nd_rn n) \<and> \<not> nd_advancec n \<longrightarrow> rn_stepsOnAdvance (nd_rn n) = [])"

definition node_ok :: "proto_lib \<Rightarrow> node \<Rightarrow> bool" where
  "node_ok E n \<longleftrightarrow> loop_ok n \<and> nd_lead n = r_lead (rn_raft (nd_rn n)) \<and>
     (nd_readyc n \<longrightarrow> readyWithoutAccept E (nd_rn n) = Some (nd_rd n) \<or> HasReady (nd_rn n) = Some False)"

text \<open>The iterations of the loop, within the range of terms, and ticks that arrive.\<close>

inductive nd_loop :: "proto_lib \<Rightarrow> node \<Rightarrow> node \<Rightarrow> bool" for E where
  loop_prop: "\<not> nd_done n \<Longrightarrow> nd_propc n \<Longrightarrow> inRange (m\<lparr>m_From := r_id (rn_raft (nd_rn n))\<rparr>) (rn_raft (nd_rn n)) \<Longrightarrow>
    afterCase E (propCase E m n) = Some (err, n') \<Longrightarrow> nd_loop E n n'"
| loop_recv: "\<not> nd_done n \<Longrightarrow> inRange m (rn_raft (nd_rn n)) \<Longrightarrow> afterCase E (recvCase E m n) = Some (u, n') \<Longrightarrow> nd_loop E n n'"
| loop_conf: "\<not> nd_done n \<Longrightarrow> afterCase E (confCase E cc n) = Some (cs, n') \<Longrightarrow> nd_loop E n n'"
| loop_tick: "\<not> nd_done n \<Longrightarrow> 0 < nd_tickc n \<Longrightarrow> r_Term (rn_raft (nd_rn n)) \<noteq> maxU64 \<Longrightarrow>
    afterCase E (tickCase E n) = Some (u, n') \<Longrightarrow> nd_loop E n n'"
| loop_ready: "\<not> nd_done n \<Longrightarrow> nd_readyc n \<Longrightarrow> afterCase E (readyCase E n) = Some (rd, n') \<Longrightarrow> nd_loop E n n'"
| loop_advance: "\<not> nd_done n \<Longrightarrow> nd_advancec n \<Longrightarrow> stepsInRange E (rn_stepsOnAdvance (nd_rn n)) (nd_rn n) \<Longrightarrow>
    afterCase E (advanceCase E n) = Some (u, n') \<Longrightarrow> nd_loop E n n'"
| loop_status: "\<not> nd_done n \<Longrightarrow> afterCase E (statusCase n) = Some (s, n') \<Longrightarrow> nd_loop E n n'"
| loop_stop: "\<not> nd_done n \<Longrightarrow> nd_loop E n (stopCase n)"
| loop_buffer: "nd_tickc n < 128 \<Longrightarrow> nd_loop E n (n\<lparr>nd_tickc := nd_tickc n + 1\<rparr>)"

text \<open>A node of the sample cluster, just restarted.\<close>

definition sampleRestarted :: node where
  "sampleRestarted = newNode ((sampleRaw False)\<lparr>rn_raft := sampleNode 1\<rparr>)"

text \<open>A node of the sample cluster that follows node 2 and has handed out a \<open>Ready\<close>, and a proposal.\<close>

definition sampleFollowing :: node where
  "sampleFollowing = (newNode \<lparr>rn_raft = (sampleNode 1)\<lparr>r_Term := 1, r_lead := 2\<rparr>, rn_asyncStorageWrites = False,
     rn_prevSoftSt = softState ((sampleNode 1)\<lparr>r_Term := 1, r_lead := 2\<rparr>),
     rn_prevHardSt = hardState ((sampleNode 1)\<lparr>r_Term := 1, r_lead := 2\<rparr>), rn_stepsOnAdvance = []\<rparr>)
     \<lparr>nd_propc := True, nd_advancec := True, nd_lead := 2\<rparr>"

definition sampleProp :: Message where
  "sampleProp = emptyMessage\<lparr>m_Type := MsgProp, m_Entries := [emptyEntry\<lparr>e_Data := [7]\<rparr>]\<rparr>"

section \<open>The loop\<close>

lemma notAhead_le: "notAhead h r \<Longrightarrow> raft_le r r' \<Longrightarrow> notAhead h r'"
  by (auto simp: notAhead_def raft_le_def log_le_def intro: tv_le_trans order_trans split: option.splits)

lemma loopHead_ok:
  assumes ok: "loop_ok n" and run: "loopHead E n = Some n'"
  shows "node_ok E n' \<and> nd_rn n' = nd_rn n"
proof -
  obtain n1 where n1: "armReady E n = Some n1" and n': "n' = trackLead n1"
    using run by (auto simp: loopHead_def bind_eq_Some_conv)
  have ok1: "loop_ok n1 \<and> nd_rn n1 = nd_rn n \<and>
      (nd_readyc n1 \<longrightarrow> readyWithoutAccept E (nd_rn n1) = Some (nd_rd n1) \<or> HasReady (nd_rn n1) = Some False)"
  proof (cases "nd_advancec n")
    case True
    with ok n1 show ?thesis by (simp add: armReady_def loop_ok_def)
  next
    case False
    then obtain b where b: "HasReady (nd_rn n) = Some b" using n1 by (auto simp: armReady_def bind_eq_Some_conv)
    show ?thesis
    proof (cases b)
      case True
      with b n1 False obtain rd where rd: "readyWithoutAccept E (nd_rn n) = Some rd" "n1 = n\<lparr>nd_rd := rd, nd_readyc := True\<rparr>"
        by (auto simp: armReady_def bind_eq_Some_conv)
      have "rd_HardState rd = (if hardState (rn_raft (nd_rn n)) = rn_prevHardSt (nd_rn n) then None
          else Some (hardState (rn_raft (nd_rn n))))" by (rule readyWithoutAccept_eq [OF rd(1)])
      then have "notAhead (rd_HardState rd) (rn_raft (nd_rn n))" by (simp add: notAhead_def hardState_def)
      with rd ok False show ?thesis by (simp add: loop_ok_def)
    next
      case False
      with b n1 ok \<open>\<not> nd_advancec n\<close> show ?thesis by (simp add: armReady_def)
    qed
  qed
  then have rn: "nd_rn n1 = nd_rn n" by blast
  from ok1 show ?thesis
    unfolding n' trackLead_def node_ok_def Let_def rn by (auto simp: loop_ok_def hasLeader_def rn)
qed

text \<open>A case that works on the node but not on the offered \<open>Ready\<close>.\<close>

lemma case_ok:
  assumes "node_ok E n" "rn_ok rn" "raft_le (rn_raft (nd_rn n)) (rn_raft rn)"
    "rn_asyncStorageWrites rn = rn_asyncStorageWrites (nd_rn n)" "rn_stepsOnAdvance rn = rn_stepsOnAdvance (nd_rn n)"
    "k \<le> nd_tickc n" "b \<longrightarrow> nd_propc n"
  shows "loop_ok (n\<lparr>nd_rn := rn, nd_propc := b, nd_tickc := k\<rparr>) \<and> rn_le (nd_rn n) rn"
  using assms notAhead_le [OF _ assms(3)] by (auto simp: node_ok_def loop_ok_def rn_le_raft)

lemma afterCase_ok:
  assumes "afterCase E c = Some (a, n')" "\<And>a n1. c = Some (a, n1) \<Longrightarrow> loop_ok n1 \<and> rn_le rn (nd_rn n1)"
  shows "node_ok E n' \<and> rn_le rn (nd_rn n')"
  using assms loopHead_ok by (fastforce simp: afterCase_def bind_eq_Some_conv)


lemma node_update [simp]: "n\<lparr>nd_rn := rn, nd_propc := nd_propc n, nd_tickc := nd_tickc n\<rparr> = n\<lparr>nd_rn := rn\<rparr>"
  "n\<lparr>nd_rn := rn, nd_propc := b, nd_tickc := nd_tickc n\<rparr> = n\<lparr>nd_rn := rn, nd_propc := b\<rparr>"
  "n\<lparr>nd_rn := rn, nd_propc := nd_propc n, nd_tickc := k\<rparr> = n\<lparr>nd_rn := rn, nd_tickc := k\<rparr>"
  by simp_all

lemma stepRaft_case:
  assumes "node_ok E n" "inRange m (rn_raft (nd_rn n))" "stepRaft E m (nd_rn n) = Some (err, rn)"
  shows "loop_ok (n\<lparr>nd_rn := rn\<rparr>) \<and> rn_le (nd_rn n) rn"
proof -
  have "rn_ok (nd_rn n)" using assms(1) by (simp add: node_ok_def loop_ok_def)
  from postD [OF stepRaft_ok [OF this assms(2)] assms(3)] show ?thesis
    using case_ok [OF assms(1), of rn "nd_tickc n" "nd_propc n"] by simp
qed

lemma readyCase_ok:
  assumes ok: "node_ok E n" and armed: "nd_readyc n" and run: "readyCase E n = Some (rd, n1)"
  shows "loop_ok n1 \<and> rn_le (nd_rn n) (nd_rn n1)"
proof -
  let ?rn = "nd_rn n"
  from run obtain rn where acc: "acceptReady E (nd_rd n) ?rn = Some rn"
    and n1: "n1 = (if \<not> rn_asyncStorageWrites rn then n\<lparr>nd_rn := rn, nd_advancec := True\<rparr>
      else n\<lparr>nd_rn := rn, nd_rd := emptyRd\<rparr>)\<lparr>nd_readyc := False\<rparr>"
    by (auto simp: readyCase_def Let_def bind_eq_Some_conv)
  obtain l rs where r': "rn_raft rn = (rn_raft ?rn)\<lparr>r_readStates := rs, r_msgs := [], r_msgsAfterAppend := [], r_raftLog := l\<rparr>"
    "l_committed l = l_committed (r_raftLog (rn_raft ?rn))" and
    p: "rn_prevHardSt rn = (case rd_HardState (nd_rd n) of None \<Rightarrow> rn_prevHardSt ?rn
       | Some h \<Rightarrow> if IsEmptyHardState (Some h) then rn_prevHardSt ?rn else h)" and
    async: "rn_asyncStorageWrites rn = rn_asyncStorageWrites ?rn"
    by (rule acceptReady_eq [OF acc])
  have "rn_ok rn"
    using ok armed by (auto simp: node_ok_def loop_ok_def rn_ok_def r' p role_ok_emptied notAhead_def split: option.splits)
  then show ?thesis using ok by (auto simp: n1 node_ok_def loop_ok_def async rn_le_def r')
qed

lemma advanceCase_ok:
  assumes ok: "node_ok E n" and "nd_advancec n" "stepsInRange E (rn_stepsOnAdvance (nd_rn n)) (nd_rn n)"
    "advanceCase E n = Some (u, n1)"
  shows "loop_ok n1 \<and> rn_le (nd_rn n) (nd_rn n1)"
proof -
  obtain s where s: "foldO (stepQuietly E) (rn_stepsOnAdvance (nd_rn n)) (nd_rn n) = Some s"
    and n1: "n1 = n\<lparr>nd_rn := s\<lparr>rn_stepsOnAdvance := []\<rparr>, nd_rd := emptyRd, nd_advancec := False\<rparr>"
    using assms(4) by (auto simp: advanceCase_def rn_Advance_def bind_eq_Some_conv)
  have "rn_ok (nd_rn n)" using ok by (simp add: node_ok_def loop_ok_def)
  from postD [OF advance_ok [OF this assms(3)] s] ok assms(2) show ?thesis
    by (auto simp: n1 node_ok_def loop_ok_def rn_ok_def rn_le_def)
qed

lemma confCase_ok:
  assumes ok: "node_ok E n" and "confCase E cc n = Some (cs, n1)"
  shows "loop_ok n1 \<and> rn_le (nd_rn n) (nd_rn n1)"
proof -
  obtain r1 b where r1: "applyConfChange E cc (rn_raft (nd_rn n)) = Some (cs, r1)"
    and n1: "n1 = n\<lparr>nd_rn := (nd_rn n)\<lparr>rn_raft := r1\<rparr>, nd_propc := b\<rparr>" "b \<longrightarrow> nd_propc n"
    using assms(2) by (auto simp: confCase_def Let_def bind_eq_Some_conv)
  have rn: "rn_ok (nd_rn n)" using ok by (simp add: node_ok_def loop_ok_def)
  have "raft_le (rn_raft (nd_rn n)) r1" "role_ok r1"
    using postD [OF applyConfChange_le r1] postD [OF applyConfChange_role r1] rn by (auto simp: rn_ok_def)
  with rn_ok_raft [OF rn this] case_ok [OF ok, of "(nd_rn n)\<lparr>rn_raft := r1\<rparr>" "nd_tickc n" b] n1 show ?thesis
    by simp
qed

lemma tickCase_ok:
  assumes ok: "node_ok E n" and "r_Term (rn_raft (nd_rn n)) \<noteq> maxU64" "tickCase E n = Some (u, n1)"
  shows "loop_ok n1 \<and> rn_le (nd_rn n) (nd_rn n1)"
proof -
  obtain rn where rn: "rn_Tick E (nd_rn n) = Some rn" and n1: "n1 = n\<lparr>nd_rn := rn, nd_tickc := nd_tickc n - 1\<rparr>"
    using assms(3) by (auto simp: tickCase_def bind_eq_Some_conv)
  have "rn_ok (nd_rn n)" using ok by (simp add: node_ok_def loop_ok_def)
  from postD [OF tick_ok [OF this assms(2)] rn] have "rn_ok rn" "raft_le (rn_raft (nd_rn n)) (rn_raft rn)" by auto
  with case_ok [OF ok, of rn "nd_tickc n - 1" "nd_propc n"] rn show ?thesis
    by (auto simp: n1 rn_Tick_def bind_eq_Some_conv)
qed

lemma nd_loop_ok: "nd_loop E n n' \<Longrightarrow> node_ok E n \<Longrightarrow> node_ok E n' \<and> rn_le (nd_rn n) (nd_rn n')"
proof (induction rule: nd_loop.induct)
  case (loop_prop n m err n')
  from loop_prop.hyps(4) show ?case
    by (rule afterCase_ok) (use stepRaft_case [OF loop_prop.prems loop_prop.hyps(3)] in \<open>auto simp: propCase_def bind_eq_Some_conv\<close>)
next
  case (loop_recv n m u n')
  have "loop_ok n" using loop_recv.prems by (simp add: node_ok_def)
  from loop_recv.hyps(3) show ?case
    by (rule afterCase_ok)
      (use stepRaft_case [OF loop_recv.prems loop_recv.hyps(2)] \<open>loop_ok n\<close> in
        \<open>auto simp: recvCase_def stepQuietly_def bind_eq_Some_conv rn_le_refl split: if_splits\<close>)
next
  case (loop_conf n cc cs n')
  from loop_conf.hyps(2) show ?case by (rule afterCase_ok) (rule confCase_ok [OF loop_conf.prems])
next
  case (loop_tick n u n')
  from loop_tick.hyps(4) show ?case by (rule afterCase_ok) (rule tickCase_ok [OF loop_tick.prems loop_tick.hyps(3)])
next
  case (loop_ready n rd n')
  from loop_ready.hyps(3) show ?case by (rule afterCase_ok) (rule readyCase_ok [OF loop_ready.prems loop_ready.hyps(2)])
next
  case (loop_advance n u n')
  from loop_advance.hyps(4) show ?case
    by (rule afterCase_ok) (rule advanceCase_ok [OF loop_advance.prems loop_advance.hyps(2,3)])
next
  case (loop_status n s n')
  from loop_status.hyps(2) show ?case
    by (rule afterCase_ok) (use loop_status.prems in \<open>auto simp: statusCase_def bind_eq_Some_conv node_ok_def rn_le_refl\<close>)
next
  case (loop_stop n)
  then show ?case by (auto simp: stopCase_def node_ok_def loop_ok_def rn_le_refl)
next
  case (loop_buffer n)
  then show ?case by (auto simp: node_ok_def loop_ok_def rn_le_refl)
qed

section \<open>Starting\<close>

lemma newNode_ok:
  assumes "rn_ok rn" "rn_stepsOnAdvance rn = []" "loopHead E (newNode rn) = Some n"
  shows "node_ok E n"
  using loopHead_ok [OF _ assms(3)] assms(1,2) by (simp add: loop_ok_def newNode_def)

lemma started_ok:
  assumes "StartNode E rand c peers = Some n \<or> RestartNode E rand c = Some n"
  shows "node_ok E n"
  using assms
proof
  assume "StartNode E rand c peers = Some n"
  then obtain rn err rn1 where "NewRawNode E rand c = Some rn" "rn_Bootstrap E peers rn = Some (err, rn1)"
    "loopHead E (newNode rn1) = Some n" by (auto simp: StartNode_def setupNode_def bind_eq_Some_conv)
  note run = this
  from newRawNode_ok [OF run(1)] Bootstrap_ok [OF _ run(2)] have "rn_ok rn1" "rn_stepsOnAdvance rn1 = []" by simp_all
  then show ?thesis by (rule newNode_ok [OF _ _ run(3)])
next
  assume "RestartNode E rand c = Some n"
  then obtain rn where rn: "NewRawNode E rand c = Some rn" and run: "loopHead E (newNode rn) = Some n"
    by (auto simp: RestartNode_def bind_eq_Some_conv)
  from newRawNode_ok [OF rn] show ?thesis by (intro newNode_ok [OF _ _ run]) simp_all
qed

section \<open>The methods\<close>

lemma loopHead_rn: "loopHead E n = Some n' \<Longrightarrow> nd_rn n' = nd_rn n"
  by (auto simp: bind_eq_Some_conv loopHead_def armReady_def trackLead_def Let_def split: if_splits)

text \<open>What the loop does with a proposal is a \<open>Step\<close> of the node.\<close>

lemma propCase_step:
  assumes "afterCase E (propCase E m n) = Some (e, n1)"
  shows "\<exists>x r'. Step E (m\<lparr>m_From := r_id (rn_raft (nd_rn n))\<rparr>) (rn_raft (nd_rn n)) = Some (x, r') \<and>
    e = map_option RaftErr x \<and> rn_raft (nd_rn n1) = r'"
  using assms by (auto simp: afterCase_def propCase_def stepRaft_def bind_eq_Some_conv dest!: loopHead_rn)

section \<open>The sample node\<close>

lemma sample_restarted: "RestartNode sampleLib (\<lambda>_. 0) (sampleCfg 1) = Some sampleRestarted"
proof -
  have "\<not> l_hasNextCommittedEnts b memLog" for b
    by (simp add: l_hasNextCommittedEnts_def l_maxAppliableIndex_def memLog_def l_hasNextOrInProgressSnapshot_def)
  then have "HasReady ((sampleRaw False)\<lparr>rn_raft := sampleNode 1\<rparr>) = Some False"
    by (simp add: HasReady_def Let_def sampleRaw_def sample_log_ready l_hasNextUnstableEnts_def node_eval)
  moreover have "r_lead (sampleNode 1) = None_id" by (simp add: node_eval)
  ultimately show ?thesis
    by (simp add: RestartNode_def sample_started_raw sampleRestarted_def loopHead_def armReady_def trackLead_def newNode_def)
qed

section \<open>Properties\<close>

text \<open>
  C6: From its start or restart on, through every sequence of iterations of a node's goroutine
  within the range of terms and with leader requests that carry a term, it never
  accepts a second \<open>Ready\<close> before the first one is acknowledged (so \<open>acceptReady\<close> does not
  panic for that reason, and \<open>Advance\<close> never runs under asynchronous storage). The \<open>Ready\<close>
  it offers is the one of the current state, except that one offered before stays on offer when
  there is no work left (\<open>HasReady\<close> is false). Proposals
  are accepted only while a leader is known, at most 128 ticks wait, and the hard state
  handed out is never ahead of the node, whose term, vote and commit index do not go back.
\<close>

theorem Node_loop_invariant:
  assumes "StartNode E rand c peers = Some n \<or> RestartNode E rand c = Some n" "(nd_loop E)\<^sup>*\<^sup>* n n'"
  shows "node_ok E n' \<and> rn_le (nd_rn n) (nd_rn n')"
  using assms(2)
  by (induction rule: rtranclp_induct) (auto simp: started_ok [OF assms(1)] rn_le_refl dest: nd_loop_ok intro: rn_le_trans)

theorem Node_loop_invariant_witness:
  "\<exists>n. RestartNode sampleLib (\<lambda>_. 0) (sampleCfg 1) = Some sampleRestarted \<and>
     afterCase sampleLib (recvCase sampleLib hupMsg sampleRestarted) = Some ((), n) \<and>
     nd_readyc n \<and> r_state (rn_raft (nd_rn n)) = StateCandidate \<and> node_ok sampleLib n \<and>
     rn_le (nd_rn sampleRestarted) (nd_rn n)"
proof -
  have "stepQuietly sampleLib hupMsg (nd_rn sampleRestarted) = Some (sampleRaw False)"
    using sample_campaign_raw by (simp add: rn_Campaign_def stepQuietly_def hupMsg_def sampleRestarted_def newNode_def)
  then have rc: "recvCase sampleLib hupMsg sampleRestarted = Some ((), newNode (sampleRaw False))"
    by (simp add: recvCase_def unknownResponse_def hupMsg_def IsResponseMsg_def sampleRestarted_def newNode_def)
  obtain rd where rd: "readyWithoutAccept sampleLib (sampleRaw False) = Some rd"
    using sample_ready [of False] by (auto simp: rn_Ready_def bind_eq_Some_conv)
  have "HasReady (sampleRaw False) = Some True"
    by (simp add: HasReady_def sampleRaw_def sample_raw IsEmptyHardState_def emptyState_def)
  then obtain n where n: "afterCase sampleLib (recvCase sampleLib hupMsg sampleRestarted) = Some ((), n)"
    "nd_readyc n" "nd_rn n = sampleRaw False"
    by (simp add: afterCase_def rc loopHead_def armReady_def trackLead_def newNode_def rd Let_def)
  have "inRange hupMsg (rn_raft (nd_rn sampleRestarted))"
    by (simp add: inRange_def fromLeader_def hupMsg_def sampleRestarted_def newNode_def node_eval)
  then have "nd_loop sampleLib sampleRestarted n"
    by (intro loop_recv [OF _ _ n(1)]) (simp_all add: sampleRestarted_def newNode_def)
  then have "(nd_loop sampleLib)\<^sup>*\<^sup>* sampleRestarted n" by blast
  from Node_loop_invariant [OF disjI2 [OF sample_restarted] this] sample_restarted n show ?thesis
    by (auto simp: sampleRaw_def)
qed

text \<open>
  C9: The errors of the calls that go through \<open>stepWithWaitOption\<close> (\<open>Campaign\<close>, \<open>Propose\<close>,
  \<open>ProposeConfChange\<close>, \<open>ForgetLeader\<close>, \<open>ReadIndex\<close>, and \<open>Step\<close> for messages it does not ignore).
  After \<open>Stop\<close> such a call leaves the node alone and returns \<open>ErrStopped\<close> or the error of its
  context, and \<open>ErrStopped\<close> is returned only if the node is stopped when the call returns. A
  proposal reaches the node only while it knows a leader. A call that does not wait for a result
  and returns an error has left the node alone. A waiting proposal that was taken returns the
  error of the \<open>Step\<close> that handled it, unless the context ends or the node is stopped while it
  waits, in which case the error returned does not tell: the proposal has been handled.
\<close>

theorem Node_call_errors:
  assumes "node_ok E n" "\<And>n1. (nd_loop E)\<^sup>*\<^sup>* n1 (meanwhile n1)"
    "stepWithWaitOption E p q meanwhile m wait n = Returns err n'"
  shows "(nd_done n \<longrightarrow> n' = n \<and> err \<in> {Some ErrStopped, Some CtxErr}) \<and>
    (err = Some ErrStopped \<longrightarrow> nd_done n') \<and>
    (m_Type m = MsgProp \<and> n' \<noteq> n \<longrightarrow> r_lead (rn_raft (nd_rn n)) \<noteq> None_id) \<and>
    (\<not> (m_Type m = MsgProp \<and> wait) \<and> err \<noteq> None \<longrightarrow> n' = n) \<and>
    (m_Type m = MsgProp \<and> p = PickChan \<and> wait \<longrightarrow>
      (\<exists>e r' n1. Step E (m\<lparr>m_From := r_id (rn_raft (nd_rn n))\<rparr>) (rn_raft (nd_rn n)) = Some (e, r') \<and>
         rn_raft (nd_rn n1) = r' \<and> (nd_loop E)\<^sup>*\<^sup>* n1 n' \<and>
         err = (case q of PickChan \<Rightarrow> map_option (\<lambda>x. StepErr (RaftErr x)) e | PickCtx \<Rightarrow> Some CtxErr | _ \<Rightarrow> Some ErrStopped)))"
proof -
  have lead: "nd_propc n \<Longrightarrow> r_lead (rn_raft (nd_rn n)) \<noteq> None_id"
    using assms(1) by (auto simp: node_ok_def loop_ok_def)
  show ?thesis
  proof (cases p)
    case PickChan
    show ?thesis
    proof (cases "m_Type m = MsgProp")
      case True
      have armed: "\<not> nd_done n" "nd_propc n"
        using assms(3) PickChan True by (auto simp: stepWithWaitOption_def meet_def split: if_splits)
      then obtain e n1 where run: "afterCase E (propCase E m n) = Some (e, n1)"
        using assms(3) PickChan True
        by (cases "afterCase E (propCase E m n)") (auto simp: stepWithWaitOption_def meet_def split: if_splits)
      obtain x r' where step: "Step E (m\<lparr>m_From := r_id (rn_raft (nd_rn n))\<rparr>) (rn_raft (nd_rn n)) = Some (x, r')"
        "e = map_option RaftErr x" "rn_raft (nd_rn n1) = r'"
        using propCase_step [OF run] by blast
      show ?thesis
      proof (cases wait)
        case True
        then have a: "awaitResult q e (meanwhile n1) = Returns err n'"
          using assms(3) PickChan \<open>m_Type m = MsgProp\<close> armed run by (simp add: stepWithWaitOption_def meet_def)
        then have "n' = meanwhile n1" "err = Some ErrStopped \<Longrightarrow> nd_done n'"
          "err = (case q of PickChan \<Rightarrow> map_option (\<lambda>x. StepErr (RaftErr x)) x | PickCtx \<Rightarrow> Some CtxErr | _ \<Rightarrow> Some ErrStopped)"
          by (auto simp: awaitResult_def waitDone_def step(2) option.map_comp comp_def split: choice.splits if_splits)
        moreover have "(nd_loop E)\<^sup>*\<^sup>* n1 (meanwhile n1)" by (rule assms(2))
        ultimately show ?thesis using armed lead [OF armed(2)] step(1,3) True \<open>m_Type m = MsgProp\<close> by auto
      next
        case False
        then have "err = None" using assms(3) PickChan \<open>m_Type m = MsgProp\<close> armed run by (simp add: stepWithWaitOption_def meet_def)
        then show ?thesis using armed lead False by simp
      qed
    next
      case False
      with assms(3) PickChan show ?thesis
        by (auto simp: stepWithWaitOption_def meet_def split: if_splits option.splits)
    qed
  qed (use assms(3) in \<open>auto simp: stepWithWaitOption_def waitDone_def split: if_splits\<close>)
qed

text \<open>
  A follower's node takes a proposal and is stopped while the caller waits: the caller gets
  \<open>ErrStopped\<close> although the proposal is on its way to the leader.
\<close>

theorem Node_call_errors_witness:
  "\<exists>n'. nd_Propose sampleLib PickChan PickDone stopCase [7] sampleFollowing = Returns (Some ErrStopped) n' \<and>
     nd_done n' \<and> \<not> nd_done sampleFollowing \<and>
     r_msgs (rn_raft (nd_rn n')) = [sampleProp\<lparr>m_From := 1, m_To := 2\<rparr>]"
proof -
  let ?r = "(sampleNode 1)\<lparr>r_Term := 1, r_lead := 2\<rparr>" and ?n = sampleFollowing
  let ?r' = "?r\<lparr>r_msgs := [sampleProp\<lparr>m_From := 1, m_To := 2\<rparr>]\<rparr>"
  have "role_ok ?r" by (simp add: role_ok_def node_eval)
  then have ok: "node_ok sampleLib ?n"
    by (simp add: node_ok_def loop_ok_def sampleFollowing_def newNode_def rn_ok_def hardState_def)
  have stop: "(nd_loop sampleLib)\<^sup>*\<^sup>* n1 (stopCase n1)" for n1
  proof (cases "nd_done n1")
    case True
    then have "stopCase n1 = n1" by (simp add: stopCase_def)
    then show ?thesis by simp
  next
    case False
    then show ?thesis by (intro r_into_rtranclp loop_stop)
  qed
  have step: "Step sampleLib (sampleProp\<lparr>m_From := 1\<rparr>) ?r = Some (None, ?r')"
    by (simp add: step_eval sampleProp_def stepFollower_def followerProp_def send_def node_eval)
  have rn: "nd_rn ?n = \<lparr>rn_raft = ?r, rn_asyncStorageWrites = False, rn_prevSoftSt = softState ?r,
      rn_prevHardSt = hardState ?r, rn_stepsOnAdvance = []\<rparr>" "nd_propc ?n" "\<not> nd_done ?n" "nd_advancec ?n" "r_id ?r = 1"
    by (simp_all add: sampleFollowing_def newNode_def node_eval)
  have fwd: "propCase sampleLib sampleProp ?n = Some (None, ?n\<lparr>nd_rn := (nd_rn ?n)\<lparr>rn_raft := ?r'\<rparr>\<rparr>)"
    using step by (simp add: propCase_def stepRaft_def rn)
  have "\<exists>n1. afterCase sampleLib (propCase sampleLib sampleProp ?n) = Some (None, n1)"
    by (simp add: fwd afterCase_def loopHead_def armReady_def rn)
  then obtain n1 where n1: "afterCase sampleLib (propCase sampleLib sampleProp ?n) = Some (None, n1)" by blast
  have run: "stepWithWaitOption sampleLib PickChan PickDone stopCase sampleProp True ?n =
      Returns (Some ErrStopped) (stopCase n1)"
    by (simp add: stepWithWaitOption_def meet_def n1 rn awaitResult_def waitDone_def) (simp add: sampleProp_def stopCase_def)
  have "rn_raft (nd_rn n1) = ?r'" using propCase_step [OF n1] step by (simp add: rn)
  moreover have "nd_Propose sampleLib PickChan PickDone stopCase [7] ?n = Returns (Some ErrStopped) (stopCase n1)"
    using run by (simp add: nd_Propose_def stepWait_def sampleProp_def)
  ultimately show ?thesis
    using Node_call_errors [OF ok stop run] rn(3) by (intro exI [of _ "stopCase n1"]) (simp add: stopCase_def)
qed

end
