(* ===== verification/RaftClock.thy ===== *)
theory RaftClock
  imports Election
begin

text \<open>
  Runs of one node: whatever it handles, its role, its step function and its clock fit
  together, and the clock makes it campaign. The second part shows that no panic stands
  between a node without a leader and its campaign: the timer, \<open>hup\<close>, the reset of the
  state and the requests to all voters go through.
\<close>

section \<open>Specification\<close>

text \<open>What can happen to a node.\<close>

inductive raft_event :: "proto_lib \<Rightarrow> raft \<Rightarrow> raft \<Rightarrow> bool" for E where
  ev_step: "Step E m r = Some (err, r') \<Longrightarrow> raft_event E r r'"
| ev_tick: "tick E r = Some r' \<Longrightarrow> raft_event E r r'"
| ev_conf: "applyConfChange E cc r = Some (cs, r') \<Longrightarrow> raft_event E r r'"

fun ticks :: "proto_lib \<Rightarrow> nat \<Rightarrow> raft \<Rightarrow> raft option" where
  "ticks E 0 r = Some r"
| "ticks E (Suc n) r = Option.bind (tick E r) (ticks E n)"

text \<open>The request for a vote that a node sends when it campaigns.\<close>

definition asksVote :: "raft \<Rightarrow> entryID \<Rightarrow> u64 \<Rightarrow> Message \<Rightarrow> bool" where
  "asksVote r lastID i m \<longleftrightarrow> m_To m = i \<and> m_From m = r_id r \<and>
     m_Type m = (if r_preVote r then MsgPreVote else MsgVote) \<and>
     m_Term m = r_Term r + 1 \<and> m_Index m = eid_index lastID \<and> m_LogTerm m = eid_term lastID"

definition voters :: "raft \<Rightarrow> u64 set" where
  "voters r = jc_IDs (c_Voters (t_Config (r_trk r)))"

section \<open>No panic on the way to a campaign\<close>

lemma lastEntryID_total:
  assumes "l_inv E l L" shows "\<exists>e. l_lastEntryID l = Some e"
proof -
  let ?A = "absLog (l_unstable l) L"
  have ok: "log_ok ?A" using assms by (rule l_inv_log_ok)
  have "logLast ?A \<noteq> maxU64" using logLast_Suc [OF ok] by auto
  from l_term_eq [OF assms this] have "l_term (logLast ?A) l = Some (Inr (logTerm ?A (logLast ?A)))"
    using fst_le_logLast [OF ok] by (simp add: not_less)
  then show ?thesis by (simp add: l_lastEntryID_def l_lastIndex_eq [OF assms])
qed

lemma resetProgress_total:
  assumes "l_lastIndex (r_raftLog r) = Some li" "i \<in> dom (t_Progress (r_trk r))"
  shows "\<exists>r'. resetProgress i r = Some r' \<and> r_raftLog r' = r_raftLog r \<and> dom (t_Progress (r_trk r')) = dom (t_Progress (r_trk r))"
  using assms by (auto simp: resetProgress_def getProgress_def setProgress_def)

lemma raft_reset_total:
  assumes li: "l_lastIndex (r_raftLog r) = Some li" and t: "0 < r_electionTimeout r"
  shows "\<exists>r'. raft_reset t r = Some r'"
proof -
  have "\<exists>s'. Visit resetProgress (r_trk s) s = Some s' \<and> r_raftLog s' = r_raftLog s \<and>
      dom (t_Progress (r_trk s')) = dom (t_Progress (r_trk s))" if "r_raftLog s = r_raftLog r" for s :: raft
    unfolding Visit_def
  proof (rule foldO_total)
    fix x and u :: raft assume "x \<in> set (trk_ids (r_trk s))"
      "r_raftLog u = r_raftLog s \<and> dom (t_Progress (r_trk u)) = dom (t_Progress (r_trk s))"
    then show "\<exists>u'. resetProgress x u = Some u' \<and> r_raftLog u' = r_raftLog s \<and>
        dom (t_Progress (r_trk u')) = dom (t_Progress (r_trk s))"
      using resetProgress_total [of u li x] li that by auto
  qed simp
  then have total: "\<exists>s'. Visit resetProgress (r_trk s) s = Some s'" if "r_raftLog s = r_raftLog r" for s :: raft
    using that by blast
  let ?r2 = "(if r_Term r \<noteq> t then r\<lparr>r_Term := t, r_Vote := None_id\<rparr> else r)
    \<lparr>r_lead := None_id, r_electionElapsed := 0, r_heartbeatElapsed := 0\<rparr>"
  have "\<exists>r3. resetRandomizedElectionTimeout ?r2 = Some r3 \<and> r_raftLog r3 = r_raftLog r"
    using t by (auto simp: resetRandomizedElectionTimeout_def Intn_def)
  then obtain r3 where r3: "resetRandomizedElectionTimeout ?r2 = Some r3" "r_raftLog r3 = r_raftLog r" by blast
  let ?r5 = "(abortLeaderTransfer r3)\<lparr>r_trk := ResetVotes (r_trk (abortLeaderTransfer r3))\<rparr>"
  obtain r6 where "Visit resetProgress (r_trk ?r5) ?r5 = Some r6"
    using total [of ?r5] r3(2) by (auto simp: abortLeaderTransfer_def)
  with r3(1) show ?thesis unfolding raft_reset_def Let_def by (simp only: bind.simps) simp
qed

lemma becomeCandidate_total:
  assumes "l_lastIndex (r_raftLog r) = Some li" "0 < r_electionTimeout r" "r_state r \<noteq> StateLeader"
  shows "\<exists>r'. becomeCandidate r = Some r'"
  using raft_reset_total [of "r\<lparr>r_step := StepCandidate\<rparr>" li "r_Term r + 1"] assms
  by (auto simp: becomeCandidate_def)

lemma campaignSend_request:
  assumes "l_lastEntryID (r_raftLog r) = Some lid" "t' \<noteq> 0" "vm = MsgVote \<or> vm = MsgPreVote"
  shows "\<exists>m a b. campaignSend t t' vm i r = Some (r\<lparr>r_msgs := r_msgs r @ a, r_msgsAfterAppend := b\<rparr>) \<and>
    (i = r_id r \<or> a = [m] \<and> m_To m = i \<and> (r_id r \<noteq> None_id \<longrightarrow> m_From m = r_id r) \<and> m_Type m = vm \<and> m_Term m = t' \<and>
       m_Index m = eid_index lid \<and> m_LogTerm m = eid_term lid)"
proof (cases "i = r_id r")
  case True
  have "\<exists>b. campaignSend t t' vm i r = Some (r\<lparr>r_msgsAfterAppend := b\<rparr>)"
    using assms True by (auto simp: campaignSend_def voteRespMsgType_def send_def Let_def)
  then obtain b where "campaignSend t t' vm i r = Some (r\<lparr>r_msgs := r_msgs r @ [], r_msgsAfterAppend := b\<rparr>)" by auto
  with True show ?thesis by blast
next
  case False
  have "\<exists>m. campaignSend t t' vm i r = Some (r\<lparr>r_msgs := r_msgs r @ [m]\<rparr>) \<and> m_To m = i \<and>
      (r_id r \<noteq> None_id \<longrightarrow> m_From m = r_id r) \<and> m_Type m = vm \<and> m_Term m = t' \<and>
      m_Index m = eid_index lid \<and> m_LogTerm m = eid_term lid"
    using assms False by (auto simp: campaignSend_def send_def Let_def emptyMessage_def)
  then obtain m where m: "campaignSend t t' vm i r = Some (r\<lparr>r_msgs := r_msgs r @ [m], r_msgsAfterAppend := r_msgsAfterAppend r\<rparr>)"
    "m_To m = i" "r_id r \<noteq> None_id \<longrightarrow> m_From m = r_id r" "m_Type m = vm" "m_Term m = t'" "m_Index m = eid_index lid"
    "m_LogTerm m = eid_term lid" by auto
  then show ?thesis by blast
qed

lemma campaignSend_all:
  assumes "l_lastEntryID (r_raftLog r) = Some lid" "t' \<noteq> 0" "vm = MsgVote \<or> vm = MsgPreVote" "r_id r \<noteq> None_id"
  shows "\<exists>a b. foldO (campaignSend t t' vm) ids r = Some (r\<lparr>r_msgs := r_msgs r @ a, r_msgsAfterAppend := b\<rparr>) \<and>
    (\<forall>i \<in> set ids. i \<noteq> r_id r \<longrightarrow> (\<exists>m \<in> set a. m_To m = i \<and> m_From m = r_id r \<and> m_Type m = vm \<and> m_Term m = t' \<and>
       m_Index m = eid_index lid \<and> m_LogTerm m = eid_term lid))"
  using assms
proof (induction ids arbitrary: r)
  case Nil
  show ?case by (intro exI [of _ "[]"] exI [of _ "r_msgsAfterAppend r"]) simp
next
  case (Cons i ids)
  obtain m a b where s: "campaignSend t t' vm i r = Some (r\<lparr>r_msgs := r_msgs r @ a, r_msgsAfterAppend := b\<rparr>)"
    "i = r_id r \<or> a = [m] \<and> m_To m = i \<and> (r_id r \<noteq> None_id \<longrightarrow> m_From m = r_id r) \<and> m_Type m = vm \<and> m_Term m = t' \<and>
       m_Index m = eid_index lid \<and> m_LogTerm m = eid_term lid"
    using campaignSend_request [OF Cons.prems(1-3), of t i] by blast
  let ?s = "r\<lparr>r_msgs := r_msgs r @ a, r_msgsAfterAppend := b\<rparr>"
  from Cons.IH [of ?s] Cons.prems obtain a' b' where
    r: "foldO (campaignSend t t' vm) ids ?s = Some (?s\<lparr>r_msgs := r_msgs ?s @ a', r_msgsAfterAppend := b'\<rparr>)"
    "\<forall>i \<in> set ids. i \<noteq> r_id r \<longrightarrow> (\<exists>m \<in> set a'. m_To m = i \<and> m_From m = r_id r \<and> m_Type m = vm \<and> m_Term m = t' \<and>
       m_Index m = eid_index lid \<and> m_LogTerm m = eid_term lid)" by auto
  have "foldO (campaignSend t t' vm) (i # ids) r = Some (r\<lparr>r_msgs := r_msgs r @ (a @ a'), r_msgsAfterAppend := b'\<rparr>)"
    using s(1) r(1) by simp
  moreover have "\<forall>j \<in> set (i # ids). j \<noteq> r_id r \<longrightarrow> (\<exists>m \<in> set (a @ a'). m_To m = j \<and> m_From m = r_id r \<and> m_Type m = vm \<and>
       m_Term m = t' \<and> m_Index m = eid_index lid \<and> m_LogTerm m = eid_term lid)"
    using s(2) r(2) Cons.prems(4) by auto
  ultimately show ?case by blast
qed

lemma requests_sent:
  assumes "l_lastEntryID (r_raftLog r) = Some lid" "r_id r \<noteq> None_id" "r_Term r + 1 \<noteq> 0"
    "r_raftLog s = r_raftLog r" "r_id s = r_id r" "vm = (if r_preVote r then MsgPreVote else MsgVote)"
  obtains a b where "foldO (campaignSend t (r_Term r + 1) vm) (sorted_list_of_set (voters r)) s =
      Some (s\<lparr>r_msgs := r_msgs s @ a, r_msgsAfterAppend := b\<rparr>)"
    "\<forall>i \<in> voters r - {r_id r}. \<exists>m \<in> set a. asksVote r lid i m"
proof -
  have vm: "vm = MsgVote \<or> vm = MsgPreVote" using assms(6) by simp
  have "l_lastEntryID (r_raftLog s) = Some lid" "r_id s \<noteq> None_id" using assms by simp_all
  from campaignSend_all [OF this(1) assms(3) vm this(2), of t "sorted_list_of_set (voters r)"]
  obtain a b where "foldO (campaignSend t (r_Term r + 1) vm) (sorted_list_of_set (voters r)) s =
      Some (s\<lparr>r_msgs := r_msgs s @ a, r_msgsAfterAppend := b\<rparr>)"
    "\<forall>i \<in> voters r. i \<noteq> r_id r \<longrightarrow> (\<exists>m \<in> set a. m_To m = i \<and> m_From m = r_id r \<and> m_Type m = vm \<and>
       m_Term m = r_Term r + 1 \<and> m_Index m = eid_index lid \<and> m_LogTerm m = eid_term lid)"
    using assms(5) by auto
  then show thesis using that assms(6) by (auto simp: asksVote_def)
qed

lemma campaign_asks:
  assumes last: "l_lastEntryID (r_raftLog r) = Some lid" and r: "0 < r_electionTimeout r" "r_state r \<noteq> StateLeader"
    "r_id r \<noteq> None_id" "r_Term r \<noteq> maxU64"
  shows "\<exists>r'. campaign (if r_preVote r then campaignPreElection else campaignElection) r = Some r' \<and>
    r_state r' = (if r_preVote r then StatePreCandidate else StateCandidate) \<and>
    r_Term r' = (if r_preVote r then r_Term r else r_Term r + 1) \<and>
    (\<forall>i \<in> voters r - {r_id r}. \<exists>m \<in> set (r_msgs r'). asksVote r lid i m)"
proof -
  have t1: "r_Term r + 1 \<noteq> 0" using unat_add1 [OF r(4)] by (metis Suc_eq_plus1 nat.distinct(1) unat_0)
  show ?thesis
  proof (cases "r_preVote r")
    case True
    let ?s = "r\<lparr>r_step := StepCandidate, r_trk := ResetVotes (r_trk r), r_tick := TickElection,
             r_lead := None_id, r_state := StatePreCandidate\<rparr>"
    obtain a b where ab: "foldO (campaignSend campaignPreElection (r_Term r + 1) MsgPreVote) (sorted_list_of_set (voters r)) ?s =
        Some (?s\<lparr>r_msgs := r_msgs ?s @ a, r_msgsAfterAppend := b\<rparr>)" "\<forall>i \<in> voters r - {r_id r}. \<exists>m \<in> set a. asksVote r lid i m"
      by (rule requests_sent [OF last r(3) t1, of ?s MsgPreVote campaignPreElection]) (simp_all add: True)
    have "campaign campaignPreElection r = Some (?s\<lparr>r_msgs := r_msgs ?s @ a, r_msgsAfterAppend := b\<rparr>)"
      using ab(1) r(2) by (simp add: campaign_def becomePreCandidate_def voters_def ResetVotes_def)
    with True ab(2) show ?thesis by auto
  next
    case False
    obtain li where "l_lastIndex (r_raftLog r) = Some li" using last by (auto simp: l_lastEntryID_def bind_eq_Some_conv)
    from becomeCandidate_total [OF this r(1,2)] obtain s where s: "becomeCandidate r = Some s" by blast
    from postD [OF becomeCandidate_to s] obtain u where u: "reset_to (r_Term r + 1) (r\<lparr>r_step := StepCandidate\<rparr>) u"
      "s = u\<lparr>r_tick := TickElection, r_Vote := r_id u, r_state := StateCandidate\<rparr>" by blast
    have "r_id u = r_id r" using u(1) settings_id [of u "r\<lparr>r_step := StepCandidate\<rparr>"] by (simp add: reset_to_def)
    with u have eqs: "r_raftLog s = r_raftLog r" "r_id s = r_id r" "r_Term s = r_Term r + 1"
      "r_state s = StateCandidate" "voters s = voters r"
      by (simp_all add: reset_to_def voters_def)
    obtain a b where ab: "foldO (campaignSend campaignElection (r_Term r + 1) MsgVote) (sorted_list_of_set (voters r)) s =
        Some (s\<lparr>r_msgs := r_msgs s @ a, r_msgsAfterAppend := b\<rparr>)" "\<forall>i \<in> voters r - {r_id r}. \<exists>m \<in> set a. asksVote r lid i m"
      by (rule requests_sent [OF last r(3) t1 eqs(1,2), of MsgVote campaignElection]) (simp_all add: False)
    have "campaign campaignElection r = Some (s\<lparr>r_msgs := r_msgs s @ a, r_msgsAfterAppend := b\<rparr>)"
      using ab(1) s eqs(3,5) by (simp add: campaign_def voters_def)
    with False ab(2) eqs(3,4) show ?thesis by auto
  qed
qed

section \<open>The clock\<close>

lemma ticks_wait:
  assumes "r_tick r = TickElection" "r_electionElapsed r + int n < r_randomizedElectionTimeout r"
  shows "ticks E n r = Some (r\<lparr>r_electionElapsed := r_electionElapsed r + int n\<rparr>)"
  using assms
proof (induction n arbitrary: r)
  case (Suc n)
  let ?s = "r\<lparr>r_electionElapsed := r_electionElapsed r + 1\<rparr>"
  have "tick E r = Some ?s"
    using Suc.prems by (simp add: tick_def tickElection_def pastElectionTimeout_def)
  with Suc.IH [of ?s] Suc.prems show ?case by (simp add: algebra_simps)
qed simp

lemma ticks_add: "ticks E (m + n) r = Option.bind (ticks E m r) (ticks E n)"
proof (induction m arbitrary: r)
  case (Suc m)
  then show ?case by (cases "tick E r") simp_all
qed simp

lemma elapsed_irrelevant [simp]:
  "promotable (r\<lparr>r_electionElapsed := n\<rparr>) = promotable r"
  "hasUnappliedConfChanges E (r\<lparr>r_electionElapsed := n\<rparr>) = hasUnappliedConfChanges E r"
  by (simp_all add: promotable_def getProgress_def hasUnappliedConfChanges_def split: option.split)

lemma hup_timeout:
  assumes "r_tick r = TickElection" "promotable r" "r_electionElapsed r + 1 = r_randomizedElectionTimeout r"
    "hup E (if r_preVote r then campaignPreElection else campaignElection) (r\<lparr>r_electionElapsed := 0\<rparr>) = Some r'"
  shows "tick E r = Some r'"
  using assms by (simp add: tick_def tickElection_def Let_def pastElectionTimeout_def Step_def stepMessage_def noErr_def)

section \<open>Properties\<close>

text \<open>
  C8: From its construction on, through every sequence of messages, ticks and membership
  changes, a node is in one of the four roles with the step function, the clock, the leader
  and the vote of that role: followers and candidates run the election timer, a candidate
  has voted for itself and knows no leader, a leader runs the heartbeat timer, is its own
  leader and has its own vote.
\<close>

theorem role_consistent:
  assumes "newRaft E rand c = Some r" "(raft_event E)\<^sup>*\<^sup>* r r'"
  shows "role_ok r'"
  using assms(2)
proof (induction rule: rtranclp_induct)
  case base
  from postD [OF newRaft_starts assms(1)] show ?case by simp
next
  case (step s t)
  from step.hyps(2) show ?case
    using postD [OF Step_role [OF step.IH]] postD [OF tick_role [OF step.IH]] postD [OF applyConfChange_role [OF step.IH]]
    by (cases rule: raft_event.cases) fastforce+
qed

theorem role_consistent_witness: "role_ok sampleCand \<and> r_state sampleCand = StateCandidate"
proof -
  have "raft_event sampleLib (sampleNode 1) sampleCand" by (rule ev_step [OF sample_campaign])
  then have "(raft_event sampleLib)\<^sup>*\<^sup>* (sampleNode 1) sampleCand" by blast
  from role_consistent [OF sample_started(1) this] show ?thesis by simp
qed

text \<open>
  C7: A node that may campaign and hears nothing does campaign: after exactly as many ticks
  as its randomized timeout still asks for, without any panic on the way, it is a candidate
  of the next term (with pre-vote, a pre-candidate of its own term), and its outgoing queue
  holds a request for the vote of every other voter, carrying the last entry of its log.
\<close>

theorem election_timeout_campaigns:
  assumes "role_ok r" "r_state r \<noteq> StateLeader" "promotable r" "hasUnappliedConfChanges E r = Some False"
    "l_inv E (r_raftLog r) L" "0 < r_electionTimeout r" "r_Term r \<noteq> maxU64"
    "r_electionElapsed r < r_randomizedElectionTimeout r"
  shows "\<exists>r' lid. ticks E (nat (r_randomizedElectionTimeout r - r_electionElapsed r)) r = Some r' \<and>
    r_state r' = (if r_preVote r then StatePreCandidate else StateCandidate) \<and>
    r_Term r' = (if r_preVote r then r_Term r else r_Term r + 1) \<and>
    l_lastEntryID (r_raftLog r) = Some lid \<and>
    (\<forall>i \<in> voters r - {r_id r}. \<exists>m \<in> set (r_msgs r'). asksVote r lid i m)"
proof -
  let ?n = "nat (r_randomizedElectionTimeout r - r_electionElapsed r)"
  let ?s = "r\<lparr>r_electionElapsed := r_randomizedElectionTimeout r - 1\<rparr>"
  obtain lid where last: "l_lastEntryID (r_raftLog r) = Some lid" using lastEntryID_total [OF assms(5)] by blast
  have tick: "r_tick r = TickElection" and id: "r_id r \<noteq> None_id"
    using assms(1,2) by (auto simp: role_ok_def split: RaftState.splits)
  obtain r' where r': "campaign (if r_preVote r then campaignPreElection else campaignElection) (r\<lparr>r_electionElapsed := 0\<rparr>) = Some r'"
    "r_state r' = (if r_preVote r then StatePreCandidate else StateCandidate)"
    "r_Term r' = (if r_preVote r then r_Term r else r_Term r + 1)"
    "\<forall>i \<in> voters r - {r_id r}. \<exists>m \<in> set (r_msgs r'). asksVote r lid i m"
    using campaign_asks [of "r\<lparr>r_electionElapsed := 0\<rparr>" lid] last assms(2,6,7) id
    by (auto simp: voters_def asksVote_def)
  have "ticks E (?n - 1) r = Some ?s"
    using ticks_wait [OF tick, of "?n - 1" E] assms(8) by (simp add: of_nat_diff)
  moreover have "tick E ?s = Some r'"
    by (rule hup_timeout)
      (use tick assms(2-4) r'(1) in \<open>simp_all add: hup_def\<close>)
  moreover have "ticks E ?n r = Option.bind (ticks E (?n - 1) r) (ticks E 1)"
    using ticks_add [of E "?n - 1" 1 r] assms(8) by simp
  ultimately have "ticks E ?n r = Some r'" by simp
  with r'(2-4) last show ?thesis by blast
qed

theorem election_timeout_campaigns_witness:
  "\<exists>r' m. ticks sampleLib 10 (sampleNode 1) = Some r' \<and> r_state r' = StateCandidate \<and> r_Term r' = 1 \<and>
     m \<in> set (r_msgs r') \<and> m_To m = 2 \<and> m_Type m = MsgVote"
proof -
  have "role_ok (sampleNode 1)" by (simp add: role_ok_def node_eval)
  moreover have "r_state (sampleNode 1) \<noteq> StateLeader" "promotable (sampleNode 1)"
    "hasUnappliedConfChanges sampleLib (sampleNode 1) = Some False" "l_inv sampleLib (r_raftLog (sampleNode 1)) (0, 0, [])"
    "0 < r_electionTimeout (sampleNode 1)" "r_Term (sampleNode 1) \<noteq> maxU64"
    "r_electionElapsed (sampleNode 1) < r_randomizedElectionTimeout (sampleNode 1)"
    using mem_inv(1) mem_log(6)
    by (simp_all add: node_eval promotable_def getProgress_def hasUnappliedConfChanges_def mem_log)
  ultimately obtain r' lid where "ticks sampleLib 10 (sampleNode 1) = Some r'" "r_state r' = StateCandidate" "r_Term r' = 1"
    "\<forall>i \<in> voters (sampleNode 1) - {1}. \<exists>m \<in> set (r_msgs r'). asksVote (sampleNode 1) lid i m"
    using election_timeout_campaigns [of "sampleNode 1" sampleLib "(0, 0, [])"] by (auto simp: node_eval)
  moreover have "2 \<in> voters (sampleNode 1) - {1}" by (simp add: voters_def node_eval jc_IDs_def mc_ids_def)
  moreover have "\<not> r_preVote (sampleNode 1)" by (simp add: node_eval)
  ultimately show ?thesis by (force simp: asksVote_def)
qed

end
