(* ===== verification/Divergences.thy ===== *)
theory Divergences
  imports RawNodeProps
begin

text \<open>
  Places where a comment of the code promises more than the code does. Each lemma states
  what the code does instead.
\<close>

section \<open>Comments on data\<close>

text \<open>\<open>Config.Clone\<close> is said to return a copy; the copy never has \<open>AutoLeave\<close> set (\<open>tracker.go\<close>).\<close>

lemma Clone_drops_AutoLeave: "\<not> c_AutoLeave (Config_Clone c)"
  by (simp add: Config_Clone_def)

text \<open>
  In \<open>StateSnapshot\<close>, \<open>sentCommit\<close> is said to equal \<open>PendingSnapshot\<close> (\<open>progress.go\<close>); a heartbeat
  sets it to the matched part of the commit index whatever the state.
\<close>

lemma heartbeat_moves_sentCommit:
  assumes "getProgress to r = Some pr" "sendHeartbeat to ctx r = Some r'"
  shows "\<exists>pr'. getProgress to r' = Some pr' \<and> pr_State pr' = pr_State pr \<and> pr_PendingSnapshot pr' = pr_PendingSnapshot pr \<and>
    pr_sentCommit pr' = min (pr_Match pr) (l_committed (r_raftLog r))"
  using assms by (auto simp: sendHeartbeat_def Let_def bind_eq_Some_conv getProgress_def setProgress_def SentCommit_def)

text \<open>
  \<open>term\<close> reports an index above the log as unavailable; for the largest index the comparison
  with the first index wraps around and the answer is that it has been compacted (\<open>log.go\<close>).
\<close>

lemma term_of_largest_index:
  assumes inv: "l_inv E l L" shows "l_term maxU64 l = Some (Inl ErrCompacted)"
proof -
  let ?u = "l_unstable l" and ?A = "absLog (l_unstable l) L"
  have ui: "u_inv ?u" and ok: "log_ok ?A" using inv by (simp_all add: l_inv_def)
  have "u_offset ?u - 1 \<noteq> maxU64" using ui by (simp add: u_inv_def) unat_arith
  moreover have "\<not> unat (maxU64 :: u64) < unat (u_offset ?u) + length (u_entries ?u)" using ui by (simp add: u_inv_def)
  ultimately have "maybeTerm maxU64 ?u = Some None" by (simp add: maybeTerm_eq [OF ui])
  moreover have "0 < fst ?A + 1"
    using logLast_Suc [OF ok] fst_le_logLast [OF ok] by unat_arith
  moreover have "(maxU64 :: u64) + 1 = 0" by simp
  ultimately show ?thesis unfolding l_term_def by (simp only: bind.simps option.case l_firstIndex_eq [OF inv] if_True)
qed

section \<open>Comments on behaviour\<close>

text \<open>
  A candidate that handles a leader's request is said to be at the term of the request
  (\<open>stepCandidate\<close> in \<open>raft.go\<close>). A request without a term gets there too, and takes the node back
  to term zero.
\<close>

lemma candidate_falls_to_term_zero:
  "\<exists>r'. Step sampleLib (emptyMessage\<lparr>m_Type := MsgHeartbeat, m_From := 2\<rparr>) sampleCand = Some (None, r') \<and>
     r_Term sampleCand = 1 \<and> r_Term r' = 0"
  by (simp add: step_eval stepCandidate_def reset_eval handleHeartbeat_def l_commitTo_def sampleCand_def node_eval)

text \<open>
  \<open>Bootstrap\<close> is said to refuse a storage that is not empty (\<open>bootstrap.go\<close>). It looks at the last
  index only: whatever term the storage has recorded, the node restarts at term 1.
\<close>

lemma applyConfChange_term: "post (applyConfChange E cc r) (\<lambda>(cs, r'). r_Term r' = r_Term r)"
proof -
  have "post (switchToConfig E cfg trk r) (\<lambda>(cs, r'). r_Term r' = r_Term r)" for cfg trk
    by (rule post_weaken [OF switchToConfig_as])
      (auto simp: steady_def asFollower_def roleCore_def withConfig_def)
  then show ?thesis by (auto simp: applyConfChange_def post_simps post_case Let_def intro!: pure_calls)
qed

lemma Bootstrap_restarts_at_term_one:
  assumes "rn_Bootstrap E peers rn = Some (None, rn')"
  shows "r_Term (rn_raft rn') = 1"
proof -
  obtain li where li: "st_LastIndex (l_storage (r_raftLog (rn_raft rn))) = Some li" and peers: "peers \<noteq> []"
    using assms by (auto simp: rn_Bootstrap_def bind_eq_Some_conv split: if_splits)
  then have "li = Inr 0" using assms by (cases li) (auto simp: rn_Bootstrap_def split: if_splits)
  with assms li peers obtain ents where "bootstrapEntries E 0 peers = Some ents"
    by (cases "bootstrapEntries E 0 peers") (auto simp: rn_Bootstrap_def bind_eq_Some_conv)
  with assms li peers \<open>li = Inr 0\<close> obtain r l r1 where r: "becomeFollower 1 None_id (rn_raft rn) = Some r"
    and f: "foldO (addPeer E) peers (r\<lparr>r_raftLog := l\<lparr>l_committed := of_nat (length ents)\<rparr>\<rparr>) = Some r1"
    and rn': "rn_raft rn' = r1"
    by (auto simp: rn_Bootstrap_def bind_eq_Some_conv)
  have "r_Term r = 1" using postD [OF becomeFollower_as r] by (simp add: asFollower_def roleCore_def)
  moreover have "r_Term r1 = r_Term (r\<lparr>r_raftLog := l\<lparr>l_committed := of_nat (length ents)\<rparr>\<rparr>)"
    using f
    by (rule foldO_invariant [where P = "\<lambda>s. r_Term s = r_Term (r\<lparr>r_raftLog := l\<lparr>l_committed := of_nat (length ents)\<rparr>\<rparr>)"])
      (use postD [OF applyConfChange_term] in \<open>fastforce simp: addPeer_def bind_eq_Some_conv\<close>)+
  ultimately show ?thesis by (simp add: rn')
qed

end
