(* ===== verification/Spec2Isabelle.thy ===== *)
theory Spec2Isabelle
  imports RaftPb Quorum Inflights Progress Tracker ConfChange Restore LogTypes Storage Unstable
    RaftLog LogProps ReadOnly Raft RaftStep RaftOrder RaftRoles
    Sample Election RawNode RawNodeProps Node NodeProps RaftClock Divergences
begin

text \<open>
  A verification development for the Raft library under \<open>src/\<close> (package \<open>raft\<close> with its
  subpackages \<open>quorum\<close>, \<open>tracker\<close>, \<open>confchange\<close> and \<open>raftpb\<close>).

  \<^bold>\<open>The program.\<close> A node of a Raft cluster is a deterministic state machine: \<open>raft.Step\<close> and
  \<open>raft.tick\<close> (\<open>raft.go\<close>) take a message or a tick and change the node, its log (\<open>log.go\<close> over
  \<open>log_unstable.go\<close> and a \<open>Storage\<close>), its view of the other nodes (\<open>tracker\<close>, with the quorums
  of \<open>quorum\<close>) and its queues of outgoing messages. Membership changes go through \<open>confchange\<close>.
  \<open>RawNode\<close> (\<open>rawnode.go\<close>) hands the work of a node to the application as \<open>Ready\<close> values, and
  \<open>Node\<close> (\<open>node.go\<close>) runs a \<open>RawNode\<close> in a goroutine behind channels.

  \<^bold>\<open>Conventions.\<close> \<open>uint64\<close> is \<open>64 word\<close>, so sums wrap as in the code; \<open>int\<close> is \<open>nat\<close> or \<open>int\<close>; a byte
  slice is a list of \<open>8 word\<close>. A struct is a record, an enumeration a datatype, a Go map a
  partial function whose loops run in ascending order (\<open>Quorum.quorum_order_irrelevant\<close> shows that
  the quorum computations do not depend on it). A panic is \<open>None\<close>, so a function that can panic
  returns an \<open>option\<close>; an error is \<open>Inl\<close> of a sum or an \<open>option\<close> returned with the state. The
  one loop without an evident bound, \<open>for r.maybeSendAppend(to, false) {}\<close>, is a
  \<open>partial_function\<close>. The protobuf runtime is the argument \<open>E\<close> of type \<open>proto_lib\<close> (sizes and
  encodings), the random numbers of the election timeout are an argument of \<open>newRaft\<close>, and a
  \<open>Storage\<close> is a record of the results of its methods; \<open>storageHas\<close> is the contract it is used
  under, met by \<open>MemoryStorage\<close> (locale \<open>log_store\<close>).

  \<^bold>\<open>The theories.\<close>
  \<^item> \<open>Prelude\<close>: panics, errors and loops; the calculus \<open>post\<close> for functions that may panic; the
    locale \<open>step_preorder\<close> for relations between a state and a later one; facts about words.
  \<^item> \<open>RaftPb\<close> (\<open>raftpb\<close>): messages, entries, configuration changes and their text form.
  \<^item> \<open>Quorum\<close> (\<open>quorum\<close>): majority and joint quorums. The locale \<open>voting_scheme\<close> states what an
    election and a commit index need of quorums and is interpreted on both.
  \<^item> \<open>Inflights\<close>, \<open>Progress\<close>, \<open>Tracker\<close> (\<open>tracker\<close>): the ring buffer refines a list (locale
    \<open>append_window\<close>); the state of replication to a follower; votes, commit index, activity.
  \<^item> \<open>ConfChange\<close>, \<open>Restore\<close> (\<open>confchange\<close>): the changes refine set operations, keep the invariants
    of a configuration and never let two quorums miss each other; a \<open>ConfState\<close> round trip.
  \<^item> \<open>LogTypes\<close>, \<open>Storage\<close>, \<open>Unstable\<close>, \<open>RaftLog\<close>, \<open>LogProps\<close> (\<open>types.go\<close>, \<open>util.go\<close>, \<open>storage.go\<close>,
    \<open>log_unstable.go\<close>, \<open>log.go\<close>): the log as one sequence of entries (\<open>absLog\<close>, invariant
    \<open>l_inv\<close>) spread over storage and unstable tail; reading, scanning, appending, the cursors.
  \<^item> \<open>ReadOnly\<close> (\<open>read_only.go\<close>): the queue of pending linearizable reads.
  \<^item> \<open>Raft\<close>, \<open>RaftStep\<close> (\<open>raft.go\<close>): sending, commit and size limits, role changes and campaigns;
    the message handlers, \<open>Step\<close>, snapshots, membership changes, the clock, \<open>newRaft\<close>.
  \<^item> \<open>RaftOrder\<close>, \<open>RaftRoles\<close>: for every function of these, what it respects. \<open>raft_le\<close>: terms, votes
    and cursors only move forward, messages are only added and go to the right queue.
    \<open>quiet\<close>, \<open>steady\<close>, \<open>elect\<close>: what leaves the role alone, and how votes and leadership arise.
  \<^item> \<open>Sample\<close>: a cluster of three voters that the witnesses evaluate.
  \<^item> \<open>Election\<close>: a cluster of nodes over an unreliable network with crashes; no term has two
    leaders.
  \<^item> \<open>RaftClock\<close>: runs of one node; its role is consistent, and its timer makes it campaign.
  \<^item> \<open>RawNode\<close>, \<open>RawNodeProps\<close> (\<open>rawnode.go\<close>, \<open>bootstrap.go\<close>, \<open>status.go\<close>): \<open>Ready\<close>, \<open>Advance\<close> and the storage
    messages. Handling a \<open>Ready\<close> is the step \<open>cl_ready\<close> of the cluster, so what \<open>Election\<close> shows
    holds for nodes driven through \<open>RawNode\<close>.
  \<^item> \<open>Node\<close>, \<open>NodeProps\<close> (\<open>node.go\<close>): the goroutine as a state at its \<open>select\<close>, one definition per
    case, and the methods, with the alternative a \<open>select\<close> takes as an argument, and for a
    proposal that waits for its result also what the loop does in the meantime.
  \<^item> \<open>Divergences\<close>: places where a comment promises more than the code does.

  \<^bold>\<open>Bounds.\<close> Statements about runs assume that terms stay below the largest 64-bit integer and
  that the requests of a leader (\<open>MsgApp\<close>, \<open>MsgHeartbeat\<close>, \<open>MsgSnap\<close>) carry a term, as those the
  code sends do (\<open>inRange\<close>; \<open>Divergences.candidate_falls_to_term_zero\<close> shows what a request
  without a term does). The calls of a \<open>RawNode\<close> (\<open>rn_call\<close>) do not include \<open>Bootstrap\<close>, which a run
  may start with: called later it can restart the term. The steps of a log (\<open>log_step\<close>) are
  its operations and those of its storage under the conditions their callers keep. Statements about logs that an index and the total size of the entries fit
  into 64 bits (\<open>boundedLog\<close>, \<open>totalSize\<close>). There is no fuel: every loop is structural recursion,
  a fold over a finite list, or proved to end (\<open>LogProps.scan_visits_range\<close>).

  \<^bold>\<open>Not modelled.\<close> Log lines, tracing (\<open>logger.go\<close>, \<open>state_trace.go\<close>) and the \<open>String\<close>, \<open>Describe\<close> and
  \<open>MarshalJSON\<close> methods: they only print. The mutex and the call statistics of
  \<open>MemoryStorage\<close>. The wire format of protobuf: the generated \<open>raft.pb.go\<close> is represented by its
  message types. Goroutines and channels appear in \<open>Node\<close> as rendezvous steps. A nil message
  passed to \<open>Step\<close>, and message types that this version of the code does not declare.
  The test drivers of \<open>rafttest\<close>.
\<close>

end
